(* ===== verification/Prelude.thy ===== *)
theory Prelude
  imports Main "HOL-Library.Word" "HOL-Library.State_Monad"
begin

text \<open>
  The shared vocabulary of the development: bytes and byte strings, the named collections
  of facts the component theories add to, and the generic lemmas on lists, words and sums
  they share.

  A Go \<^verbatim>\<open>byte\<close> is an \<open>8 word\<close>, a \<^verbatim>\<open>uint64\<close> (and the bit pattern of a 64-bit
  \<^verbatim>\<open>int\<close>) a \<open>64 word\<close>. The contents of a \<^verbatim>\<open>[]byte\<close> is a list of bytes.
\<close>

unbundle bit_operations_syntax

type_synonym byte = "8 word"
type_synonym bytes = "byte list"
type_synonym u64 = "64 word"

text \<open>\<^verbatim>\<open>[]byte("...")\<close> of a string literal.\<close>

definition bytes_of :: "string \<Rightarrow> bytes" where
  "bytes_of s = map of_char s"

text \<open>\<^verbatim>\<open>make([]byte, n)\<close>: zero bytes; and the test that a byte string is wiped.\<close>

definition zeros :: "nat \<Rightarrow> bytes" where
  "zeros n = replicate n 0"

definition wiped :: "bytes \<Rightarrow> bool" where
  "wiped b \<longleftrightarrow> b = zeros (length b)"

named_theorems run_simps \<open>running the operations of the model on a memory\<close>
named_theorems is_simps \<open>which sentinels an error wraps\<close>
named_theorems size_simps \<open>lengths of the byte strings the code builds\<close>

lemma length_bytes_of [simp, size_simps]: "length (bytes_of s) = length s"
  by (simp add: bytes_of_def)

lemma inj_of_char_byte: "inj (of_char :: char \<Rightarrow> byte)"
proof (rule inj_on_inverseI)
  fix c :: char
  have "(of_char c :: byte) = of_nat (of_char c)"
    by (simp only: of_nat_of_char)
  then have "unat (of_char c :: byte) = of_char c mod 256"
    by (simp add: unat_of_nat)
  then show "char_of (unat (of_char c :: byte)) = c"
    by (simp only: of_char_mod_256 char_of_char)
qed

lemma bytes_of_inject [simp]: "bytes_of s = bytes_of t \<longleftrightarrow> s = t"
  by (simp add: bytes_of_def inj_map_eq_map inj_of_char_byte)

lemma length_zeros [simp, size_simps]: "length (zeros n) = n"
  by (simp add: zeros_def)

lemma zeros_0 [simp]: "zeros 0 = []"
  by (simp add: zeros_def)

lemma wiped_zeros [simp]: "wiped (zeros n)"
  by (simp add: wiped_def)

lemma wiped_Nil [simp]: "wiped []"
  by (simp add: wiped_def zeros_def)

lemma wiped_iff: "wiped b \<longleftrightarrow> (\<forall>x \<in> set b. x = 0)"
  by (auto simp: wiped_def zeros_def dest: replicate_length_same) (metis in_set_replicate)

lemma zeros_inject [simp]: "zeros m = zeros n \<longleftrightarrow> m = n"
  by (metis length_zeros)

subsection \<open>Words\<close>

lemma byte_unat_less [simp]: "unat (b :: byte) < 256"
  using unsigned_less [of b, where ?'a = nat] by simp

lemma word_eq_of_natI: "unat w = m \<Longrightarrow> w = word_of_nat m"
  by auto

lemma unat_and_127: "unat ((n :: u64) AND 127) = unat n mod 128"
proof -
  have "n AND 127 = n mod 128"
    by (simp add: take_bit_eq_mask mask_eq_exp_minus_1
        flip: take_bit_eq_mod [of 7 n, simplified])
  then show ?thesis by (simp add: unat_mod)
qed

lemma unat_byte_and_127: "unat ((b :: byte) AND 127) = unat b mod 128"
proof -
  have "b AND 127 = b mod 128"
    by (simp add: take_bit_eq_mask mask_eq_exp_minus_1
        flip: take_bit_eq_mod [of 7 b, simplified])
  then show ?thesis by (simp add: unat_mod)
qed

lemma unat_drop_7: "unat (drop_bit 7 (n :: u64)) = unat n div 128"
  unfolding unat_drop_bit_eq by (simp add: drop_bit_eq_div)

lemma byte_high_bit: "(b :: byte) AND 128 = 0 \<longleftrightarrow> unat b < 128"
proof -
  have e: "(128 :: byte) = 2 ^ 7" by simp
  have "(b AND 128 = 0) = (\<not> bit b 7)"
    unfolding e by (simp only: and_exp_eq_0_iff_not_bit)
  also have "bit b 7 = bit (unat b) 7" by (simp add: bit_unsigned_iff)
  also have "\<dots> = odd (unat b div 128)" by (simp only: bit_iff_odd) simp
  also have "\<dots> = (128 \<le> unat b)"
  proof -
    have "unat b - 128 < 128" using byte_unat_less [of b] by linarith
    then show ?thesis by (cases "128 \<le> unat b") (simp_all add: le_div_geq)
  qed
  finally show ?thesis by (simp add: not_le)
qed

lemma unat_set_high_bit: "unat (b :: byte) < 128 \<Longrightarrow> unat (b OR 128) = unat b + 128"
  by (simp add: unat_add_lem [THEN iffD1] flip: disjunctive_add_eq_or [of b 128] byte_high_bit)

end
