(* ===== verification/Errors.thy ===== *)
theory Errors
  imports Prelude
begin

text \<open>
  Go errors as values (\<^verbatim>\<open>src/errors.go\<close>): the package's sentinels, \<^verbatim>\<open>fmt.Errorf\<close> with its
  \<^verbatim>\<open>%w\<close> verbs as a list of literal and wrapped parts, \<^verbatim>\<open>errors.Is\<close> as a search through the
  wrapped parts, and the printed text. A call that returns an error or panics is a value
  \<open>Inl\<close> of \<open>fault + 'a\<close>.
\<close>

datatype sentinel =
    ErrInvalidInput
  | ErrEmptySessionID
  | ErrRandomness
  | ErrMessage
  | ErrStateUsed
  | ErrSessionClosed
  | ErrAbort
  | ErrPeerShareEncoding
  | ErrPeerShareIdentity
  | ErrConfirmationFailed

fun sentinel_text :: "sentinel \<Rightarrow> string" where
  "sentinel_text ErrInvalidInput = ''cpace: invalid input''"
| "sentinel_text ErrEmptySessionID = ''cpace: empty session id''"
| "sentinel_text ErrRandomness = ''cpace: randomness failure''"
| "sentinel_text ErrMessage = ''cpace: invalid message''"
| "sentinel_text ErrStateUsed = ''cpace: state already used''"
| "sentinel_text ErrSessionClosed = ''cpace: session closed''"
| "sentinel_text ErrAbort = ''cpace: protocol abort''"
| "sentinel_text ErrPeerShareEncoding = ''cpace: peer share encoding''"
| "sentinel_text ErrPeerShareIdentity = ''cpace: peer share identity''"
| "sentinel_text ErrConfirmationFailed = ''cpace: key confirmation failed''"

text \<open>
  Errors of the standard library that the package wraps: those of an \<^verbatim>\<open>io.Reader\<close> and the
  length error of \<^verbatim>\<open>crypto/hkdf\<close>.
\<close>

datatype lib_error = EOF | ErrUnexpectedEOF | ReaderError string | HKDFLength

fun lib_text :: "lib_error \<Rightarrow> string" where
  "lib_text EOF = ''EOF''"
| "lib_text ErrUnexpectedEOF = ''unexpected EOF''"
| "lib_text (ReaderError s) = s"
| "lib_text HKDFLength = ''hkdf: requested key length too large''"

datatype go_error =
    Sentinel sentinel
  | LibError lib_error
  | Errorf "err_part list"
and err_part = Lit string | W go_error

fun errors_Is :: "go_error \<Rightarrow> sentinel \<Rightarrow> bool"
and part_Is :: "err_part \<Rightarrow> sentinel \<Rightarrow> bool" where
  "errors_Is (Sentinel s) t \<longleftrightarrow> s = t"
| "errors_Is (LibError e) t \<longleftrightarrow> False"
| "errors_Is (Errorf ps) t \<longleftrightarrow> list_ex (\<lambda>p. part_Is p t) ps"
| "part_Is (Lit s) t \<longleftrightarrow> False"
| "part_Is (W e) t \<longleftrightarrow> errors_Is e t"

fun error_text :: "go_error \<Rightarrow> string"
and part_text :: "err_part \<Rightarrow> string" where
  "error_text (Sentinel s) = sentinel_text s"
| "error_text (LibError e) = lib_text e"
| "error_text (Errorf ps) = concat (map part_text ps)"
| "part_text (Lit s) = s"
| "part_text (W e) = error_text e"

text \<open>\<^verbatim>\<open>fmt.Errorf("%w: ...", sentinel)\<close>, the shape most of the package's errors have.\<close>

abbreviation wrapf :: "sentinel \<Rightarrow> string \<Rightarrow> go_error" where
  "wrapf s msg \<equiv> Errorf [W (Sentinel s), Lit msg]"

text \<open>What ends a call early: an error value handed back to the caller, or a panic.\<close>

datatype fault = Error go_error | Panic string

type_synonym 'a res = "fault + 'a"

definition fault_Is :: "fault \<Rightarrow> sentinel \<Rightarrow> bool" where
  "fault_Is f s = (case f of Error e \<Rightarrow> errors_Is e s | Panic _ \<Rightarrow> False)"

definition panics :: "'a res \<Rightarrow> bool" where
  "panics r = (case r of Inl (Panic _) \<Rightarrow> True | _ \<Rightarrow> False)"

lemma fault_Is_simps [simp, is_simps]:
  "fault_Is (Error e) s = errors_Is e s"
  "fault_Is (Panic m) s = False"
  by (simp_all add: fault_Is_def)

lemma panics_simps [simp]:
  "panics (Inr x) = False"
  "panics (Inl (Error e)) = False"
  "panics (Inl (Panic m)) = True"
  by (simp_all add: panics_def)

lemma wrapf_Is [is_simps]: "errors_Is (wrapf s msg) t \<longleftrightarrow> s = t"
  by simp

end
