(* ===== verification/Length_Value.thy ===== *)
theory Length_Value
  imports Errors
begin

text \<open>
  Length-value encoding (\<^verbatim>\<open>src/length_value.go\<close>): unsigned LEB128 written by
  \<open>appendLEB128\<close> and read back by \<open>readLEB128\<close>, the length-value encoding of one byte string
  and of a list of them, and the length arithmetic used to size buffers.

  \<open>appendLEB128\<close> works on a \<open>64 word\<close> (Go's \<^verbatim>\<open>uint64\<close>); \<open>readLEB128\<close> accumulates into a
  \<open>64 word\<close> read as two's complement (Go's 64-bit \<^verbatim>\<open>int\<close>), so a shift that leaves the width
  and a sum that turns negative are part of the model. Offsets and byte counts are \<open>nat\<close>,
  the arguments of the length functions are \<open>int\<close>. \<open>leb\<close> is the reference encoding the loops
  are compared with.
\<close>

section \<open>Operations\<close>

function appendLEB128 :: "bytes \<Rightarrow> u64 \<Rightarrow> bytes" where
  "appendLEB128 dst n =
     (let b = (ucast (n AND 0x7f) :: byte);
          n' = drop_bit 7 n;
          b' = (if n' \<noteq> 0 then b OR 0x80 else b);
          dst' = dst @ [b']
      in if n' = 0 then dst' else appendLEB128 dst' n')"
  by pat_completeness auto
termination
proof (relation "measure (\<lambda>(dst, n). unat n)", goal_cases)
  case (2 dst n x xa xb xc)
  then have "unat n div 128 \<noteq> 0" by (metis unat_drop_7 unat_eq_0)
  then have "unat n div 128 < unat n" by simp
  with 2 show ?case by (simp add: unat_drop_7 del: div_less_dividend)
qed simp

declare appendLEB128.simps [simp del]

definition appendLengthValue :: "bytes \<Rightarrow> bytes \<Rightarrow> bytes" where
  "appendLengthValue dst data = appendLEB128 dst (word_of_nat (length data)) @ data"

definition prependLen :: "bytes \<Rightarrow> bytes" where
  "prependLen data = appendLengthValue [] data"

function leb128LenInt_loop :: "int \<Rightarrow> int \<Rightarrow> int" where
  "leb128LenInt_loop n out =
     (if n \<ge> 0x80 then leb128LenInt_loop (n div 128) (out + 1) else out)"
  by pat_completeness auto
termination
  by (relation "measure (\<lambda>(n, out). nat n)") auto

declare leb128LenInt_loop.simps [simp del]

definition leb128LenInt :: "int \<Rightarrow> int" where
  "leb128LenInt n = leb128LenInt_loop n 1"

definition lengthValueLen :: "int \<Rightarrow> int" where
  "lengthValueLen n = leb128LenInt n + n"

text \<open>
  The first loop of \<^verbatim>\<open>lvCat\<close> sums the capacity of the buffer, the second fills it.
\<close>

definition lvCat_total :: "bytes list \<Rightarrow> int" where
  "lvCat_total args = foldl (\<lambda>total arg. total + lengthValueLen (int (length arg))) 0 args"

definition lvCat :: "bytes list \<Rightarrow> bytes" where
  "lvCat args = foldl appendLengthValue [] args"

text \<open>
  The loop \<^verbatim>\<open>for i := range maxBytes\<close> of \<^verbatim>\<open>readLEB128\<close>, with \<open>k\<close> iterations left. The result
  is the number and the offset behind it.
\<close>

fun readLEB128_loop :: "bytes \<Rightarrow> nat \<Rightarrow> nat \<Rightarrow> nat \<Rightarrow> u64 \<Rightarrow> (u64 \<times> nat) res" where
  "readLEB128_loop buf off i 0 n = Inl (Error (wrapf ErrMessage '': malformed LEB128''))"
| "readLEB128_loop buf off i (Suc k) n =
     (if off \<ge> length buf then Inl (Error (wrapf ErrMessage '': truncated LEB128''))
      else
        let b = buf ! off;
            off' = off + 1;
            n' = n OR push_bit (7 * i) (ucast (b AND 0x7f))
        in if b AND 0x80 = 0
           then if i > 0 \<and> sint n' < sint (push_bit (7 * i) (1 :: u64))
                then Inl (Error (wrapf ErrMessage '': non-canonical LEB128''))
                else Inr (n', off')
           else readLEB128_loop buf off' (i + 1) k n')"

definition readLEB128 :: "bytes \<Rightarrow> nat \<Rightarrow> nat \<Rightarrow> (u64 \<times> nat) res" where
  "readLEB128 buf off maxBytes = readLEB128_loop buf off 0 maxBytes 0"

text \<open>
  A Go slice has fewer than \<open>2 ^ 63\<close> elements. \<open>readLengthValue\<close> reads one length-value field
  from the front of a byte string with \<open>readLEB128\<close> and returns what is left.
\<close>

definition sliceable :: "bytes \<Rightarrow> bool" where
  "sliceable d \<longleftrightarrow> length d < 2 ^ 63"

definition readLengthValue :: "bytes \<Rightarrow> (bytes \<times> bytes) option" where
  "readLengthValue bs =
     (case readLEB128 bs 0 9 of
        Inl _ \<Rightarrow> None
      | Inr (n, off) \<Rightarrow>
          if unat n \<le> length bs - off then Some (take (unat n) (drop off bs), drop (off + unat n) bs)
          else None)"

text \<open>The reference encoding of a natural number as unsigned LEB128.\<close>

fun leb :: "nat \<Rightarrow> bytes" where
  "leb n = (if n < 128 then [word_of_nat n] else word_of_nat (n mod 128 + 128) # leb (n div 128))"

declare leb.simps [simp del]

section \<open>The encoder\<close>

lemma appendLEB128_eq: "appendLEB128 dst w = dst @ leb (unat w)"
proof (induction dst w rule: appendLEB128.induct)
  case (1 dst n)
  have u: "unat (ucast (n AND 127) :: byte) = unat n mod 128"
    by (simp add: unsigned_ucast_eq take_bit_eq_mod unat_and_127)
  show ?case
  proof (cases "drop_bit 7 n = 0")
    case True
    then have "unat n < 128"
      using unat_drop_7 [of n] by (simp add: div_eq_0_iff)
    moreover from this u have "(ucast (n AND 127) :: byte) = word_of_nat (unat n)"
      by (intro word_eq_of_natI) simp
    ultimately show ?thesis
      using True by (subst appendLEB128.simps, subst leb.simps) simp
  next
    case False
    then have "\<not> unat n < 128"
      using unat_drop_7 [of n] by (metis div_less unat_eq_0)
    moreover have "unat ((ucast (n AND 127) :: byte) OR 128) = unat n mod 128 + 128"
      using u by (simp add: unat_set_high_bit)
    then have "(ucast (n AND 127) :: byte) OR 128 = word_of_nat (unat n mod 128 + 128)"
      by (rule word_eq_of_natI)
    ultimately show ?thesis
      using False "1.IH" unat_drop_7 [of n]
      by (subst appendLEB128.simps, subst leb.simps) (simp add: Let_def)
  qed
qed

lemma leb_nonempty [simp]: "leb n \<noteq> []"
  by (subst leb.simps) simp

section \<open>The decoder\<close>

text \<open>
  Below 63 bits the accumulator of \<open>readLEB128\<close> is an ordinary sum: the or is an addition and
  the signed comparison is that of the numbers.
\<close>

lemma or_shifted:
  assumes "acc < 2 ^ j"
  shows "(word_of_nat acc :: u64) OR push_bit j (word_of_nat v) = word_of_nat (acc + 2 ^ j * v)"
proof -
  have "acc AND push_bit j v = 0"
  proof (rule bit_eqI)
    fix m
    have "bit acc m \<Longrightarrow> m < j"
      using assms by (metis bit_take_bit_iff take_bit_nat_eq_self)
    then show "bit (acc AND push_bit j v) m = bit 0 m"
      by (auto simp: bit_simps)
  qed
  then have "acc OR push_bit j v = acc + 2 ^ j * v"
    by (simp add: push_bit_eq_mult mult.commute flip: disjunctive_add_eq_or)
  then show ?thesis
    by (metis of_nat_or_eq push_bit_of_nat)
qed

lemma sint_word_of_nat: "m < 2 ^ 63 \<Longrightarrow> sint (word_of_nat m :: u64) = int m"
  by (simp add: signed_of_nat signed_take_bit_int_eq_self)

lemma read_step:
  assumes "acc < 2 ^ (7 * i)" and "i \<le> 8" and "off < length buf" and "b = unat (buf ! off)"
  shows "readLEB128_loop buf off i (Suc k) (word_of_nat acc) =
    (let m = acc + 2 ^ (7 * i) * (b mod 128) in
     if b < 128
     then if 0 < i \<and> b = 0 then Inl (Error (wrapf ErrMessage '': non-canonical LEB128''))
          else Inr (word_of_nat m, off + 1)
     else readLEB128_loop buf (off + 1) (i + 1) k (word_of_nat m))"
proof -
  define m where "m = acc + 2 ^ (7 * i) * (b mod 128)"
  have n: "(word_of_nat acc :: u64) OR push_bit (7 * i) (ucast (buf ! off AND 127)) = word_of_nat m"
    unfolding m_def or_shifted [OF assms(1), symmetric]
    by (simp add: assms(4) unat_byte_and_127 [symmetric])
  have "m < 2 ^ (7 * i) + 2 ^ (7 * i) * (b mod 128)"
    using assms(1) by (simp add: m_def)
  also have "\<dots> = 2 ^ (7 * i) * (b mod 128 + 1)" by simp
  also have "\<dots> \<le> 2 ^ (7 * i) * 2 ^ 7"
    by (rule mult_le_mono) (auto simp: Suc_le_eq)
  also have "\<dots> = 2 ^ (7 * i + 7)" by (simp add: power_add)
  also have "\<dots> \<le> 2 ^ 63" using assms(2) by (intro power_increasing) auto
  finally have m63: "m < 2 ^ 63" .
  have "2 ^ (7 * i) < (2 :: nat) ^ 63"
    using assms(2) by (intro power_strict_increasing) auto
  then have "sint (push_bit (7 * i) (1 :: u64)) = int (2 ^ (7 * i))"
    using sint_word_of_nat [of "2 ^ (7 * i)"] by (simp add: push_bit_eq_mult)
  then have cmp: "sint (word_of_nat m :: u64) < sint (push_bit (7 * i) (1 :: u64)) \<longleftrightarrow>
      m < 2 ^ (7 * i)"
    by (simp add: sint_word_of_nat [OF m63])
  have "b < 128 \<Longrightarrow> m < 2 ^ (7 * i) \<longleftrightarrow> b = 0"
    using assms(1) by (cases b) (auto simp: m_def)
  then show ?thesis
    using assms(3) unfolding readLEB128_loop.simps Let_def m_def [symmetric] n cmp byte_high_bit
    by (simp add: assms(4))
qed

lemma read_truncated: "length buf \<le> off \<Longrightarrow>
    \<exists>e. readLEB128_loop buf off i k n = Inl (Error e) \<and> errors_Is e ErrMessage"
  by (cases k) auto

lemma readLEB128_loop_error:
  "readLEB128_loop buf off i k n = Inl f \<Longrightarrow> \<exists>e. f = Error e \<and> errors_Is e ErrMessage"
  by (induction buf off i k n rule: readLEB128_loop.induct) (auto simp: Let_def split: if_splits)

lemma leb_small: "n < 128 \<Longrightarrow> leb n = [word_of_nat n]"
  by (subst leb.simps) simp

lemma leb_big: "128 \<le> n \<Longrightarrow> leb n = word_of_nat (n mod 128 + 128) # leb (n div 128)"
  by (subst leb.simps) simp

lemma readLEB128_loop_leb:
  assumes "acc < 2 ^ (7 * i)" and "i + k \<le> 9" and "v < 2 ^ (7 * k)" and "0 < k" and "0 < i \<longrightarrow> 0 < v"
    and "drop off buf = leb v @ rest"
  shows "readLEB128_loop buf off i k (word_of_nat acc) =
    Inr (word_of_nat (acc + 2 ^ (7 * i) * v), off + length (leb v))"
  using assms
proof (induction k arbitrary: acc i v off)
  case 0
  then show ?case by simp
next
  case (Suc k)
  from Suc.prems(6) have off: "off < length buf"
    by (metis append_is_Nil_conv drop_eq_Nil leb_nonempty not_le)
  then have hd: "drop off buf = buf ! off # drop (Suc off) buf"
    by (simp add: Cons_nth_drop_Suc)
  note step = read_step [OF Suc.prems(1) _ off refl, of k]
  show ?case
  proof (cases "v < 128")
    case True
    then have "unat (buf ! off) = v"
      using Suc.prems(6) hd by (simp add: leb_small unat_of_nat)
    then show ?thesis
      using step Suc.prems(2,5) True by (auto simp: leb_small)
  next
    case False
    then have big: "leb v = word_of_nat (v mod 128 + 128) # leb (v div 128)"
      by (simp add: leb_big)
    have b: "unat (buf ! off) = v mod 128 + 128"
      using Suc.prems(6) hd by (simp add: big unat_of_nat del: of_nat_add)
    have k: "0 < k" using Suc.prems(3) False by (cases k) auto
    have "v div 128 < 2 ^ (7 * k)"
      using Suc.prems(3) by (simp add: less_mult_imp_div_less power_add mult.commute)
    moreover have "acc + 2 ^ (7 * i) * (v mod 128) < 2 ^ (7 * (i + 1))"
    proof -
      have "acc + 2 ^ (7 * i) * (v mod 128) < 2 ^ (7 * i) * (v mod 128 + 1)"
        using Suc.prems(1) by simp
      also have "\<dots> \<le> 2 ^ (7 * i) * 2 ^ 7"
        by (rule mult_le_mono) (auto simp: Suc_le_eq)
      finally show ?thesis by (simp add: power_add)
    qed
    moreover have "drop (off + 1) buf = leb (v div 128) @ rest"
      using Suc.prems(6) hd by (simp add: big)
    ultimately have "readLEB128_loop buf (off + 1) (i + 1) k
        (word_of_nat (acc + 2 ^ (7 * i) * (v mod 128))) =
      Inr (word_of_nat (acc + 2 ^ (7 * i) * (v mod 128) + 2 ^ (7 * (i + 1)) * (v div 128)),
        off + 1 + length (leb (v div 128)))"
      using Suc.prems(2) k False by (intro Suc.IH) auto
    moreover have "2 ^ (7 * i) * (v mod 128) + 2 ^ (7 * (i + 1)) * (v div 128) = 2 ^ (7 * i) * v"
    proof -
      have "2 ^ (7 * i) * v = 2 ^ (7 * i) * (v mod 128 + 128 * (v div 128))"
        by (simp only: mod_mult_div_eq)
      also have "\<dots> = 2 ^ (7 * i) * (v mod 128) + 2 ^ (7 * (i + 1)) * (v div 128)"
        unfolding distrib_left by (simp add: power_add)
      finally show ?thesis by simp
    qed
    ultimately show ?thesis
      using step Suc.prems(2) b by (simp add: big add.assoc Let_def del: of_nat_add of_nat_mult)
  qed
qed

lemma readLEB128_loop_canonical:
  assumes "readLEB128_loop buf off i k (word_of_nat acc) = Inr (n, off')"
    and "acc < 2 ^ (7 * i)" and "i + k \<le> 9"
  shows "\<exists>v. v < 2 ^ (7 * k) \<and> (0 < i \<longrightarrow> 0 < v) \<and> n = word_of_nat (acc + 2 ^ (7 * i) * v) \<and>
    (\<exists>rest. drop off buf = leb v @ rest) \<and> off' = off + length (leb v)"
  using assms
proof (induction k arbitrary: acc i off)
  case 0
  then show ?case by simp
next
  case (Suc k)
  from Suc.prems(1) have off: "off < length buf"
    by (auto split: if_splits)
  then have hd: "drop off buf = buf ! off # drop (Suc off) buf"
    by (simp add: Cons_nth_drop_Suc)
  define b where "b = unat (buf ! off)"
  have hd_b: "buf ! off = word_of_nat b" by (simp add: b_def)
  have b256: "b < 256" by (simp add: b_def)
  note step = read_step [OF Suc.prems(2) _ off b_def, of k]
  show ?case
  proof (cases "b < 128")
    case True
    then have "leb b = [buf ! off]" by (simp add: leb_small hd_b)
    moreover from True step Suc.prems have "0 < i \<longrightarrow> 0 < b" "off' = off + 1"
        "n = word_of_nat (acc + 2 ^ (7 * i) * b)"
      by (auto simp: Let_def split: if_splits)
    moreover have "b < 2 ^ (7 * Suc k)"
      using True power_increasing [of 7 "7 * Suc k" "2 :: nat"] by simp
    ultimately show ?thesis using hd by (intro exI [of _ b]) simp
  next
    case False
    have "acc + 2 ^ (7 * i) * (b mod 128) < 2 ^ (7 * i) * (b mod 128 + 1)"
      using Suc.prems(2) by simp
    also have "\<dots> \<le> 2 ^ (7 * i) * 2 ^ 7"
      by (rule mult_le_mono) (auto simp: Suc_le_eq)
    finally have acc: "acc + 2 ^ (7 * i) * (b mod 128) < 2 ^ (7 * (i + 1))"
      by (simp add: power_add)
    from step Suc.prems False
    have "readLEB128_loop buf (off + 1) (i + 1) k (word_of_nat (acc + 2 ^ (7 * i) * (b mod 128))) =
        Inr (n, off')"
      by (simp add: Let_def)
    from Suc.IH [OF this acc] Suc.prems(3) obtain v rest where v: "v < 2 ^ (7 * k)" "0 < v"
        "n = word_of_nat (acc + 2 ^ (7 * i) * (b mod 128) + 2 ^ (7 * (i + 1)) * v)"
        "drop (off + 1) buf = leb v @ rest" "off' = off + 1 + length (leb v)"
      by auto
    define w where "w = b mod 128 + 128 * v"
    have "b mod 128 + 128 = b" using False b256 le_mod_geq [of 128 b] by simp
    then have "128 \<le> w" "w mod 128 + 128 = b" "w div 128 = v"
      using v(2) by (auto simp: w_def)
    then have "leb w = buf ! off # leb v"
      by (simp add: leb_big hd_b del: of_nat_add)
    moreover have "n = word_of_nat (acc + 2 ^ (7 * i) * w)"
      using v(3) by (simp add: w_def power_add algebra_simps)
    moreover have "w < 2 ^ (7 * Suc k)"
    proof -
      have "w < 128 * (v + 1)" by (simp add: w_def)
      also have "\<dots> \<le> 128 * 2 ^ (7 * k)" using v(1) by (intro mult_le_mono) auto
      finally show ?thesis by (simp add: power_add)
    qed
    ultimately show ?thesis
      using v \<open>128 \<le> w\<close> hd by (intro exI [of _ w]) simp
  qed
qed

text \<open>The two directions at the entry point.\<close>

lemma readLEB128_leb:
  assumes "maxBytes \<le> 9" and "0 < maxBytes" and "v < 2 ^ (7 * maxBytes)"
    and "drop off buf = leb v @ rest"
  shows "readLEB128 buf off maxBytes = Inr (word_of_nat v, off + length (leb v))"
  using readLEB128_loop_leb [of 0 0 maxBytes v off buf rest] assms by (simp add: readLEB128_def)

lemma readLEB128_canonical:
  assumes "readLEB128 buf off maxBytes = Inr (n, off')" and "maxBytes \<le> 9"
  obtains v rest where "v < 2 ^ (7 * maxBytes)" "n = word_of_nat v"
    "drop off buf = leb v @ rest" "off' = off + length (leb v)"
  using readLEB128_loop_canonical [of buf off 0 maxBytes 0 n off'] assms
  by (auto simp: readLEB128_def)

lemma readLEB128_error:
  "readLEB128 buf off maxBytes = Inl f \<Longrightarrow> \<exists>e. f = Error e \<and> errors_Is e ErrMessage"
  unfolding readLEB128_def by (rule readLEB128_loop_error)

section \<open>Sizes\<close>

lemma leb128LenInt_loop_eq: "leb128LenInt_loop (int n) out = out + int (length (leb n)) - 1"
proof (induction n arbitrary: out rule: leb.induct)
  case (1 n)
  show ?case
  proof (cases "n < 128")
    case True
    then show ?thesis by (subst leb128LenInt_loop.simps) (simp add: leb_small)
  next
    case False
    then have "int n div 128 = int (n div 128)" by simp
    with False "1.IH" [of "out + 1"] show ?thesis
      by (subst leb128LenInt_loop.simps) (simp add: leb_big)
  qed
qed

lemma leb128LenInt_eq [size_simps]: "leb128LenInt (int n) = int (length (leb n))"
  by (simp add: leb128LenInt_def leb128LenInt_loop_eq)

lemma appendLengthValue_eq: "appendLengthValue dst data = dst @ prependLen data"
  by (simp add: appendLengthValue_def prependLen_def appendLEB128_eq)

lemma prependLen_eq: "sliceable data \<Longrightarrow> prependLen data = leb (length data) @ data"
  by (simp add: prependLen_def appendLengthValue_def appendLEB128_eq unat_of_nat sliceable_def)

lemma prependLen_nonempty [simp]: "prependLen data \<noteq> []"
  by (simp add: prependLen_def appendLengthValue_def appendLEB128_eq)

lemma lvCat_eq: "lvCat args = concat (map prependLen args)"
proof -
  have "foldl appendLengthValue dst args = dst @ concat (map prependLen args)" for dst
    by (induction args arbitrary: dst) (simp_all add: appendLengthValue_eq)
  then show ?thesis by (simp add: lvCat_def)
qed

lemma lengthValueLen_prependLen:
  "sliceable data \<Longrightarrow> lengthValueLen (int (length data)) = int (length (prependLen data))"
  by (simp add: lengthValueLen_def leb128LenInt_eq prependLen_eq)

lemma length_leb_le: "0 < k \<Longrightarrow> n < 2 ^ (7 * k) \<Longrightarrow> length (leb n) \<le> k"
proof (induction k arbitrary: n)
  case 0
  then show ?case by simp
next
  case (Suc k)
  show ?case
  proof (cases "n < 128")
    case True
    then show ?thesis by (simp add: leb_small)
  next
    case False
    then have "0 < k" using Suc.prems(2) by (cases k) auto
    moreover have "n div 128 < 2 ^ (7 * k)"
      using Suc.prems(2) by (simp add: less_mult_imp_div_less power_add mult.commute)
    ultimately show ?thesis using Suc.IH False by (simp add: leb_big)
  qed
qed

section \<open>Self-delimiting encodings\<close>

text \<open>
  What the rest of the package relies on when it concatenates encoded fields: an encoding
  that a decoder reads back from the front of any byte string, whatever follows.
\<close>

locale self_delimiting =
  fixes enc :: "'a \<Rightarrow> 'b list"
    and dec :: "'b list \<Rightarrow> ('a \<times> 'b list) option"
    and ok :: "'a \<Rightarrow> bool"
  assumes dec_enc: "ok x \<Longrightarrow> dec (enc x @ rest) = Some (x, rest)"
    and enc_nonempty: "enc x \<noteq> []"
begin

lemma enc_prefix_free:
  assumes "ok x" and "ok y" and "enc x @ r = enc y @ s"
  shows "x = y \<and> r = s"
proof -
  have "Some (x, r) = dec (enc x @ r)" by (simp only: dec_enc [OF assms(1)])
  also have "\<dots> = Some (y, s)" by (simp only: assms(3) dec_enc [OF assms(2)])
  finally show ?thesis by simp
qed

lemma sequence_inject:
  "list_all ok xs \<Longrightarrow> list_all ok ys \<Longrightarrow> concat (map enc xs) = concat (map enc ys) \<Longrightarrow> xs = ys"
proof (induction xs arbitrary: ys)
  case Nil
  then show ?case by (cases ys) (auto simp: enc_nonempty)
next
  case (Cons x xs)
  have "concat (map enc ys) \<noteq> []"
    unfolding Cons.prems(3) [symmetric] by (simp add: enc_nonempty)
  then obtain y ys' where ys: "ys = y # ys'"
    by (cases ys) auto
  then have "enc x @ concat (map enc xs) = enc y @ concat (map enc ys')"
    using Cons.prems(3) by simp
  then have "x = y \<and> concat (map enc xs) = concat (map enc ys')"
    using Cons.prems(1,2) ys by (intro enc_prefix_free) auto
  then show ?case
    using Cons.IH [of ys'] Cons.prems(1,2) ys by auto
qed

lemma sequence_prefix_free:
  "list_all ok xs \<Longrightarrow> list_all ok ys \<Longrightarrow> length xs = length ys \<Longrightarrow>
    concat (map enc xs) @ r = concat (map enc ys) @ s \<Longrightarrow> xs = ys \<and> r = s"
proof (induction xs arbitrary: ys)
  case Nil
  then show ?case by simp
next
  case (Cons x xs)
  then obtain y ys' where ys: "ys = y # ys'" and "length xs = length ys'"
    by (cases ys) auto
  moreover have "enc x @ concat (map enc xs) @ r = enc y @ concat (map enc ys') @ s"
    using Cons.prems(4) ys by simp
  then have "x = y \<and> concat (map enc xs) @ r = concat (map enc ys') @ s"
    using Cons.prems(1,2) ys by (intro enc_prefix_free) auto
  ultimately show ?case
    using Cons.IH [of ys'] Cons.prems(1,2) by auto
qed

end

lemma readLengthValue_prependLen:
  assumes "sliceable data"
  shows "readLengthValue (prependLen data @ rest) = Some (data, rest)"
proof -
  have "readLEB128 (leb (length data) @ data @ rest) 0 9 =
      Inr (word_of_nat (length data), 0 + length (leb (length data)))"
    using assms by (intro readLEB128_leb) (simp_all add: sliceable_def)
  with assms show ?thesis
    by (simp add: readLengthValue_def prependLen_eq unat_of_nat sliceable_def)
qed

interpretation lv: self_delimiting prependLen readLengthValue sliceable
  by unfold_locales (simp_all add: readLengthValue_prependLen)

lemma lvCat_inject:
  assumes "list_all sliceable xs" and "list_all sliceable ys" and "lvCat xs = lvCat ys"
  shows "xs = ys"
  using lv.sequence_inject assms by (simp add: lvCat_eq)

lemma lvCat_prefix_free:
  assumes "list_all sliceable xs" and "list_all sliceable ys" and "length xs = length ys"
    and "lvCat xs @ r = lvCat ys @ s"
  shows "xs = ys \<and> r = s"
  using lv.sequence_prefix_free [OF assms(1-3)] assms(4) by (simp add: lvCat_eq)

lemma lvCat_append: "lvCat (xs @ ys) = lvCat xs @ lvCat ys"
  by (simp add: lvCat_eq)

section \<open>Properties\<close>

text \<open>
  C39: \<open>readLEB128\<close> accepts exactly the canonical encodings. With at most nine bytes allowed (so
  that the accumulator cannot leave the 64-bit \<open>int\<close>), it returns a number and an offset if and
  only if the bytes at the given offset start with what \<open>appendLEB128\<close> writes for that number and
  the number fits the allowed bytes: a round trip, and no padded or truncated encoding passes.
\<close>

theorem readLEB128_exact:
  assumes "maxBytes \<le> 9"
  shows "readLEB128 buf off maxBytes = Inr (n, off') \<longleftrightarrow>
    0 < maxBytes \<and> unat n < 2 ^ (7 * maxBytes) \<and>
    (\<exists>rest. drop off buf = appendLEB128 [] n @ rest) \<and> off' = off + length (appendLEB128 [] n)"
  (is "?read \<longleftrightarrow> ?spec")
proof
  assume ?read
  then obtain v rest where v: "v < 2 ^ (7 * maxBytes)" "n = word_of_nat v"
      "drop off buf = leb v @ rest" "off' = off + length (leb v)"
    using readLEB128_canonical assms by blast
  moreover have "(2 :: nat) ^ (7 * maxBytes) \<le> 2 ^ 63"
    using assms by (intro power_increasing) auto
  with v(1) have "unat n = v" by (simp add: v(2) unat_of_nat)
  moreover have "0 < maxBytes"
    using \<open>?read\<close> by (cases maxBytes) (auto simp: readLEB128_def)
  ultimately show ?spec by (simp add: appendLEB128_eq)
next
  assume ?spec
  then show ?read
    using readLEB128_leb [OF assms, of "unat n" off buf] by (auto simp: appendLEB128_eq)
qed

theorem readLEB128_exact_witness:
  "(readLEB128 [9, 172, 2, 7] 1 3 = Inr (300, 3) \<longleftrightarrow>
      (0 :: nat) < 3 \<and> unat (300 :: u64) < 2 ^ (7 * 3) \<and>
      (\<exists>rest. drop 1 [9, 172, 2, 7] = appendLEB128 [] 300 @ rest) \<and>
      3 = 1 + length (appendLEB128 [] 300)) \<and>
   readLEB128 [9, 172, 2, 7] 1 3 = Inr (300, 3)"
proof -
  have "(3 :: nat) \<le> 9" by simp
  moreover have "readLEB128 [9, 172, 2, 7] 1 3 = Inr (300, 3)" by code_simp
  ultimately show ?thesis using readLEB128_exact [of 3] by blast
qed

text \<open>
  C40: \<open>lvCat\<close> is injective: two argument lists with the same concatenation are the same list, also
  when the numbers of arguments differ; and with equal numbers of arguments the concatenation is
  prefix-free, so raw bytes may follow it. The boundaries of the fields of CI, of the generator
  string, of the ISK input and of the exporter's info string rest on this.
\<close>

theorem lvCat_injective:
  assumes "list_all sliceable xs" and "list_all sliceable ys"
  shows "(lvCat xs = lvCat ys \<longleftrightarrow> xs = ys) \<and>
    (length xs = length ys \<longrightarrow> (lvCat xs @ r = lvCat ys @ s \<longleftrightarrow> xs = ys \<and> r = s))"
  using lvCat_inject [OF assms] lvCat_prefix_free [OF assms, of r s] by auto

theorem lvCat_injective_witness:
  "lvCat [[1], [2]] \<noteq> lvCat [[1, 2]] \<and> lvCat [[1], []] @ [2] \<noteq> lvCat [[1], [2]] @ []"
  using lvCat_injective [of "[[1], [2]]" "[[1, 2]]"] lvCat_injective [of "[[1], []]" "[[1], [2]]" "[2]" "[]"]
  by (simp add: sliceable_def)

text \<open>
  The capacity the first loop of \<open>lvCat\<close> computes is the exact length of what the second loop
  appends, so the buffer is never grown and never left partly unused; \<open>lengthValueLen\<close> and
  \<open>leb128LenInt\<close> give the exact encoded sizes.
\<close>

theorem lvCat_capacity_exact:
  assumes "list_all sliceable args"
  shows "lvCat_total args = int (length (lvCat args)) \<and>
    (\<forall>arg \<in> set args. lengthValueLen (int (length arg)) = int (length (prependLen arg)))"
proof -
  have "foldl (\<lambda>total arg. total + lengthValueLen (int (length arg))) t args =
      t + int (length (concat (map prependLen args)))" for t
    using assms by (induction args arbitrary: t) (simp_all add: lengthValueLen_prependLen)
  then show ?thesis
    using assms by (auto simp: lvCat_total_def lvCat_eq lengthValueLen_prependLen list_all_iff)
qed

theorem lvCat_capacity_exact_witness:
  "lvCat_total [[1, 2], zeros 200] = int (length (lvCat [[1, 2], zeros 200])) \<and>
   lengthValueLen 200 = 202"
proof -
  have "list_all sliceable [[1, 2], zeros 200]" by (simp add: sliceable_def)
  moreover have "lengthValueLen 200 = 202" by code_simp
  ultimately show ?thesis using lvCat_capacity_exact [of "[[1, 2], zeros 200]"] by blast
qed

end
