(* ===== verification/Caps.thy ===== *)
theory Caps
  imports Length_Value
begin

text \<open>
  The package-owned cap policy (\<^verbatim>\<open>src/caps.go\<close>, with the sizes of \<^verbatim>\<open>src/crypto.go\<close>): the named
  caps of the caller-input fields and of the wire fields, and the two length checks.
\<close>

definition scalarSize :: nat where "scalarSize = 32"
definition pointSize :: nat where "pointSize = 32"
definition tagSize :: nat where "tagSize = 64"

definition maxPasswordLength :: int where "maxPasswordLength = 4 * 2 ^ 10"
definition maxIDLength :: int where "maxIDLength = 4 * 2 ^ 10"
definition maxContextLength :: int where "maxContextLength = 1 * 2 ^ 10"
definition maxSessionIDLength :: int where "maxSessionIDLength = 1 * 2 ^ 10"
definition maxAssociatedDataLength :: int where "maxAssociatedDataLength = 64 * 2 ^ 10"

record packageCapField =
  cap_name :: string
  cap_length :: int
  cap_exact :: bool

definition cappedPackageCapField :: "string \<Rightarrow> int \<Rightarrow> packageCapField" where
  "cappedPackageCapField name maxLen = \<lparr>cap_name = name, cap_length = maxLen, cap_exact = False\<rparr>"

definition exactPackageCapField :: "string \<Rightarrow> int \<Rightarrow> packageCapField" where
  "exactPackageCapField name wantLen = \<lparr>cap_name = name, cap_length = wantLen, cap_exact = True\<rparr>"

definition validateInputLength :: "packageCapField \<Rightarrow> int \<Rightarrow> unit res" where
  "validateInputLength f n =
     (if n > cap_length f
      then Inl (Error (Errorf [W (Sentinel ErrInvalidInput), Lit '': '', Lit (cap_name f), Lit '' too large'']))
      else Inr ())"

definition validateMessageLength :: "packageCapField \<Rightarrow> int \<Rightarrow> unit res" where
  "validateMessageLength f n =
     (if cap_exact f
      then if n \<noteq> cap_length f
           then Inl (Error (Errorf [W (Sentinel ErrMessage), Lit '': '', Lit (cap_name f), Lit '' length'']))
           else Inr ()
      else if n > cap_length f
           then Inl (Error (Errorf [W (Sentinel ErrMessage), Lit '': '', Lit (cap_name f), Lit '' field too large'']))
           else Inr ())"

definition passwordCap :: packageCapField where
  "passwordCap = cappedPackageCapField ''password'' maxPasswordLength"
definition selfIDCap :: packageCapField where
  "selfIDCap = cappedPackageCapField ''self id'' maxIDLength"
definition peerIDCap :: packageCapField where
  "peerIDCap = cappedPackageCapField ''peer id'' maxIDLength"
definition contextCap :: packageCapField where
  "contextCap = cappedPackageCapField ''context'' maxContextLength"
definition sessionIDCap :: packageCapField where
  "sessionIDCap = cappedPackageCapField ''session id'' maxSessionIDLength"
definition localAssociatedDataCap :: packageCapField where
  "localAssociatedDataCap = cappedPackageCapField ''local associated data'' maxAssociatedDataLength"

definition messageASessionIDCap :: packageCapField where
  "messageASessionIDCap = cappedPackageCapField ''message A session id'' maxSessionIDLength"
definition messageAPointCap :: packageCapField where
  "messageAPointCap = exactPackageCapField ''message A point'' (int pointSize)"
definition messageAAssociatedDataCap :: packageCapField where
  "messageAAssociatedDataCap = cappedPackageCapField ''message A associated data'' maxAssociatedDataLength"
definition messageBPointCap :: packageCapField where
  "messageBPointCap = exactPackageCapField ''message B point'' (int pointSize)"
definition messageBAssociatedDataCap :: packageCapField where
  "messageBAssociatedDataCap = cappedPackageCapField ''message B associated data'' maxAssociatedDataLength"
definition messageBTagCap :: packageCapField where
  "messageBTagCap = exactPackageCapField ''message B tag'' (int tagSize)"
definition messageCTagCap :: packageCapField where
  "messageCTagCap = exactPackageCapField ''message C tag'' (int tagSize)"

definition shippedPackageCapPolicy :: "packageCapField list" where
  "shippedPackageCapPolicy =
     [passwordCap, selfIDCap, peerIDCap, contextCap, sessionIDCap, localAssociatedDataCap,
      messageASessionIDCap, messageAPointCap, messageAAssociatedDataCap,
      messageBPointCap, messageBAssociatedDataCap, messageBTagCap, messageCTagCap]"

text \<open>The lengths a field admits: at most the cap, or exactly it.\<close>

definition within_cap :: "packageCapField \<Rightarrow> bytes \<Rightarrow> bool" where
  "within_cap f b \<longleftrightarrow>
     (if cap_exact f then int (length b) = cap_length f else int (length b) \<le> cap_length f)"

section \<open>What the checks decide\<close>

lemmas cap_defs =
  cappedPackageCapField_def exactPackageCapField_def
  passwordCap_def selfIDCap_def peerIDCap_def contextCap_def sessionIDCap_def
  localAssociatedDataCap_def messageASessionIDCap_def messageAPointCap_def
  messageAAssociatedDataCap_def messageBPointCap_def messageBAssociatedDataCap_def
  messageBTagCap_def messageCTagCap_def
  maxPasswordLength_def maxIDLength_def maxContextLength_def maxSessionIDLength_def
  maxAssociatedDataLength_def scalarSize_def pointSize_def tagSize_def

lemma validateMessageLength_ok:
  "validateMessageLength f (int (length b)) = Inr () \<longleftrightarrow> within_cap f b"
  by (simp add: validateMessageLength_def within_cap_def)

lemma validateMessageLength_error:
  "validateMessageLength f n = Inl e \<Longrightarrow> \<exists>e'. e = Error e' \<and> errors_Is e' ErrMessage"
  by (auto simp: validateMessageLength_def split: if_splits)

lemma validateInputLength_ok [simp]: "validateInputLength f n = Inr () \<longleftrightarrow> n \<le> cap_length f"
  by (simp add: validateInputLength_def)

lemma validateInputLength_error:
  "validateInputLength f n = Inl e \<Longrightarrow> \<exists>e'. e = Error e' \<and> errors_Is e' ErrInvalidInput"
  by (auto simp: validateInputLength_def split: if_splits)

lemma shipped_caps_bounded:
  "f \<in> set shippedPackageCapPolicy \<Longrightarrow> 0 \<le> cap_length f \<and> cap_length f \<le> 65536"
  by (auto simp: shippedPackageCapPolicy_def cap_defs)

lemma shipped_within_cap_small:
  assumes "f \<in> set shippedPackageCapPolicy" and "within_cap f b"
  shows "length b \<le> 65536"
  using shipped_caps_bounded [OF assms(1)] assms(2) by (auto simp: within_cap_def split: if_splits)

end
