(* ===== verification/Go_Memory.thy ===== *)
theory Go_Memory
  imports Errors
begin

text \<open>
  The memory the package works on. Byte arrays live in a list that only grows (an address is an
  index), because what the package promises about secrets is a statement about backing arrays:
  which of them a call may touch, which copies share an array, and which arrays are zero when it
  returns. A \<^verbatim>\<open>[]byte\<close> is \<open>None\<close> (nil) or the address of its array; the package never keeps a
  slice of part of an array (partial slices are cloned at once), so an address is enough.
  \<open>io.Reader\<close> values are pointers to readers; \<^verbatim>\<open>rand.Reader\<close> is reader 0.

  Operations are values of the state monad over this memory; deferred calls run after the rest
  of the body, on every path. Local arrays of fixed size (\<^verbatim>\<open>[64]byte\<close>) are allocated like the
  others, so that their wiping is visible too. \<^verbatim>\<open>append\<close> to a full slice is modelled by a fresh
  array, which leaves the old contents behind.
\<close>

type_synonym addr = nat
type_synonym slice = "addr option"

text \<open>
  A reader delivers the bytes it has pending and then keeps failing with one error.
\<close>

record reader =
  pending :: bytes
  failure :: lib_error

record mem =
  arrs :: "bytes list"
  readers :: "reader list"

definition rand_Reader :: nat where "rand_Reader = 0"

fun contents :: "'z mem_scheme \<Rightarrow> slice \<Rightarrow> bytes" where
  "contents m None = []"
| "contents m (Some a) = arrs m ! a"

fun live :: "'z mem_scheme \<Rightarrow> slice \<Rightarrow> bool" where
  "live m None \<longleftrightarrow> True"
| "live m (Some a) \<longleftrightarrow> a < length (arrs m)"

definition load :: "slice \<Rightarrow> ('z mem_scheme, bytes) state" where
  "load s = State (\<lambda>m. (contents m s, m))"

text \<open>\<^verbatim>\<open>make\<close> followed by filling the new array: the address of a new array with given contents.\<close>

definition alloc :: "bytes \<Rightarrow> ('z mem_scheme, slice) state" where
  "alloc b = State (\<lambda>m. (Some (length (arrs m)), m\<lparr>arrs := arrs m @ [b]\<rparr>))"

definition store :: "slice \<Rightarrow> bytes \<Rightarrow> ('z mem_scheme, unit) state" where
  "store s b = State (\<lambda>m. ((), case s of None \<Rightarrow> m | Some a \<Rightarrow> m\<lparr>arrs := (arrs m)[a := b]\<rparr>))"

text \<open>\<^verbatim>\<open>clone\<close> of \<^verbatim>\<open>src/api.go\<close>: nil stays nil, everything else is copied.\<close>

definition clone :: "slice \<Rightarrow> ('z mem_scheme, slice) state" where
  "clone inp =
     (case inp of
        None \<Rightarrow> State_Monad.return None
      | Some a \<Rightarrow> do { b \<leftarrow> load inp; alloc b })"

text \<open>\<^verbatim>\<open>clearBytes\<close> and \<^verbatim>\<open>clearScalar\<close> of \<^verbatim>\<open>src/crypto.go\<close>.\<close>

definition clearBytes :: "slice \<Rightarrow> ('z mem_scheme, unit) state" where
  "clearBytes s = do { b \<leftarrow> load s; store s (zeros (length b)) }"

definition clearScalar :: "slice \<Rightarrow> ('z mem_scheme, unit) state" where
  "clearScalar s = (if s = None then State_Monad.return () else clearBytes s)"

text \<open>
  \<^verbatim>\<open>io.ReadFull(r, b)\<close>: fills the array of \<open>b\<close>. When the reader fails before the array is full,
  what was read stays in it, and an end of file in the middle is \<^verbatim>\<open>io.ErrUnexpectedEOF\<close>.
\<close>

definition ReadFull :: "nat \<Rightarrow> slice \<Rightarrow> ('z mem_scheme, unit res) state" where
  "ReadFull p s = State (\<lambda>m.
     let r = readers m ! p;
         n = length (contents m s);
         got = take n (pending r);
         m' = m\<lparr>readers := (readers m)[p := r\<lparr>pending := drop n (pending r)\<rparr>]\<rparr>;
         b = got @ zeros (n - length got)
     in (if length got = n then Inr ()
         else Inl (Error (LibError (if failure r = EOF \<and> got \<noteq> [] then ErrUnexpectedEOF else failure r))),
         case s of None \<Rightarrow> m' | Some a \<Rightarrow> m'\<lparr>arrs := (arrs m')[a := b]\<rparr>))"

text \<open>The readers after \<open>n\<close> bytes are taken from reader \<open>p\<close>, and the error when it has fewer.\<close>

definition drain :: "nat \<Rightarrow> nat \<Rightarrow> reader list \<Rightarrow> reader list" where
  "drain n p rs = rs[p := (rs ! p)\<lparr>pending := drop n (pending (rs ! p))\<rparr>]"

definition read_error :: "reader \<Rightarrow> lib_error" where
  "read_error r = (if failure r = EOF \<and> pending r \<noteq> [] then ErrUnexpectedEOF else failure r)"

text \<open>\<^verbatim>\<open>defer f()\<close>: \<open>f\<close> runs when the body has returned, whatever it returned.\<close>

definition deferring :: "('s, unit) state \<Rightarrow> ('s, 'a) state \<Rightarrow> ('s, 'a) state" where
  "deferring cleanup body = do { r \<leftarrow> body; cleanup; State_Monad.return r }"

section \<open>Running the primitives\<close>

lemma run_load [run_simps]: "run_state (load s) m = (contents m s, m)"
  by (simp add: load_def)

lemma run_alloc [run_simps]:
  "run_state (alloc b) m = (Some (length (arrs m)), m\<lparr>arrs := arrs m @ [b]\<rparr>)"
  by (simp add: alloc_def)

lemma run_store [run_simps]:
  "run_state (store s b) m = ((), case s of None \<Rightarrow> m | Some a \<Rightarrow> m\<lparr>arrs := (arrs m)[a := b]\<rparr>)"
  by (simp add: store_def)

definition clear_at :: "slice \<Rightarrow> bytes list \<Rightarrow> bytes list" where
  "clear_at s A = (case s of None \<Rightarrow> A | Some a \<Rightarrow> A[a := zeros (length (A ! a))])"

lemma run_clearBytes [run_simps]:
  "run_state (clearBytes s) m = ((), m\<lparr>arrs := clear_at s (arrs m)\<rparr>)"
  by (cases s) (simp_all add: clearBytes_def run_simps clear_at_def)

lemma run_clearScalar [run_simps]:
  "run_state (clearScalar s) m = ((), m\<lparr>arrs := clear_at s (arrs m)\<rparr>)"
  by (simp add: clearScalar_def run_simps) (simp add: clear_at_def)

lemma run_clone_None [run_simps]: "run_state (clone None) m = (None, m)"
  by (simp add: clone_def)

lemma run_clone_Some [run_simps]:
  "run_state (clone (Some a)) m = (Some (length (arrs m)), m\<lparr>arrs := arrs m @ [arrs m ! a]\<rparr>)"
  by (simp add: clone_def run_simps)

lemma run_deferring [run_simps]:
  "run_state (deferring c b) m = (case run_state b m of (r, m') \<Rightarrow> (r, snd (run_state c m')))"
  by (auto simp: deferring_def split: prod.split)

section \<open>Wiping\<close>

lemma length_clear_at [simp]: "length (clear_at s A) = length A"
  by (simp add: clear_at_def split: option.split)

lemma nth_clear_at: "i < length A \<Longrightarrow>
    clear_at s A ! i = (if s = Some i then zeros (length (A ! i)) else A ! i)"
  by (auto simp: clear_at_def split: option.split)

lemma clear_at_append_left:
  "(\<And>a. s = Some a \<Longrightarrow> a < length A) \<Longrightarrow> clear_at s (A @ B) = clear_at s A @ B"
  by (auto simp: clear_at_def list_update_append nth_append split: option.split)

lemma clear_at_append_right:
  "clear_at (Some (length A + i)) (A @ B) = A @ clear_at (Some i) B"
  by (simp add: clear_at_def list_update_append nth_append)

lemma clear_at_beyond: "length A \<le> a \<Longrightarrow> clear_at (Some a) (A @ B) = A @ clear_at (Some (a - length A)) B"
  by (simp add: clear_at_def list_update_append nth_append)

lemma clear_at_append_right_0 [simp]: "clear_at (Some (length A)) (A @ b # B) = A @ zeros (length b) # B"
  by (simp add: clear_at_def list_update_append nth_append)

lemma clear_at_None [simp]: "clear_at None A = A"
  by (simp add: clear_at_def)

lemma clear_at_Cons [simp]:
  "clear_at (Some 0) (b # B) = zeros (length b) # B"
  "clear_at (Some (Suc i)) (b # B) = b # clear_at (Some i) B"
  "clear_at (Some (numeral k)) (b # B) = b # clear_at (Some (pred_numeral k)) B"
  by (simp_all add: clear_at_def numeral_eq_Suc)

lemma clear_at_wiped: "s = Some a \<Longrightarrow> a < length A \<Longrightarrow> wiped (clear_at s A ! a)"
  by (simp add: nth_clear_at)

lemma clear_at_keeps_wiped: "i < length A \<Longrightarrow> wiped (A ! i) \<Longrightarrow> wiped (clear_at s A ! i)"
  by (simp add: nth_clear_at)

lemma clear_at_clear_at [simp]: "clear_at s (clear_at s A) = clear_at s A"
proof (rule nth_equalityI)
  fix i assume "i < length (clear_at s (clear_at s A))"
  then show "clear_at s (clear_at s A) ! i = clear_at s A ! i"
    by (simp add: nth_clear_at)
qed simp

lemma length_contents_clear: "live m s \<Longrightarrow>
    length (contents (m\<lparr>arrs := clear_at t (arrs m)\<rparr>) s) = length (contents m s)"
  by (cases s) (simp_all add: nth_clear_at)

end
