(* ===== verification/Go_Crypto.thy ===== *)
theory Go_Crypto
  imports Prelude
begin

text \<open>
  What the package uses of Go's cryptographic standard library, as executable functions on byte
  strings: SHA-512 (FIPS 180-4) behind \<^verbatim>\<open>sha512.Sum512\<close> and \<^verbatim>\<open>sha512.New\<close>, HMAC (FIPS 198-1) behind
  \<^verbatim>\<open>hmac.New\<close>, and HKDF (RFC 5869) behind \<^verbatim>\<open>hkdf.Key\<close>. Writing to a hash in several calls is
  hashing the concatenation. \<^verbatim>\<open>hmac.Equal\<close> and \<^verbatim>\<open>bytes.Equal\<close> compare contents.
\<close>

section \<open>SHA-512\<close>

text \<open>The 64-bit constants of the standard, each as its two 32-bit halves.\<close>

definition join32 :: "32 word \<times> 32 word \<Rightarrow> u64" where
  "join32 hl = push_bit 32 (ucast (fst hl)) OR ucast (snd hl)"

definition sha512_K :: "u64 list" where
  "sha512_K = map join32
    [(0x428a2f98, 0xd728ae22), (0x71374491, 0x23ef65cd), (0xb5c0fbcf, 0xec4d3b2f), (0xe9b5dba5, 0x8189dbbc),
     (0x3956c25b, 0xf348b538), (0x59f111f1, 0xb605d019), (0x923f82a4, 0xaf194f9b), (0xab1c5ed5, 0xda6d8118),
     (0xd807aa98, 0xa3030242), (0x12835b01, 0x45706fbe), (0x243185be, 0x4ee4b28c), (0x550c7dc3, 0xd5ffb4e2),
     (0x72be5d74, 0xf27b896f), (0x80deb1fe, 0x3b1696b1), (0x9bdc06a7, 0x25c71235), (0xc19bf174, 0xcf692694),
     (0xe49b69c1, 0x9ef14ad2), (0xefbe4786, 0x384f25e3), (0x0fc19dc6, 0x8b8cd5b5), (0x240ca1cc, 0x77ac9c65),
     (0x2de92c6f, 0x592b0275), (0x4a7484aa, 0x6ea6e483), (0x5cb0a9dc, 0xbd41fbd4), (0x76f988da, 0x831153b5),
     (0x983e5152, 0xee66dfab), (0xa831c66d, 0x2db43210), (0xb00327c8, 0x98fb213f), (0xbf597fc7, 0xbeef0ee4),
     (0xc6e00bf3, 0x3da88fc2), (0xd5a79147, 0x930aa725), (0x06ca6351, 0xe003826f), (0x14292967, 0x0a0e6e70),
     (0x27b70a85, 0x46d22ffc), (0x2e1b2138, 0x5c26c926), (0x4d2c6dfc, 0x5ac42aed), (0x53380d13, 0x9d95b3df),
     (0x650a7354, 0x8baf63de), (0x766a0abb, 0x3c77b2a8), (0x81c2c92e, 0x47edaee6), (0x92722c85, 0x1482353b),
     (0xa2bfe8a1, 0x4cf10364), (0xa81a664b, 0xbc423001), (0xc24b8b70, 0xd0f89791), (0xc76c51a3, 0x0654be30),
     (0xd192e819, 0xd6ef5218), (0xd6990624, 0x5565a910), (0xf40e3585, 0x5771202a), (0x106aa070, 0x32bbd1b8),
     (0x19a4c116, 0xb8d2d0c8), (0x1e376c08, 0x5141ab53), (0x2748774c, 0xdf8eeb99), (0x34b0bcb5, 0xe19b48a8),
     (0x391c0cb3, 0xc5c95a63), (0x4ed8aa4a, 0xe3418acb), (0x5b9cca4f, 0x7763e373), (0x682e6ff3, 0xd6b2b8a3),
     (0x748f82ee, 0x5defb2fc), (0x78a5636f, 0x43172f60), (0x84c87814, 0xa1f0ab72), (0x8cc70208, 0x1a6439ec),
     (0x90befffa, 0x23631e28), (0xa4506ceb, 0xde82bde9), (0xbef9a3f7, 0xb2c67915), (0xc67178f2, 0xe372532b),
     (0xca273ece, 0xea26619c), (0xd186b8c7, 0x21c0c207), (0xeada7dd6, 0xcde0eb1e), (0xf57d4f7f, 0xee6ed178),
     (0x06f067aa, 0x72176fba), (0x0a637dc5, 0xa2c898a6), (0x113f9804, 0xbef90dae), (0x1b710b35, 0x131c471b),
     (0x28db77f5, 0x23047d84), (0x32caab7b, 0x40c72493), (0x3c9ebe0a, 0x15c9bebc), (0x431d67c4, 0x9c100d4c),
     (0x4cc5d4be, 0xcb3e42b6), (0x597f299c, 0xfc657e2a), (0x5fcb6fab, 0x3ad6faec), (0x6c44198c, 0x4a475817)]"

definition sha512_H0 :: "u64 list" where
  "sha512_H0 = map join32
    [(0x6a09e667, 0xf3bcc908), (0xbb67ae85, 0x84caa73b), (0x3c6ef372, 0xfe94f82b), (0xa54ff53a, 0x5f1d36f1),
     (0x510e527f, 0xade682d1), (0x9b05688c, 0x2b3e6c1f), (0x1f83d9ab, 0xfb41bd6b), (0x5be0cd19, 0x137e2179)]"

definition rotr :: "nat \<Rightarrow> u64 \<Rightarrow> u64" where
  "rotr n x = drop_bit n x OR push_bit (64 - n) x"

definition Ch :: "u64 \<Rightarrow> u64 \<Rightarrow> u64 \<Rightarrow> u64" where
  "Ch x y z = (x AND y) XOR (NOT x AND z)"

definition Maj :: "u64 \<Rightarrow> u64 \<Rightarrow> u64 \<Rightarrow> u64" where
  "Maj x y z = (x AND y) XOR (x AND z) XOR (y AND z)"

definition Sigma0 :: "u64 \<Rightarrow> u64" where
  "Sigma0 x = rotr 28 x XOR rotr 34 x XOR rotr 39 x"

definition Sigma1 :: "u64 \<Rightarrow> u64" where
  "Sigma1 x = rotr 14 x XOR rotr 18 x XOR rotr 41 x"

definition sigma0 :: "u64 \<Rightarrow> u64" where
  "sigma0 x = rotr 1 x XOR rotr 8 x XOR drop_bit 7 x"

definition sigma1 :: "u64 \<Rightarrow> u64" where
  "sigma1 x = rotr 19 x XOR rotr 61 x XOR drop_bit 6 x"

text \<open>Big-endian words and their bytes.\<close>

definition be_word :: "bytes \<Rightarrow> u64" where
  "be_word bs = foldl (\<lambda>w b. push_bit 8 w OR ucast b) 0 bs"

definition be_bytes :: "u64 \<Rightarrow> bytes" where
  "be_bytes w = map (\<lambda>i. ucast (drop_bit i w)) [56, 48, 40, 32, 24, 16, 8, 0]"

fun chunks :: "nat \<Rightarrow> 'a list \<Rightarrow> 'a list list" where
  "chunks n [] = []"
| "chunks n (x # xs) = (if n = 0 then [] else take n (x # xs) # chunks n (drop n (x # xs)))"

text \<open>The bit length is a 64-bit number in Go too; its upper eight bytes are always zero.\<close>

definition sha512_pad :: "bytes \<Rightarrow> bytes" where
  "sha512_pad msg =
     msg @ [0x80] @ zeros ((239 - length msg mod 128) mod 128) @ zeros 8 @
       be_bytes (push_bit 3 (word_of_nat (length msg)))"

text \<open>The message schedule is extended one word at a time from the sixteen last ones.\<close>

fun sha512_schedule :: "nat \<Rightarrow> u64 list \<Rightarrow> u64 list" where
  "sha512_schedule 0 ws = ws"
| "sha512_schedule (Suc k) ws =
     (let t = length ws
      in sha512_schedule k
           (ws @ [sigma1 (ws ! (t - 2)) + ws ! (t - 7) + sigma0 (ws ! (t - 15)) + ws ! (t - 16)]))"

type_synonym sha512_state = "u64 \<times> u64 \<times> u64 \<times> u64 \<times> u64 \<times> u64 \<times> u64 \<times> u64"

definition sha512_round :: "sha512_state \<Rightarrow> u64 \<times> u64 \<Rightarrow> sha512_state" where
  "sha512_round st kw =
     (case (st, kw) of ((a, b, c, d, e, f, g, h), (k, w)) \<Rightarrow>
        let t1 = h + Sigma1 e + Ch e f g + k + w;
            t2 = Sigma0 a + Maj a b c
        in (t1 + t2, a, b, c, d + t1, e, f, g))"

definition sha512_block :: "u64 list \<Rightarrow> bytes \<Rightarrow> u64 list" where
  "sha512_block H block =
     (let W = sha512_schedule 64 (map be_word (chunks 8 block))
      in case foldl sha512_round (H ! 0, H ! 1, H ! 2, H ! 3, H ! 4, H ! 5, H ! 6, H ! 7)
                (zip sha512_K W) of
           (a, b, c, d, e, f, g, h) \<Rightarrow>
             [H ! 0 + a, H ! 1 + b, H ! 2 + c, H ! 3 + d, H ! 4 + e, H ! 5 + f, H ! 6 + g, H ! 7 + h])"

definition sha512 :: "bytes \<Rightarrow> bytes" where
  "sha512 msg =
     concat (map be_bytes (foldl sha512_block sha512_H0 (chunks 128 (sha512_pad msg))))"

section \<open>HMAC and HKDF\<close>

definition sha512BlockSize :: nat where "sha512BlockSize = 128"
definition sha512Size :: nat where "sha512Size = 64"

definition hmac_key :: "bytes \<Rightarrow> bytes" where
  "hmac_key key =
     (let k = (if length key > sha512BlockSize then sha512 key else key)
      in k @ zeros (sha512BlockSize - length k))"

definition hmac_sha512 :: "bytes \<Rightarrow> bytes \<Rightarrow> bytes" where
  "hmac_sha512 key msg =
     sha512 (map (\<lambda>b. b XOR 0x5c) (hmac_key key) @ sha512 (map (\<lambda>b. b XOR 0x36) (hmac_key key) @ msg))"

definition hkdf_extract :: "bytes \<Rightarrow> bytes \<Rightarrow> bytes" where
  "hkdf_extract secret salt =
     hmac_sha512 (if salt = [] then zeros sha512Size else salt) secret"

text \<open>\<open>T(i) = HMAC(prk, T(i-1) | info | i)\<close>, \<open>k\<close> blocks from counter \<open>i\<close> on.\<close>

fun hkdf_blocks :: "bytes \<Rightarrow> bytes \<Rightarrow> bytes \<Rightarrow> nat \<Rightarrow> nat \<Rightarrow> bytes" where
  "hkdf_blocks prk info prev i 0 = []"
| "hkdf_blocks prk info prev i (Suc k) =
     (let t = hmac_sha512 prk (prev @ info @ [word_of_nat i])
      in t @ hkdf_blocks prk info t (i + 1) k)"

definition hkdf_expand :: "bytes \<Rightarrow> bytes \<Rightarrow> nat \<Rightarrow> bytes" where
  "hkdf_expand prk info n = take n (hkdf_blocks prk info [] 1 ((n + sha512Size - 1) div sha512Size))"

definition bytes_Equal :: "bytes \<Rightarrow> bytes \<Rightarrow> bool" where
  "bytes_Equal a b \<longleftrightarrow> a = b"

definition hmac_Equal :: "bytes \<Rightarrow> bytes \<Rightarrow> bool" where
  "hmac_Equal a b \<longleftrightarrow> a = b"

section \<open>Output lengths\<close>

lemma length_be_bytes [simp]: "length (be_bytes w) = 8"
  by (simp add: be_bytes_def)

lemma length_sha512_block [simp]: "length (sha512_block H b) = 8"
  by (simp add: sha512_block_def Let_def split: prod.split)

lemma length_sha512_H0 [simp]: "length sha512_H0 = 8"
  by (simp add: sha512_H0_def)

lemma length_sha512 [simp, size_simps]: "length (sha512 msg) = 64"
proof -
  have "length (foldl sha512_block H bs) = 8" if "length H = 8" for H bs
    using that by (induction bs arbitrary: H) simp_all
  then show ?thesis
    by (simp add: sha512_def length_concat comp_def sum_list_triv)
qed

lemma length_hmac_sha512 [simp, size_simps]: "length (hmac_sha512 key msg) = 64"
  by (simp add: hmac_sha512_def)

lemma length_hkdf_blocks [simp]: "length (hkdf_blocks prk info prev i k) = 64 * k"
  by (induction k arbitrary: prev i) (simp_all add: Let_def)

lemma length_hkdf_expand [simp, size_simps]: "length (hkdf_expand prk info n) = n"
proof -
  have "n \<le> 64 * ((n + 63) div 64)"
    using mult_div_mod_eq [of 64 "n + 63"] mod_less_divisor [of 64 "n + 63"] by linarith
  then show ?thesis by (simp add: hkdf_expand_def sha512Size_def)
qed

end
