(* ===== verification/Field_Package.thy ===== *)
theory Field_Package
  imports Prelude
begin

text \<open>
  The third-party package \<^verbatim>\<open>filippo.io/edwards25519/field\<close> that \<^verbatim>\<open>src/crypto.go\<close> computes with. Its
  code is not part of the repository, so its operations are a parameter \<open>F\<close> of every definition
  that uses them, a record of functions on an abstract type of elements. The locale
  \<open>field_package\<close> states what the package documents: an element has a value below
  \<open>p = 2 ^ 255 - 19\<close>, and each operation computes that of the field on values. \<open>int_field\<close> is an
  implementation on integers that satisfies it.
\<close>

record 'e field_ops =
  fe_Zero :: 'e  \<comment> \<open>the zero value of \<open>field.Element\<close>\<close>
  fe_One :: 'e
  fe_SetBytes :: "bytes \<Rightarrow> 'e option"
  fe_Bytes :: "'e \<Rightarrow> bytes"
  fe_Add :: "'e \<Rightarrow> 'e \<Rightarrow> 'e"
  fe_Subtract :: "'e \<Rightarrow> 'e \<Rightarrow> 'e"
  fe_Multiply :: "'e \<Rightarrow> 'e \<Rightarrow> 'e"
  fe_Square :: "'e \<Rightarrow> 'e"
  fe_Negate :: "'e \<Rightarrow> 'e"
  fe_Invert :: "'e \<Rightarrow> 'e"
  fe_Mult32 :: "'e \<Rightarrow> 32 word \<Rightarrow> 'e"
  fe_SqrtRatio :: "'e \<Rightarrow> 'e \<Rightarrow> 'e \<times> int"
  fe_Select :: "'e \<Rightarrow> 'e \<Rightarrow> int \<Rightarrow> 'e"
  fe_Swap :: "'e \<Rightarrow> 'e \<Rightarrow> int \<Rightarrow> 'e \<times> 'e"
  fe_Equal :: "'e \<Rightarrow> 'e \<Rightarrow> int"

definition p25519 :: int where "p25519 = 2 ^ 255 - 19"

text \<open>Little-endian integers.\<close>

fun le_int :: "bytes \<Rightarrow> int" where
  "le_int [] = 0"
| "le_int (b # bs) = uint b + 256 * le_int bs"

fun le_bytes :: "nat \<Rightarrow> int \<Rightarrow> bytes" where
  "le_bytes 0 n = []"
| "le_bytes (Suc k) n = word_of_int n # le_bytes k (n div 256)"

text \<open>\<open>b ^ e mod p\<close> by repeated squaring, for evaluation.\<close>

fun pow_mod :: "int \<Rightarrow> nat \<Rightarrow> int" where
  "pow_mod b e =
     (if e = 0 then 1
      else let h = pow_mod ((b * b) mod p25519) (e div 2)
           in if even e then h else (b * h) mod p25519)"

declare pow_mod.simps [simp del]

definition is_square :: "int \<Rightarrow> bool" where
  "is_square u \<longleftrightarrow> (\<exists>s \<in> {0..<p25519}. (s * s) mod p25519 = u mod p25519)"

definition int_field :: "int field_ops" where
  "int_field = \<lparr>
     fe_Zero = 0,
     fe_One = 1,
     fe_SetBytes = (\<lambda>b. if length b = 32 then Some ((le_int b mod 2 ^ 255) mod p25519) else None),
     fe_Bytes = (\<lambda>x. le_bytes 32 (x mod p25519)),
     fe_Add = (\<lambda>a b. (a + b) mod p25519),
     fe_Subtract = (\<lambda>a b. (a - b) mod p25519),
     fe_Multiply = (\<lambda>a b. (a * b) mod p25519),
     fe_Square = (\<lambda>a. (a * a) mod p25519),
     fe_Negate = (\<lambda>a. (- a) mod p25519),
     fe_Invert = (\<lambda>a. pow_mod (a mod p25519) (nat (p25519 - 2))),
     fe_Mult32 = (\<lambda>a y. (a * uint y) mod p25519),
     fe_SqrtRatio = (\<lambda>u v. (0, if is_square (u * pow_mod (v mod p25519) (nat (p25519 - 2))) then 1 else 0)),
     fe_Select = (\<lambda>a b c. if c = 1 then a else b),
     fe_Swap = (\<lambda>a b c. if c = 1 then (b, a) else (a, b)),
     fe_Equal = (\<lambda>a b. if a mod p25519 = b mod p25519 then 1 else 0)\<rparr>"

text \<open>
  What the protocol code needs of the package, whatever the field computes: a 32-byte string is
  always accepted, any other is refused, and an element is written as 32 bytes.
\<close>

locale field_lengths =
  fixes F :: "'e field_ops"
  assumes SetBytes_ok: "length b = 32 \<Longrightarrow> \<exists>x. fe_SetBytes F b = Some x"
    and SetBytes_bad: "length b \<noteq> 32 \<Longrightarrow> fe_SetBytes F b = None"
    and Bytes_length: "length (fe_Bytes F x) = 32"

text \<open>The documented arithmetic.\<close>

locale field_package = field_lengths F for F :: "'e field_ops" +
  fixes val :: "'e \<Rightarrow> int"
  assumes val_range: "0 \<le> val x \<and> val x < p25519"
    and val_Zero: "val (fe_Zero F) = 0"
    and val_One: "val (fe_One F) = 1"
    and SetBytes_val: "fe_SetBytes F b = Some x \<Longrightarrow> val x = (le_int b mod 2 ^ 255) mod p25519"
    and Bytes_val: "fe_Bytes F x = le_bytes 32 (val x)"
    and val_Add: "val (fe_Add F x y) = (val x + val y) mod p25519"
    and val_Subtract: "val (fe_Subtract F x y) = (val x - val y) mod p25519"
    and val_Multiply: "val (fe_Multiply F x y) = (val x * val y) mod p25519"
    and val_Square: "val (fe_Square F x) = (val x * val x) mod p25519"
    and val_Negate: "val (fe_Negate F x) = (- val x) mod p25519"
    and val_Invert: "val (fe_Invert F x) = val x ^ nat (p25519 - 2) mod p25519"
    and val_Mult32: "val (fe_Mult32 F x c) = (val x * uint c) mod p25519"
    and SqrtRatio_flag: "val v = 1 \<Longrightarrow>
      snd (fe_SqrtRatio F u v) = (if is_square (val u) then 1 else 0)"
    and Select_1: "fe_Select F x y 1 = x"
    and Select_0: "fe_Select F x y 0 = y"
    and Swap_1: "fe_Swap F x y 1 = (y, x)"
    and Swap_0: "fe_Swap F x y 0 = (x, y)"
    and Equal_val: "fe_Equal F x y = (if val x = val y then 1 else 0)"
begin

lemmas val_simps =
  val_Zero val_One val_Add val_Subtract val_Multiply val_Square val_Negate val_Mult32

lemma val_mod [simp]: "val x mod p25519 = val x"
  using val_range by simp

lemma Invert_zero: "val x = 0 \<Longrightarrow> val (fe_Invert F x) = 0"
proof -
  have "0 < nat (p25519 - 2)" by (simp add: p25519_def)
  then show "val x = 0 \<Longrightarrow> val (fe_Invert F x) = 0" by (simp only: val_Invert zero_power mod_0)
qed

end

section \<open>Little-endian round trips\<close>

lemma length_le_bytes [simp, size_simps]: "length (le_bytes k n) = k"
  by (induction k arbitrary: n) simp_all

lemma le_int_nonneg: "0 \<le> le_int bs"
  by (induction bs) simp_all

lemma le_int_less: "le_int bs < 256 ^ length bs"
proof (induction bs)
  case Nil
  then show ?case by simp
next
  case (Cons b bs)
  have "uint b < 256" using uint_lt2p [of b] by simp
  with Cons show ?case by simp
qed

lemma le_int_le_bytes: "le_int (le_bytes k n) = n mod 256 ^ k"
proof (induction k arbitrary: n)
  case 0
  then show ?case by simp
next
  case (Suc k)
  have "n mod 256 ^ Suc k = 256 * (n div 256 mod 256 ^ k) + n mod 256"
    using mod_mult2_eq' [of n 256 "256 ^ k"] by (simp add: zmod_zmult2_eq)
  then show ?case by (simp add: Suc uint_word_of_int)
qed

lemma le_bytes_le_int: "le_bytes (length bs) (le_int bs) = bs"
proof (induction bs)
  case Nil
  then show ?case by simp
next
  case (Cons b bs)
  have "uint b < 256" using uint_lt2p [of b] by simp
  then have "(uint b + 256 * le_int bs) div 256 = le_int bs" by simp
  moreover have "(word_of_int (uint b + 256 * le_int bs) :: byte) = b"
    by (simp add: word_uint_eq_iff uint_word_of_int \<open>uint b < 256\<close> flip: of_int_add of_int_mult)
  ultimately show ?case using Cons by simp
qed

lemma le_bytes_eq_zeros: "0 \<le> n \<Longrightarrow> n < 256 ^ k \<Longrightarrow> le_bytes k n = zeros k \<longleftrightarrow> n = 0"
proof
  assume n: "0 \<le> n" "n < 256 ^ k" and "le_bytes k n = zeros k"
  then have "n mod 256 ^ k = le_int (zeros k)"
    using le_int_le_bytes [of k n] by simp
  moreover have "le_int (zeros k) = 0"
    unfolding zeros_def by (induction k) simp_all
  ultimately show "n = 0" using n by simp
next
  show "n = 0 \<Longrightarrow> le_bytes k n = zeros k"
    by (induction k arbitrary: n) (simp_all add: zeros_def)
qed

section \<open>The integer implementation\<close>

lemma p25519_gt: "19 < p25519" and p25519_pos [simp]: "0 < p25519" "p25519 \<noteq> 0"
  by (simp_all add: p25519_def)

lemma p25519_less: "p25519 < 256 ^ 32"
  by (simp add: p25519_def)

lemma pow_mod_eq: "pow_mod b e = b ^ e mod p25519"
proof (induction b e rule: pow_mod.induct)
  case (1 b e)
  show ?case
  proof (cases "e = 0")
    case True
    then show ?thesis using p25519_gt by (subst pow_mod.simps) simp
  next
    case False
    have "(b * b) ^ (e div 2) = b ^ (2 * (e div 2))"
      by (simp add: power_mult power2_eq_square)
    then have h: "pow_mod ((b * b) mod p25519) (e div 2) = b ^ (2 * (e div 2)) mod p25519"
      using "1.IH" False by (simp add: power_mod)
    show ?thesis
    proof (cases "even e")
      case True
      then show ?thesis using False h by (subst pow_mod.simps) (simp add: Let_def)
    next
      case odd: False
      then have "b ^ e = b * b ^ (2 * (e div 2))"
        by (metis odd_two_times_div_two_succ power_Suc Suc_eq_plus1)
      then show ?thesis
        using False odd h by (subst pow_mod.simps) (simp add: Let_def mod_mult_right_eq)
    qed
  qed
qed

interpretation int_fe: field_package int_field "\<lambda>x. x mod p25519"
proof (unfold_locales, goal_cases)
  case (16 v u)
  then have "pow_mod (v mod p25519) (nat (p25519 - 2)) = 1"
    using p25519_gt by (simp add: pow_mod_eq)
  then show ?case by (simp add: int_field_def is_square_def)
qed (use p25519_gt in \<open>auto simp: int_field_def pow_mod_eq power_mod mod_simps split: if_splits\<close>)

end
