(* ===== verification/Crypto.thy ===== *)
theory Crypto
  imports Caps Go_Memory Go_Crypto Field_Package
begin

text \<open>
  \<^verbatim>\<open>src/crypto.go\<close>: the generator string, the Elligator 2 map, the X25519 ladder, scalar sampling,
  the ISK and the confirmation tag. The field package is the parameter \<open>F\<close>. Functions that
  allocate and wipe buffers are operations on the memory; what they compute is stated by the
  pure functions \<open>elligator2Curve25519\<close>, \<open>x25519\<close>, \<open>isk_bytes\<close> and \<open>tag_bytes\<close> below.
\<close>

definition dsiX25519 :: string where "dsiX25519 = ''CPace255''"
definition dsiISK :: string where "dsiISK = ''CPace255_ISK''"
definition identityEncoding :: bytes where "identityEncoding = zeros pointSize"

definition generatorString :: "bytes \<Rightarrow> bytes \<Rightarrow> bytes \<Rightarrow> bytes \<Rightarrow> int \<Rightarrow> bytes" where
  "generatorString dsi prs ci sid sInBytes =
     (let rawZPADLen = sInBytes - lengthValueLen (int (length prs)) - lengthValueLen (int (length dsi)) - 1;
          zpadLen = max rawZPADLen 0
      in lvCat [dsi, prs, zeros (nat zpadLen), ci, sid])"

section \<open>The Elligator 2 map\<close>

definition setFieldElementUint64 :: "'e field_ops \<Rightarrow> u64 \<Rightarrow> 'e res" where
  "setFieldElementUint64 F n =
     (case fe_SetBytes F (le_bytes 8 (uint n) @ zeros (pointSize - 8)) of
        None \<Rightarrow> Inl (Panic ''cpace: invalid field constant'')
      | Some v \<Rightarrow> Inr v)"

text \<open>The body of \<^verbatim>\<open>elligator2Curve25519\<close> after its constants are set.\<close>

definition elligator2_body :: "'e field_ops \<Rightarrow> 'e \<Rightarrow> 'e \<Rightarrow> 'e \<Rightarrow> 'e \<Rightarrow> 'e" where
  "elligator2_body F r two a halfA =
     (let one = fe_One F;
          r2 = fe_Square F r;
          denominator = fe_Multiply F two r2;
          denominator = fe_Add F denominator one;
          v = fe_Invert F denominator;
          v = fe_Multiply F v a;
          v = fe_Negate F v;
          v2 = fe_Square F v;
          v3 = fe_Multiply F v2 v;
          av2 = fe_Multiply F a v2;
          rhs = fe_Add F v3 av2;
          rhs = fe_Add F rhs v;
          wasSquare = snd (fe_SqrtRatio F rhs one);
          squareX = v;
          nonSquareX = fe_Negate F v;
          nonSquareX = fe_Subtract F nonSquareX a;
          zeroX = fe_Negate F halfA;
          x = fe_Select F squareX nonSquareX wasSquare
      in fe_Select F zeroX x (fe_Equal F rhs (fe_Zero F)))"

definition elligator2Curve25519 :: "'e field_ops \<Rightarrow> bytes \<Rightarrow> bytes res" where
  "elligator2Curve25519 F encodedR =
     (case fe_SetBytes F encodedR of
        None \<Rightarrow> Inl (Panic ''cpace: invalid X25519 generator field input length'')
      | Some r \<Rightarrow>
          (case (setFieldElementUint64 F 2, setFieldElementUint64 F 486662, setFieldElementUint64 F 243331) of
             (Inr two, Inr a, Inr halfA) \<Rightarrow> Inr (fe_Bytes F (elligator2_body F r two a halfA))
           | _ \<Rightarrow> Inl (Panic ''cpace: invalid field constant'')))"

text \<open>
  \<^verbatim>\<open>calculateGenerator\<close> hashes the generator string, maps the first 32 bytes of the hash to the
  curve and wipes the string and the hash.
\<close>

definition calculateGenerator :: "'e field_ops \<Rightarrow> slice \<Rightarrow> slice \<Rightarrow> slice \<Rightarrow> ('z mem_scheme, slice res) state" where
  "calculateGenerator F prs ci sid = do {
     prsb \<leftarrow> load prs; cib \<leftarrow> load ci; sidb \<leftarrow> load sid;
     genStr \<leftarrow> alloc (generatorString (bytes_of dsiX25519) prsb cib sidb (int sha512BlockSize));
     genb \<leftarrow> load genStr;
     hash \<leftarrow> alloc (sha512 genb);
     clearBytes genStr;
     hashb \<leftarrow> load hash;
     case elligator2Curve25519 F (take pointSize hashb) of
       Inl f \<Rightarrow> State_Monad.return (Inl f)
     | Inr gb \<Rightarrow> do {
         g \<leftarrow> alloc gb;
         clearBytes hash;
         State_Monad.return (Inr g) } }"

section \<open>Scalars\<close>

definition sampleScalar :: "nat \<Rightarrow> ('z mem_scheme, slice res) state" where
  "sampleScalar r = do {
     b \<leftarrow> alloc (zeros scalarSize);
     got \<leftarrow> ReadFull r b;
     case got of
       Inl (Error err) \<Rightarrow> do {
         clearBytes b;
         State_Monad.return (Inl (Error (Errorf [W (Sentinel ErrRandomness), Lit '': scalar randomness: '', W err]))) }
     | Inl f \<Rightarrow> State_Monad.return (Inl f)
     | Inr _ \<Rightarrow> State_Monad.return (Inr b) }"

definition scalarFromCanonical :: "slice \<Rightarrow> ('z mem_scheme, slice res) state" where
  "scalarFromCanonical b = do {
     bs \<leftarrow> load b;
     if length bs \<noteq> scalarSize then State_Monad.return (Inl (Error (wrapf ErrInvalidInput '': scalar length'')))
     else do { c \<leftarrow> clone b; State_Monad.return (Inr c) } }"

section \<open>The X25519 ladder\<close>

definition clampScalar :: "bytes \<Rightarrow> bytes" where
  "clampScalar e =
     (let e = e[0 := e ! 0 AND 248];
          e = e[31 := e ! 31 AND 127];
          e = e[31 := e ! 31 OR 64]
      in e)"

record 'e ladder =
  lx2 :: 'e
  lz2 :: 'e
  lx3 :: 'e
  lz3 :: 'e
  lswap :: int

definition ladder_step :: "'e field_ops \<Rightarrow> bytes \<Rightarrow> 'e \<Rightarrow> nat \<Rightarrow> 'e ladder \<Rightarrow> 'e ladder" where
  "ladder_step F e x1 pos s =
     (let b = drop_bit (pos mod 8) (e ! (pos div 8));
          b = b AND 1;
          swap = lswap s XOR uint b;
          (x2, x3) = fe_Swap F (lx2 s) (lx3 s) swap;
          (z2, z3) = fe_Swap F (lz2 s) (lz3 s) swap;
          swap = uint b;
          tmp0 = fe_Subtract F x3 z3;
          tmp1 = fe_Subtract F x2 z2;
          x2 = fe_Add F x2 z2;
          z2 = fe_Add F x3 z3;
          z3 = fe_Multiply F tmp0 x2;
          z2 = fe_Multiply F z2 tmp1;
          tmp0 = fe_Square F tmp1;
          tmp1 = fe_Square F x2;
          x3 = fe_Add F z3 z2;
          z2 = fe_Subtract F z3 z2;
          x2 = fe_Multiply F tmp1 tmp0;
          tmp1 = fe_Subtract F tmp1 tmp0;
          z2 = fe_Square F z2;
          z3 = fe_Mult32 F tmp1 121666;
          x3 = fe_Square F x3;
          tmp0 = fe_Add F tmp0 z3;
          z3 = fe_Multiply F x1 z2;
          z2 = fe_Multiply F tmp1 tmp0
      in \<lparr>lx2 = x2, lz2 = z2, lx3 = x3, lz3 = z3, lswap = swap\<rparr>)"

definition ladder_init :: "'e field_ops \<Rightarrow> 'e \<Rightarrow> 'e ladder" where
  "ladder_init F x1 = \<lparr>lx2 = fe_One F, lz2 = fe_Zero F, lx3 = x1, lz3 = fe_One F, lswap = 0\<rparr>"

text \<open>The loop \<^verbatim>\<open>for pos := 254; pos >= 0; pos--\<close> and the conversion to an affine coordinate.\<close>

definition ladder_loop :: "'e field_ops \<Rightarrow> bytes \<Rightarrow> 'e \<Rightarrow> 'e ladder" where
  "ladder_loop F e x1 = fold (ladder_step F e x1) (rev [0..<255]) (ladder_init F x1)"

definition ladder_output :: "'e field_ops \<Rightarrow> 'e ladder \<Rightarrow> bytes" where
  "ladder_output F s =
     (let (x2, x3) = fe_Swap F (lx2 s) (lx3 s) (lswap s);
          (z2, z3) = fe_Swap F (lz2 s) (lz3 s) (lswap s);
          z2 = fe_Invert F z2;
          x2 = fe_Multiply F x2 z2
      in fe_Bytes F x2)"

definition x25519ScalarMult :: "'e field_ops \<Rightarrow> slice \<Rightarrow> slice \<Rightarrow> ('z mem_scheme, slice res) state" where
  "x25519ScalarMult F scalar point = do {
     sc \<leftarrow> load scalar;
     pt \<leftarrow> load point;
     if length sc \<noteq> scalarSize then State_Monad.return (Inl (Error (wrapf ErrInvalidInput '': scalar length'')))
     else if length pt \<noteq> pointSize then State_Monad.return (Inl (Error (wrapf ErrAbort '': invalid peer share length'')))
     else do {
       e \<leftarrow> alloc sc;
       store e (clampScalar sc);
       case fe_SetBytes F pt of
         None \<Rightarrow> State_Monad.return (Inl (Panic ''cpace: invalid X25519 point length after size check''))
       | Some x1 \<Rightarrow> do {
           eb \<leftarrow> load e;
           out \<leftarrow> alloc (ladder_output F (ladder_loop F eb x1));
           clearBytes e;
           State_Monad.return (Inr out) } } }"

definition scalarMult :: "'e field_ops \<Rightarrow> slice \<Rightarrow> slice \<Rightarrow> ('z mem_scheme, slice res) state" where
  "scalarMult F s p = x25519ScalarMult F s p"

section \<open>The intermediate session key and the confirmation tag\<close>

definition deriveISK :: "slice \<Rightarrow> slice \<Rightarrow> slice \<Rightarrow> ('z mem_scheme, slice) state" where
  "deriveISK sid k transcript = do {
     sidb \<leftarrow> load sid; kb \<leftarrow> load k; trb \<leftarrow> load transcript;
     pre \<leftarrow> alloc (lvCat [bytes_of dsiISK, sidb, kb]);
     preb \<leftarrow> load pre;
     material \<leftarrow> alloc (zeros (length preb + length trb));
     store material (preb @ trb);
     clearBytes pre;
     mb \<leftarrow> load material;
     sum \<leftarrow> alloc (sha512 mb);
     clearBytes material;
     out \<leftarrow> alloc (zeros sha512Size);
     sb \<leftarrow> load sum;
     store out sb;
     clearBytes sum;
     State_Monad.return out }"

definition confirmationTag :: "slice \<Rightarrow> slice \<Rightarrow> slice \<Rightarrow> slice \<Rightarrow> ('z mem_scheme, slice) state" where
  "confirmationTag isk sid y ad = do {
     iskb \<leftarrow> load isk; sidb \<leftarrow> load sid; yb \<leftarrow> load y; adb \<leftarrow> load ad;
     keyInput \<leftarrow> alloc (bytes_of ''CPaceMac'' @ sidb);
     kb \<leftarrow> load keyInput;
     keyInput \<leftarrow> alloc (kb @ iskb);
     kb \<leftarrow> load keyInput;
     macKey \<leftarrow> alloc (sha512 kb);
     clearBytes keyInput;
     mac \<leftarrow> load macKey;
     clearBytes macKey;
     msg \<leftarrow> alloc (lvCat [yb, adb]);
     mb \<leftarrow> load msg;
     alloc (hmac_sha512 mac mb) }"

section \<open>What the memory operations compute\<close>

definition generator_bytes :: "'e field_ops \<Rightarrow> bytes \<Rightarrow> bytes \<Rightarrow> bytes \<Rightarrow> bytes" where
  "generator_bytes F prs ci sid =
     projr (elligator2Curve25519 F
       (take pointSize (sha512 (generatorString (bytes_of dsiX25519) prs ci sid (int sha512BlockSize)))))"

definition x25519 :: "'e field_ops \<Rightarrow> bytes \<Rightarrow> bytes \<Rightarrow> bytes" where
  "x25519 F sc pt = ladder_output F (ladder_loop F (clampScalar sc) (the (fe_SetBytes F pt)))"

definition isk_material :: "bytes \<Rightarrow> bytes \<Rightarrow> bytes \<Rightarrow> bytes" where
  "isk_material sid k transcript = lvCat [bytes_of dsiISK, sid, k] @ transcript"

definition isk_bytes :: "bytes \<Rightarrow> bytes \<Rightarrow> bytes \<Rightarrow> bytes" where
  "isk_bytes sid k transcript = sha512 (isk_material sid k transcript)"

definition mac_key_input :: "bytes \<Rightarrow> bytes \<Rightarrow> bytes" where
  "mac_key_input sid isk = bytes_of ''CPaceMac'' @ sid @ isk"

definition tag_bytes :: "bytes \<Rightarrow> bytes \<Rightarrow> bytes \<Rightarrow> bytes \<Rightarrow> bytes" where
  "tag_bytes isk sid y ad = hmac_sha512 (sha512 (mac_key_input sid isk)) (lvCat [y, ad])"


lemma length_isk_bytes [simp]: "length (isk_bytes sid k tr) = 64"
  by (simp add: isk_bytes_def)

lemma length_tag_bytes [simp]: "length (tag_bytes isk sid y ad) = 64"
  by (simp add: tag_bytes_def)

section \<open>Running the operations\<close>

text \<open>
  Each operation appends the arrays it allocates. The equations list them in order: the secret
  intermediate ones are zero when it returns.
\<close>

lemmas new_arrays = clear_at_def list_update_append nth_append

lemma run_sampleScalar_ok:
  assumes "32 \<le> length (pending (readers m ! r))"
  shows "run_state (sampleScalar r) m =
    (Inr (Some (length (arrs m))),
     m\<lparr>readers := drain 32 r (readers m), arrs := arrs m @ [take 32 (pending (readers m ! r))]\<rparr>)"
  using assms
  by (simp add: sampleScalar_def run_simps ReadFull_def scalarSize_def new_arrays Let_def drain_def)

lemma run_sampleScalar_fail:
  assumes "length (pending (readers m ! r)) < 32"
  shows "run_state (sampleScalar r) m =
    (Inl (Error (Errorf [W (Sentinel ErrRandomness), Lit '': scalar randomness: '',
                         W (LibError (read_error (readers m ! r)))])),
     m\<lparr>readers := drain 32 r (readers m), arrs := arrs m @ [zeros 32]\<rparr>)"
  using assms
  by (simp add: sampleScalar_def run_simps ReadFull_def scalarSize_def new_arrays Let_def drain_def
      read_error_def)

lemma length_clampScalar [simp]: "length (clampScalar e) = length e"
  by (simp add: clampScalar_def Let_def)

lemma run_deriveISK [run_simps]:
  "run_state (deriveISK sid k tr) m =
     (let isk = isk_bytes (contents m sid) (contents m k) (contents m tr);
          pre = lvCat [bytes_of dsiISK, contents m sid, contents m k]
      in (Some (length (arrs m) + 3),
          m\<lparr>arrs := arrs m @ [zeros (length pre), zeros (length pre + length (contents m tr)), zeros 64, isk]\<rparr>))"
  by (simp add: deriveISK_def run_simps isk_bytes_def isk_material_def new_arrays Let_def sha512Size_def numeral_eq_Suc)

lemma run_confirmationTag [run_simps]:
  "run_state (confirmationTag isk sid y ad) m =
     (let sidb = contents m sid
      in (Some (length (arrs m) + 4),
          m\<lparr>arrs := arrs m @ [bytes_of ''CPaceMac'' @ sidb, zeros (8 + length sidb + length (contents m isk)),
             zeros 64, lvCat [contents m y, contents m ad],
             tag_bytes (contents m isk) sidb (contents m y) (contents m ad)]\<rparr>))"
  by (simp add: confirmationTag_def run_simps tag_bytes_def mac_key_input_def new_arrays Let_def numeral_eq_Suc)

context field_lengths
begin

lemma SetBytes_the: "length b = 32 \<Longrightarrow> fe_SetBytes F b = Some (the (fe_SetBytes F b))"
  using SetBytes_ok by fastforce

lemma setFieldElementUint64_ok:
  "setFieldElementUint64 F n = Inr (the (fe_SetBytes F (le_bytes 8 (uint n) @ zeros 24)))"
  by (subst setFieldElementUint64_def, subst SetBytes_the) (simp_all add: pointSize_def)

lemma elligator2_ok: "length r = 32 \<Longrightarrow>
    elligator2Curve25519 F r = Inr (projr (elligator2Curve25519 F r)) \<and>
    length (projr (elligator2Curve25519 F r)) = 32"
  by (subst (1 2 3) elligator2Curve25519_def, subst (1 2 3) SetBytes_the)
     (simp_all add: setFieldElementUint64_ok Bytes_length)

lemma length_generator_bytes [simp]: "length (generator_bytes F prs ci sid) = 32"
  using elligator2_ok by (simp add: generator_bytes_def pointSize_def)

lemma run_calculateGenerator [run_simps]:
  "run_state (calculateGenerator F prs ci sid) m =
     (let s = generatorString (bytes_of dsiX25519) (contents m prs) (contents m ci) (contents m sid) 128
      in (Inr (Some (length (arrs m) + 2)),
          m\<lparr>arrs := arrs m @ [zeros (length s), zeros 64,
             generator_bytes F (contents m prs) (contents m ci) (contents m sid)]\<rparr>))"
proof -
  let ?r = "take pointSize (sha512 (generatorString (bytes_of dsiX25519) (contents m prs) (contents m ci)
             (contents m sid) (int sha512BlockSize)))"
  have "elligator2Curve25519 F ?r = Inr (generator_bytes F (contents m prs) (contents m ci) (contents m sid))"
    using elligator2_ok [of ?r] by (simp add: generator_bytes_def pointSize_def)
  then show ?thesis
    by (simp add: calculateGenerator_def run_simps new_arrays Let_def sha512BlockSize_def)
qed

lemma length_x25519 [simp]: "length (x25519 F sc pt) = 32"
  by (simp add: x25519_def ladder_output_def Bytes_length Let_def split: prod.split)

lemma run_x25519ScalarMult:
  assumes "length (contents m sc) = 32" "length (contents m pt) = 32"
  shows "run_state (x25519ScalarMult F sc pt) m =
     (Inr (Some (length (arrs m) + 1)),
      m\<lparr>arrs := arrs m @ [zeros 32, x25519 F (contents m sc) (contents m pt)]\<rparr>)"
proof -
  from SetBytes_ok [OF assms(2)] obtain x where "fe_SetBytes F (contents m pt) = Some x" ..
  with assms show ?thesis
    by (simp add: x25519ScalarMult_def run_simps x25519_def new_arrays scalarSize_def pointSize_def)
qed

end

section \<open>Hash inputs\<close>

lemma mac_key_input_inject:
  "length isk = length isk' \<Longrightarrow> mac_key_input sid isk = mac_key_input sid' isk' \<longleftrightarrow> sid = sid' \<and> isk = isk'"
  by (simp add: mac_key_input_def)

lemma isk_material_inject:
  assumes "sliceable sid" "sliceable k" "sliceable sid'" "sliceable k'"
  shows "isk_material sid k tr = isk_material sid' k' tr' \<longleftrightarrow> sid = sid' \<and> k = k' \<and> tr = tr'"
proof -
  have "sliceable (bytes_of dsiISK)" by (simp add: sliceable_def dsiISK_def)
  then show ?thesis
    using lvCat_prefix_free [of "[bytes_of dsiISK, sid, k]" "[bytes_of dsiISK, sid', k']" tr tr'] assms
    by (auto simp: isk_material_def)
qed

lemma generatorString_block_eq:
  assumes "length prs \<le> 117"
  shows "generatorString (bytes_of dsiX25519) prs ci sid 128 =
      lvCat [bytes_of dsiX25519, prs, zeros (117 - length prs)] @ lvCat [ci, sid] \<and>
    length (lvCat [bytes_of dsiX25519, prs, zeros (117 - length prs)]) = 128"
proof -
  have s: "sliceable prs" "sliceable (bytes_of dsiX25519)" using assms by (simp_all add: sliceable_def dsiX25519_def)
  have one: "lengthValueLen (int n) = 1 + int n" if "n \<le> 117" for n
    using that by (simp add: lengthValueLen_def leb128LenInt_def leb128LenInt_loop.simps)
  have len: "length (prependLen b) = 1 + length b" if "length b \<le> 117" for b
    using lengthValueLen_prependLen [of b] one [OF that] that by (simp add: sliceable_def)
  have "lengthValueLen 8 = 9" using one [of 8] by simp
  then have "generatorString (bytes_of dsiX25519) prs ci sid 128 =
      lvCat ([bytes_of dsiX25519, prs, zeros (117 - length prs)] @ [ci, sid])"
    using assms by (simp add: generatorString_def one dsiX25519_def nat_diff_distrib' flip: of_nat_diff)
  then show ?thesis using assms by (simp add: lvCat_append lvCat_eq len dsiX25519_def)
qed

lemma generatorString_form:
  assumes "sliceable prs"
  shows "\<exists>z \<le> 128. generatorString (bytes_of dsiX25519) prs ci sid 128 = lvCat [bytes_of dsiX25519, prs, zeros z, ci, sid]"
proof -
  have "sliceable (bytes_of dsiX25519)" by (simp add: sliceable_def dsiX25519_def)
  then have "0 \<le> lengthValueLen (int (length prs))" "0 \<le> lengthValueLen (int (length (bytes_of dsiX25519)))"
    using assms by (simp_all only: lengthValueLen_prependLen of_nat_0_le_iff)
  then show ?thesis
    by (intro exI [of _ "nat (max (128 - lengthValueLen (int (length prs)) - lengthValueLen (int (length (bytes_of dsiX25519))) - 1) 0)"])
       (auto simp: generatorString_def)
qed

lemma generatorString_inject:
  assumes "list_all sliceable [prs, ci, sid, prs', ci', sid']"
  shows "generatorString (bytes_of dsiX25519) prs ci sid 128 = generatorString (bytes_of dsiX25519) prs' ci' sid' 128
      \<longleftrightarrow> prs = prs' \<and> ci = ci' \<and> sid = sid'"
proof -
  have small: "sliceable (zeros z)" if "z \<le> 128" for z using that by (simp add: sliceable_def)
  have d: "sliceable (bytes_of dsiX25519)" by (simp add: sliceable_def dsiX25519_def)
  obtain z where z: "z \<le> 128" "generatorString (bytes_of dsiX25519) prs ci sid 128 = lvCat [bytes_of dsiX25519, prs, zeros z, ci, sid]"
    using generatorString_form [of prs ci sid] assms by (auto simp only: list.pred_inject)
  obtain y where y: "y \<le> 128" "generatorString (bytes_of dsiX25519) prs' ci' sid' 128 = lvCat [bytes_of dsiX25519, prs', zeros y, ci', sid']"
    using generatorString_form [of prs' ci' sid'] assms by (auto simp only: list.pred_inject)
  have "list_all sliceable [bytes_of dsiX25519, prs, zeros z, ci, sid]"
    "list_all sliceable [bytes_of dsiX25519, prs', zeros y, ci', sid']"
    using assms d small [OF z(1)] small [OF y(1)] by (simp_all only: list.pred_inject)
  from lvCat_inject [OF this]
  have "lvCat [bytes_of dsiX25519, prs, zeros z, ci, sid] = lvCat [bytes_of dsiX25519, prs', zeros y, ci', sid'] \<Longrightarrow>
      prs = prs' \<and> ci = ci' \<and> sid = sid'" by (simp only: list.inject)
  then show ?thesis using z(2) y(2) by metis
qed

section \<open>Properties\<close>

text \<open>
  C32: the generator string separates its inputs: with the package's domain separator and block
  size, two strings are equal only when password, channel identifier and session id are. For a
  password of at most 117 bytes the zero padding makes domain separator, password and padding
  exactly one 128-byte SHA-512 block, so CI and sid start at a block boundary.
\<close>

theorem generatorString_separates:
  assumes "list_all sliceable [prs, ci, sid, prs', ci', sid']"
  shows "(generatorString (bytes_of dsiX25519) prs ci sid 128 = generatorString (bytes_of dsiX25519) prs' ci' sid' 128
      \<longleftrightarrow> prs = prs' \<and> ci = ci' \<and> sid = sid') \<and>
    (length prs \<le> 117 \<longrightarrow>
      generatorString (bytes_of dsiX25519) prs ci sid 128 =
        lvCat [bytes_of dsiX25519, prs, zeros (117 - length prs)] @ lvCat [ci, sid] \<and>
      length (lvCat [bytes_of dsiX25519, prs, zeros (117 - length prs)]) = 128)"
  using assms generatorString_inject [of prs ci sid prs' ci' sid'] generatorString_block_eq [of prs ci sid]
  by simp

theorem generatorString_separates_witness:
  "generatorString (bytes_of dsiX25519) [1] [2] [3] 128 \<noteq> generatorString (bytes_of dsiX25519) [1] [2, 3] [] 128 \<and>
   generatorString (bytes_of dsiX25519) [1] [2] [3] 128 =
     lvCat [bytes_of dsiX25519, [1], zeros 116] @ lvCat [[2], [3]]"
  using generatorString_separates [of "[1]" "[2]" "[3]" "[1]" "[2, 3]" "[]"]
  by (simp add: sliceable_def) metis

text \<open>
  C33: the inputs of the two key derivations are unambiguous. The ISK material fixes session id,
  shared secret and transcript although the transcript is appended raw; the confirmation key
  input, a raw concatenation, fixes session id and ISK because every ISK has 64 bytes.
\<close>

theorem key_inputs_injective:
  assumes "list_all sliceable [sid, k, sid', k']"
  shows "(isk_material sid k tr = isk_material sid' k' tr' \<longleftrightarrow> sid = sid' \<and> k = k' \<and> tr = tr') \<and>
    (mac_key_input sid (isk_bytes s k t) = mac_key_input sid' (isk_bytes s' k' t') \<longleftrightarrow>
       sid = sid' \<and> isk_bytes s k t = isk_bytes s' k' t')"
  using assms isk_material_inject [of sid k sid' k' tr tr']
    mac_key_input_inject [of "isk_bytes s k t" "isk_bytes s' k' t'" sid sid'] by simp

theorem key_inputs_injective_witness:
  "isk_material [1] [2] [3] \<noteq> isk_material [1] [2, 3] [] \<and>
   (mac_key_input [1] (isk_bytes [1] [2] []) = mac_key_input [1, 1] (isk_bytes [1] [2, 3] []) \<longleftrightarrow> False)"
  using key_inputs_injective [of "[1]" "[2]" "[1]" "[2, 3]" "[3]" "[]" "[1]" "[]" "[1]" "[]"]
    key_inputs_injective [of "[1]" "[2]" "[1, 1]" "[2, 3]" "[3]" "[]" "[1]" "[]" "[1]" "[]"]
  by (simp add: sliceable_def)

text \<open>
  C34: \<open>deriveISK\<close> returns the SHA-512 hash of the ISK material in a new 64-byte array and leaves
  every array that existed unchanged; the three intermediate arrays, which contain the shared secret
  or the key, are zero. \<open>confirmationTag\<close> returns the tag, and its arrays that contain the ISK or
  the MAC key are zero; what stays behind in memory is the public session id and the public MAC input.
\<close>

theorem key_derivation_memory:
  "run_state (deriveISK sid k tr) m =
      (Some (length (arrs m) + 3),
       m\<lparr>arrs := arrs m @ [zeros (length (lvCat [bytes_of dsiISK, contents m sid, contents m k])),
          zeros (length (isk_material (contents m sid) (contents m k) (contents m tr))), zeros 64,
          isk_bytes (contents m sid) (contents m k) (contents m tr)]\<rparr>) \<and>
   run_state (confirmationTag isk sid y ad) m =
      (Some (length (arrs m) + 4),
       m\<lparr>arrs := arrs m @ [bytes_of ''CPaceMac'' @ contents m sid,
          zeros (length (mac_key_input (contents m sid) (contents m isk))), zeros 64,
          lvCat [contents m y, contents m ad],
          tag_bytes (contents m isk) (contents m sid) (contents m y) (contents m ad)]\<rparr>)"
  by (simp_all add: run_deriveISK run_confirmationTag Let_def isk_material_def mac_key_input_def)

text \<open>
  C35: \<open>sampleScalar\<close> returns exactly the next 32 bytes of the reader, or, when the reader fails
  before 32 bytes, an error that wraps both \<open>ErrRandomness\<close> and the reader's error (a partial
  read that ends in EOF is an unexpected EOF) and wipes what it had read.
\<close>

theorem sampleScalar_outcome:
  "run_state (sampleScalar r) m =
    (if 32 \<le> length (pending (readers m ! r))
     then (Inr (Some (length (arrs m))),
           m\<lparr>readers := drain 32 r (readers m), arrs := arrs m @ [take 32 (pending (readers m ! r))]\<rparr>)
     else (Inl (Error (Errorf [W (Sentinel ErrRandomness), Lit '': scalar randomness: '',
                               W (LibError (read_error (readers m ! r)))])),
           m\<lparr>readers := drain 32 r (readers m), arrs := arrs m @ [zeros 32]\<rparr>))"
  by (simp add: run_sampleScalar_ok run_sampleScalar_fail not_le)

end
