(* ===== verification/Montgomery.thy ===== *)
theory Montgomery
  imports Crypto
begin

text \<open>
  What the curve code of \<^verbatim>\<open>src/crypto.go\<close> computes, in the field of integers modulo
  \<open>p = 2 ^ 255 - 19\<close>: the constant-time ladder is the Montgomery ladder on projective
  u-coordinates of \<open>v\<^sup>2 = u\<^sup>3 + 486662 u\<^sup>2 + u\<close>, points of order dividing 8 give the all-zero output
  for every scalar, and the generator map is the one of the CPace draft.
\<close>

section \<open>Reference definitions\<close>

type_synonym proj = "int \<times> int"

text \<open>Doubling, and addition of two points whose difference has the u-coordinate \<open>x1\<close>.\<close>

definition mont_dbl :: "proj \<Rightarrow> proj" where
  "mont_dbl P = (case P of (X, Z) \<Rightarrow>
     ((X\<^sup>2 - Z\<^sup>2)\<^sup>2 mod p25519, (4 * X * Z * (X\<^sup>2 + 486662 * X * Z + Z\<^sup>2)) mod p25519))"

definition mont_add :: "int \<Rightarrow> proj \<Rightarrow> proj \<Rightarrow> proj" where
  "mont_add x1 P Q = (case (P, Q) of ((X2, Z2), (X3, Z3)) \<Rightarrow>
     ((4 * (X2 * X3 - Z2 * Z3)\<^sup>2) mod p25519, (4 * x1 * (X2 * Z3 - Z2 * X3)\<^sup>2) mod p25519))"

text \<open>\<open>mont_pair x1 n\<close>: projective u-coordinates of the multiples \<open>n\<close> and \<open>n + 1\<close> of the point at \<open>x1\<close>.\<close>

fun mont_pair :: "int \<Rightarrow> nat \<Rightarrow> proj \<times> proj" where
  "mont_pair x1 n =
     (if n = 0 then ((1, 0), (x1, 1))
      else case mont_pair x1 (n div 2) of (P, Q) \<Rightarrow>
        if even n then (mont_dbl P, mont_add x1 P Q) else (mont_add x1 P Q, mont_dbl Q))"

declare mont_pair.simps [simp del]

definition affine :: "proj \<Rightarrow> int" where
  "affine P = (fst P * (snd P ^ nat (p25519 - 2) mod p25519)) mod p25519"

text \<open>The scalar an encoding stands for: three low bits cleared, bit 254 set, bit 255 cleared.\<close>

definition clamped :: "bytes \<Rightarrow> nat" where
  "clamped e = nat (le_int e mod 2 ^ 254 div 8 * 8 + 2 ^ 254)"

text \<open>
  The map of the CPace draft (Appendix A.5, with \<open>A = 486662\<close> and \<open>Z = 2\<close>):
  \<open>v = - A / (1 + Z r\<^sup>2)\<close>, \<open>\<epsilon>\<close> the quadratic character of \<open>v\<^sup>3 + A v\<^sup>2 + v\<close>,
  and \<open>x = \<epsilon> v - (1 - \<epsilon>) A / 2\<close>.
\<close>

definition elligator_v :: "int \<Rightarrow> int" where
  "elligator_v r = (- 486662 * ((1 + 2 * r\<^sup>2) ^ nat (p25519 - 2) mod p25519)) mod p25519"

definition quadratic_character :: "int \<Rightarrow> int" where
  "quadratic_character a = (if a mod p25519 = 0 then 0 else if is_square a then 1 else - 1)"

definition elligator_draft :: "int \<Rightarrow> int" where
  "elligator_draft r =
     (let v = elligator_v r; \<epsilon> = quadratic_character (v ^ 3 + 486662 * v\<^sup>2 + v)
      in (\<epsilon> * v - (1 - \<epsilon>) * 243331) mod p25519)"

section \<open>Bits of a little-endian number\<close>

lemma le_int_append: "le_int (xs @ ys) = le_int xs + 256 ^ length xs * le_int ys"
  by (induction xs) (simp_all add: algebra_simps)

lemma le_int_digit: "j < length e \<Longrightarrow> le_int e div 256 ^ j mod 256 = uint (e ! j)"
proof (induction e arbitrary: j)
  case Nil
  then show ?case by simp
next
  case (Cons b e)
  have b: "0 \<le> uint b" "uint b < 256" using uint_lt2p [of b] by simp_all
  show ?case
  proof (cases j)
    case 0
    with b show ?thesis by simp
  next
    case (Suc i)
    have "le_int (b # e) div 256 ^ j = le_int (b # e) div 256 div 256 ^ i"
      by (simp add: Suc zdiv_zmult2_eq)
    also have "le_int (b # e) div 256 = le_int e"
      using b by simp
    finally show ?thesis using Cons Suc by simp
  qed
qed

lemma bit_le_int: "pos div 8 < length e \<Longrightarrow> bit (le_int e) pos = bit (e ! (pos div 8)) (pos mod 8)"
proof -
  assume "pos div 8 < length e"
  from le_int_digit [OF this]
  have "uint (e ! (pos div 8)) = take_bit 8 (drop_bit (8 * (pos div 8)) (le_int e))"
    by (simp add: take_bit_eq_mod drop_bit_eq_div power_mult)
  then have "bit (uint (e ! (pos div 8))) (pos mod 8) = bit (le_int e) (8 * (pos div 8) + pos mod 8)"
    by (simp add: bit_take_bit_iff bit_drop_bit_eq del: mult_div_mod_eq)
  then show ?thesis by (simp add: bit_unsigned_iff)
qed

lemma scalar_bit: "pos div 8 < length e \<Longrightarrow>
    drop_bit (pos mod 8) (e ! (pos div 8)) AND 1 = of_bool (bit (le_int e) pos)"
  by (simp add: bit_le_int and_one_eq mod_2_eq_odd bit_drop_bit_eq flip: bit_0)

lemma less_8_cases: "k < 8 \<Longrightarrow> k \<in> {0, 1, 2, 3, 4, 5, 6, 7 :: nat}"
  by auto

lemma uint_clamp_low: "uint ((b :: byte) AND 248) = uint b div 8 * 8"
proof -
  have "bit (uint (b AND 248)) k = bit (push_bit 3 (drop_bit 3 (uint b))) k" for k
  proof (cases "k < 8")
    case True
    then have "k \<in> {0, 1, 2, 3, 4, 5, 6, 7}" by (rule less_8_cases)
    then show ?thesis
      by (auto simp: bit_simps)
  qed (auto simp: bit_simps dest: bit_imp_le_length)
  then have "uint (b AND 248) = push_bit 3 (drop_bit 3 (uint b))"
    by (rule bit_eqI)
  then show ?thesis by (simp add: push_bit_eq_mult drop_bit_eq_div)
qed

lemma not_bit_64: "\<not> k < 8 \<Longrightarrow> \<not> bit (64 :: int) k"
proof -
  assume "\<not> k < 8"
  then have "(2 :: int) ^ 8 \<le> 2 ^ k" by (intro power_increasing) auto
  then show ?thesis by (simp add: bit_iff_odd)
qed

lemma uint_clamp_high: "uint (((b :: byte) AND 127) OR 64) = uint b mod 64 + 64"
proof -
  have "bit (uint ((b AND 127) OR 64)) k = bit (take_bit 6 (uint b) OR 64) k" for k
  proof (cases "k < 8")
    case True
    then have "k \<in> {0, 1, 2, 3, 4, 5, 6, 7}" by (rule less_8_cases)
    then show ?thesis
      by (auto simp: bit_simps)
  qed (auto simp: bit_simps not_bit_64 dest: bit_imp_le_length)
  then have "uint ((b AND 127) OR 64) = take_bit 6 (uint b) OR 64"
    by (rule bit_eqI)
  also have "\<dots> = take_bit 6 (uint b) + 64"
    using and_exp_eq_0_iff_not_bit [of "take_bit 6 (uint b)" 6]
    by (intro disjunctive_add_eq_or [symmetric]) (simp add: bit_take_bit_iff)
  finally show ?thesis by (simp add: take_bit_eq_mod)
qed

lemma list_ends: "length e = 32 \<Longrightarrow> \<exists>b0 mid b31. e = b0 # mid @ [b31] \<and> length mid = 30"
proof -
  assume l: "length e = 32"
  then obtain b0 t where e: "e = b0 # t" by (cases e) auto
  with l have "t \<noteq> []" "length (butlast t) = 30" by auto
  with e show ?thesis by (metis append_butlast_last_id)
qed

lemma int_clamped: "int (clamped e) = le_int e mod 2 ^ 254 div 8 * 8 + 2 ^ 254"
proof -
  have "0 \<le> le_int e mod 2 ^ 254 div 8 * 8" by simp
  then show ?thesis by (simp add: clamped_def)
qed

lemma le_int_clampScalar: "length e = 32 \<Longrightarrow> le_int (clampScalar e) = int (clamped e)"
proof -
  assume "length e = 32"
  then obtain b0 mid b31 where e: "e = b0 # mid @ [b31]" "length mid = 30" using list_ends by blast
  define M where "M = le_int mid"
  have M: "0 \<le> M" "M < 256 ^ 30" using le_int_nonneg le_int_less [of mid] e by (auto simp: M_def)
  have b: "0 \<le> uint b0" "uint b0 < 256" using uint_lt2p [of b0] by simp_all
  have "clampScalar e = (b0 AND 248) # mid @ [(b31 AND 127) OR 64]"
    using e by (simp add: clampScalar_def Let_def nth_append list_update_append)
  then have "le_int (clampScalar e) = uint b0 div 8 * 8 + 256 * M + 256 ^ 31 * (uint b31 mod 64 + 64)"
    using e by (simp add: uint_clamp_low uint_clamp_high le_int_append M_def)
  moreover have "le_int e mod 2 ^ 254 = uint b0 + 256 * M + 256 ^ 31 * (uint b31 mod 64)"
  proof -
    have e': "le_int e = uint b0 + 256 * M + 256 ^ 31 * uint b31"
      using e by (simp add: le_int_append M_def)
    have "le_int e mod (256 ^ 31 * 64) = 256 ^ 31 * (le_int e div 256 ^ 31 mod 64) + le_int e mod 256 ^ 31"
      by (rule zmod_zmult2_eq) simp
    moreover have "le_int e div 256 ^ 31 = uint b31" "le_int e mod 256 ^ 31 = uint b0 + 256 * M"
      using M b by (simp_all add: e')
    ultimately show ?thesis by simp
  qed
  moreover have "(uint b0 + 256 * M + 256 ^ 31 * (uint b31 mod 64)) div 8 * 8 = uint b0 div 8 * 8 + 256 * M + 256 ^ 31 * (uint b31 mod 64)"
    using div_mult_self4 [of 8 "32 * M + 2 ^ 245 * (uint b31 mod 64)" "uint b0"]
    by (simp add: algebra_simps)
  ultimately show ?thesis by (simp add: int_clamped)
qed

section \<open>The ladder\<close>

lemma clamped_bounds: "2 ^ 254 \<le> clamped e" "clamped e < 2 ^ 255" "8 dvd clamped e"
proof -
  have n: "0 \<le> le_int e mod 2 ^ 254 div 8 * 8" "le_int e mod 2 ^ 254 div 8 * 8 < 2 ^ 254"
    using pos_mod_bound [of "2 ^ 254" "le_int e"] by simp_all
  have "(8 :: int) dvd 2 ^ 254" by simp
  then have "int 8 dvd int (clamped e)" unfolding int_clamped by (intro dvd_add) simp_all
  then show "8 dvd clamped e" by (simp only: int_dvd_int_iff)
  have "2 ^ 254 \<le> int (clamped e)" "int (clamped e) < 2 ^ 255" unfolding int_clamped using n by simp_all
  then show "2 ^ 254 \<le> clamped e" "clamped e < 2 ^ 255" by simp_all
qed

text \<open>The two points a ladder state stands for, given the pending swap.\<close>

definition ladder_points :: "('e \<Rightarrow> int) \<Rightarrow> 'e ladder \<Rightarrow> proj \<times> proj" where
  "ladder_points val s =
     (if lswap s = 1 then ((val (lx3 s), val (lz3 s)), (val (lx2 s), val (lz2 s)))
      else ((val (lx2 s), val (lz2 s)), (val (lx3 s), val (lz3 s))))"

definition ladder_from :: "'e field_ops \<Rightarrow> bytes \<Rightarrow> 'e \<Rightarrow> nat \<Rightarrow> 'e ladder" where
  "ladder_from F e x1 i = fold (ladder_step F e x1) (rev [i..<255]) (ladder_init F x1)"

lemma ladder_from_step: "i < 255 \<Longrightarrow> ladder_from F e x1 i = ladder_step F e x1 i (ladder_from F e x1 (Suc i))"
  by (simp add: ladder_from_def upt_conv_Cons)

lemma mont_pair_step: "n \<noteq> 0 \<Longrightarrow> mont_pair x1 n =
    (case mont_pair x1 (n div 2) of (P, Q) \<Rightarrow>
       if odd n then (mont_add x1 P Q, mont_dbl Q) else (mont_dbl P, mont_add x1 P Q))"
  by (subst mont_pair.simps) (simp split: prod.split)

context field_package
begin

lemma ladder_step_points:
  assumes "pos div 8 < length e" "lswap s = 0 \<or> lswap s = 1"
  shows "ladder_points val (ladder_step F e x1 pos s) =
    (case ladder_points val s of (P, Q) \<Rightarrow>
       if bit (le_int e) pos then (mont_add (val x1) P Q, mont_dbl Q)
       else (mont_dbl P, mont_add (val x1) P Q))"
  using assms(2)
  by (cases "bit (le_int e) pos";
      auto simp: ladder_step_def scalar_bit [OF assms(1)] Let_def Swap_0 Swap_1 ladder_points_def
        mont_dbl_def mont_add_def val_simps mod_simps;
      simp add: power2_eq_square algebra_simps)

lemma ladder_step_swap: "pos div 8 < length e \<Longrightarrow>
    lswap (ladder_step F e x1 pos s) = 0 \<or> lswap (ladder_step F e x1 pos s) = 1"
  by (simp add: ladder_step_def scalar_bit Let_def split: prod.split)

lemma ladder_from_points:
  assumes "length e = 32" "le_int e = int n" "2 ^ 254 \<le> n" "n < 2 ^ 255" "i \<le> 255"
  shows "(lswap (ladder_from F e x1 i) = 0 \<or> lswap (ladder_from F e x1 i) = 1) \<and>
    ladder_points val (ladder_from F e x1 i) = mont_pair (val x1) (n div 2 ^ i)"
  using assms(5)
proof (induction i rule: inc_induct)
  case base
  from assms(4) show ?case
    by (simp add: ladder_from_def ladder_init_def ladder_points_def val_simps mont_pair.simps [of _ 0])
next
  case (step i)
  then have i: "i div 8 < length e" using assms(1) by simp
  have "2 ^ i \<le> (2 :: nat) ^ 254" using step by (intro power_increasing) auto
  with assms(3) have "2 ^ i \<le> n" by simp
  then have "n div 2 ^ i \<noteq> 0" by (simp add: div_eq_0_iff)
  moreover have "odd (n div 2 ^ i) = bit (le_int e) i"
    unfolding assms(2) bit_of_nat_iff_bit by (simp add: bit_iff_odd)
  moreover have "n div 2 ^ i div 2 = n div 2 ^ Suc i" by (simp add: mult.commute flip: div_mult2_eq)
  ultimately have "mont_pair (val x1) (n div 2 ^ i) =
    (case mont_pair (val x1) (n div 2 ^ Suc i) of (P, Q) \<Rightarrow>
       if bit (le_int e) i then (mont_add (val x1) P Q, mont_dbl Q) else (mont_dbl P, mont_add (val x1) P Q))"
    by (simp add: mont_pair_step)
  then show ?case
    using step ladder_step_points [OF i] ladder_step_swap [OF i]
    by (simp add: ladder_from_step)
qed

lemma x25519_montgomery:
  assumes "length sc = 32" "length pt = 32"
  shows "x25519 F sc pt =
    le_bytes 32 (affine (fst (mont_pair (le_int pt mod 2 ^ 255 mod p25519) (clamped sc))))"
proof -
  obtain x1 where x1: "fe_SetBytes F pt = Some x1" using SetBytes_ok [OF assms(2)] ..
  let ?s = "ladder_from F (clampScalar sc) x1 0"
  have s: "lswap ?s = 0 \<or> lswap ?s = 1" "ladder_points val ?s = mont_pair (val x1) (clamped sc)"
    using ladder_from_points [of "clampScalar sc" "clamped sc" 0 x1] assms clamped_bounds
    by (simp_all add: le_int_clampScalar)
  have "ladder_output F ?s = le_bytes 32 (affine (fst (mont_pair (val x1) (clamped sc))))"
    using s(1) unfolding s(2) [symmetric]
    by (auto simp: ladder_output_def ladder_points_def affine_def Swap_0 Swap_1 Bytes_val val_Multiply
        val_Invert Let_def)
  then show ?thesis
    by (simp add: x25519_def x1 ladder_loop_def ladder_from_def SetBytes_val [OF x1])
qed

end

section \<open>Points of low order\<close>

text \<open>
  u-coordinates of the points whose order divides 8: 0 and the point at infinity, the roots of
  \<open>u\<^sup>2 = 1\<close>, and the points that double to them.
\<close>

definition low_order :: "int \<Rightarrow> bool" where
  "low_order u \<longleftrightarrow>
     u mod p25519 = 0 \<or> u\<^sup>2 mod p25519 = 1 \<or>
     (u\<^sup>2 - 1)\<^sup>2 mod p25519 = (4 * u * (u\<^sup>2 + 486662 * u + 1)) mod p25519 \<or>
     (u\<^sup>2 - 1)\<^sup>2 mod p25519 = (- 4 * u * (u\<^sup>2 + 486662 * u + 1)) mod p25519"

definition scale :: "int \<Rightarrow> proj \<Rightarrow> proj" where
  "scale q P = ((q * fst P) mod p25519, (q * snd P) mod p25519)"

lemma scale_scale: "scale q (scale r P) = scale (q * r) P"
  by (simp add: scale_def mod_simps mult.assoc)

lemma mod_power2_cong: "a mod p25519 = b mod p25519 \<Longrightarrow> a\<^sup>2 mod p25519 = b\<^sup>2 mod p25519"
  by (metis power_mod)

lemmas mod_congs = mod_mult_cong mod_add_cong mod_diff_cong mod_power2_cong

lemma mont_dbl_mod: "mont_dbl (X mod p25519, Z mod p25519) = mont_dbl (X, Z)"
  unfolding mont_dbl_def by (simp, intro conjI mod_congs; simp)

lemma mont_add_mod:
  "mont_add u (X mod p25519, Z mod p25519) (X' mod p25519, Z' mod p25519) = mont_add u (X, Z) (X', Z')"
  unfolding mont_add_def by (simp, intro conjI mod_congs; simp)

lemma mont_dbl_scale: "mont_dbl (scale q P) = scale (q ^ 4) (mont_dbl P)"
  unfolding scale_def mont_dbl_mod
  by (cases P) (simp add: mont_dbl_def mod_simps, simp add: power4_eq_xxxx power2_eq_square algebra_simps)

lemma mont_add_scale: "mont_add u (scale q P) (scale r Q) = scale (q\<^sup>2 * r\<^sup>2) (mont_add u P Q)"
  unfolding scale_def mont_add_mod
  by (cases P; cases Q) (simp add: mont_add_def mod_simps, simp add: power2_eq_square algebra_simps)

lemma mod_eight:
  "2 * (m mod 8) mod 8 = 2 * m mod (8 :: nat)"
  "Suc (2 * (m mod 8)) mod 8 = Suc (2 * m) mod 8"
  "Suc (m mod 8) mod 8 = Suc m mod 8"
proof -
  show a: "2 * (m mod 8) mod 8 = 2 * m mod (8 :: nat)" for m by (simp only: mod_mult_right_eq)
  show "Suc (2 * (m mod 8)) mod 8 = Suc (2 * m) mod 8" by (metis a mod_Suc_eq)
  show "Suc (m mod 8) mod 8 = Suc m mod 8" by (rule mod_Suc_eq)
qed

text \<open>A cycle of eight points closed under the ladder's steps.\<close>

lemma mont_pair_cycle:
  assumes r01: "rep 0 = (1, 0)" "rep 1 = (u, 1)" and u: "u mod p25519 = u"
    and dbl: "\<And>k. k < 8 \<Longrightarrow> \<exists>c. mont_dbl (rep k) = scale c (rep (2 * k mod 8))"
    and add: "\<And>k. k < 8 \<Longrightarrow> \<exists>c. mont_add u (rep k) (rep (Suc k mod 8)) = scale c (rep (Suc (2 * k) mod 8))"
  shows "\<exists>q r. mont_pair u n = (scale q (rep (n mod 8)), scale r (rep (Suc n mod 8)))"
proof (induction n rule: less_induct)
  case (less n)
  show ?case
  proof (cases "n = 0")
    case True
    have "(1, 0) = scale 1 (1, 0)" "(u, 1) = scale 1 (u, 1)"
      using u p25519_gt by (simp_all add: scale_def)
    then have "mont_pair u n = (scale 1 (rep (n mod 8)), scale 1 (rep (Suc n mod 8)))"
      using True r01 by (simp add: mont_pair.simps [of _ 0])
    then show ?thesis by blast
  next
    case False
    obtain m where mn: "m = n div 2" by blast
    with False obtain q r where
      IH: "mont_pair u m = (scale q (rep (m mod 8)), scale r (rep (Suc m mod 8)))"
      using less [of m] by auto
    obtain c where c: "mont_dbl (rep (m mod 8)) = scale c (rep (2 * m mod 8))"
      using dbl [of "m mod 8"] by (auto simp only: mod_eight mod_less_divisor zero_less_numeral)
    obtain d where d: "mont_dbl (rep (Suc m mod 8)) = scale d (rep (2 * Suc m mod 8))"
      using dbl [of "Suc m mod 8"] by (auto simp only: mod_eight mod_less_divisor zero_less_numeral)
    obtain a where a: "mont_add u (rep (m mod 8)) (rep (Suc m mod 8)) = scale a (rep (Suc (2 * m) mod 8))"
      using add [of "m mod 8"] by (auto simp only: mod_eight mod_less_divisor zero_less_numeral)
    show ?thesis
    proof (cases "even n")
      case True
      then have n: "2 * m = n" by (simp add: mn)
      have "mont_pair u n = (mont_dbl (fst (mont_pair u m)), mont_add u (fst (mont_pair u m)) (snd (mont_pair u m)))"
        using True False by (simp add: mont_pair_step mn split: prod.split)
      also have "\<dots> = (scale (q ^ 4 * c) (rep (n mod 8)), scale (q\<^sup>2 * r\<^sup>2 * a) (rep (Suc n mod 8)))"
        unfolding IH fst_conv snd_conv mont_dbl_scale mont_add_scale c a scale_scale n ..
      finally show ?thesis by blast
    next
      case odd: False
      then have n: "Suc (2 * m) = n" "2 * Suc m = Suc n" by (simp_all add: mn)
      have "mont_pair u n = (mont_add u (fst (mont_pair u m)) (snd (mont_pair u m)), mont_dbl (snd (mont_pair u m)))"
        using odd False by (simp add: mont_pair_step mn split: prod.split)
      also have "\<dots> = (scale (q\<^sup>2 * r\<^sup>2 * a) (rep (n mod 8)), scale (r ^ 4 * d) (rep (Suc n mod 8)))"
        unfolding IH fst_conv snd_conv mont_dbl_scale mont_add_scale d a scale_scale n ..
      finally show ?thesis by blast
    qed
  qed
qed

lemma less_8E:
  assumes "k < (8 :: nat)"
    and "P 0" "P 1" "P 2" "P 3" "P 4" "P 5" "P 6" "P 7"
  shows "P k"
  using less_8_cases [OF assms(1)] assms(2-) by auto

text \<open>The cycles of a point of order 8 (\<open>w = \<plusminus>1\<close> is its double), of order 4 and of order 2.\<close>

lemma mont_pair_order8:
  assumes w: "w = 1 \<or> w = - 1" and u: "u mod p25519 = u"
    and eq: "(u\<^sup>2 - 1)\<^sup>2 mod p25519 = (w * (4 * u * (u\<^sup>2 + 486662 * u + 1))) mod p25519"
    and n: "8 dvd n"
  shows "snd (fst (mont_pair u n)) = 0"
proof -
  define rep :: "nat \<Rightarrow> proj" where "rep k = [(1, 0), (u, 1), (w, 1), (1, u), (0, 1), (1, u), (w, 1), (u, 1)] ! k" for k
  have d: "mont_dbl (u, 1) = scale (4 * u * (u\<^sup>2 + 486662 * u + 1)) (w, 1)"
    "mont_dbl (1, u) = scale (4 * u * (u\<^sup>2 + 486662 * u + 1)) (w, 1)"
    "mont_dbl (w, 1) = scale (4 * w * (w\<^sup>2 + 486662 * w + 1)) (0, 1)"
    "mont_dbl (1, 0) = scale 1 (1, 0)" "mont_dbl (0, 1) = scale 1 (1, 0)"
    using eq w by (auto simp: mont_dbl_def scale_def power2_eq_square algebra_simps)
  have a: "mont_add u (u, 1) (w, 1) = scale (4 * (u - w)\<^sup>2) (1, u)"
    "mont_add u (w, 1) (1, u) = scale (4 * (u - w)\<^sup>2) (1, u)"
    "mont_add u (1, u) (w, 1) = scale (4 * (u - w)\<^sup>2) (1, u)"
    "mont_add u (w, 1) (u, 1) = scale (4 * (u - w)\<^sup>2) (1, u)"
    "mont_add u (1, 0) (u, 1) = scale (4 * u) (u, 1)" "mont_add u (u, 1) (1, 0) = scale (4 * u) (u, 1)"
    "mont_add u (0, 1) (1, u) = scale (4 * u) (u, 1)" "mont_add u (1, u) (0, 1) = scale (4 * u) (u, 1)"
    using w by (auto simp: mont_add_def scale_def power2_eq_square algebra_simps)
  have "\<exists>q r. mont_pair u n = (scale q (rep (n mod 8)), scale r (rep (Suc n mod 8)))"
  proof (rule mont_pair_cycle)
    show "\<exists>c. mont_dbl (rep k) = scale c (rep (2 * k mod 8))" if "k < 8" for k
      using that by (rule less_8E) (auto simp: rep_def d)
    show "\<exists>c. mont_add u (rep k) (rep (Suc k mod 8)) = scale c (rep (Suc (2 * k) mod 8))" if "k < 8" for k
      using that by (rule less_8E) (auto simp: rep_def a)
  qed (simp_all add: rep_def u)
  then show ?thesis using n by (auto simp: rep_def scale_def)
qed

lemma mont_pair_order4:
  assumes u: "u mod p25519 = u" and eq: "u\<^sup>2 mod p25519 = 1" and n: "8 dvd n"
  shows "snd (fst (mont_pair u n)) = 0"
proof -
  define rep :: "nat \<Rightarrow> proj" where "rep k = [(1, 0), (u, 1), (0, 1), (u, 1), (1, 0), (u, 1), (0, 1), (u, 1)] ! k" for k
  have one: "u\<^sup>2 mod p25519 = 1 mod p25519" using eq p25519_gt by simp
  have "(u\<^sup>2 - 1)\<^sup>2 mod p25519 = (1 - 1)\<^sup>2 mod p25519" by (intro mod_congs one refl)
  then have d: "mont_dbl (u, 1) = scale (4 * u * (u\<^sup>2 + 486662 * u + 1)) (0, 1)"
    "mont_dbl (1, 0) = scale 1 (1, 0)" "mont_dbl (0, 1) = scale 1 (1, 0)"
    by (simp_all add: mont_dbl_def scale_def)
  have "4 * (u\<^sup>2)\<^sup>2 mod p25519 = 4 * 1\<^sup>2 mod p25519" by (intro mod_congs one refl)
  then have a: "mont_add u (u, 1) (0, 1) = scale (4 * u ^ 3) (u, 1)"
    "mont_add u (0, 1) (u, 1) = scale (4 * u ^ 3) (u, 1)"
    "mont_add u (1, 0) (u, 1) = scale (4 * u) (u, 1)" "mont_add u (u, 1) (1, 0) = scale (4 * u) (u, 1)"
    by (auto simp: mont_add_def scale_def power2_eq_square power3_eq_cube algebra_simps)
  have "\<exists>q r. mont_pair u n = (scale q (rep (n mod 8)), scale r (rep (Suc n mod 8)))"
  proof (rule mont_pair_cycle)
    show "\<exists>c. mont_dbl (rep k) = scale c (rep (2 * k mod 8))" if "k < 8" for k
      using that by (rule less_8E) (auto simp: rep_def d)
    show "\<exists>c. mont_add u (rep k) (rep (Suc k mod 8)) = scale c (rep (Suc (2 * k) mod 8))" if "k < 8" for k
      using that by (rule less_8E) (auto simp: rep_def a)
  qed (simp_all add: rep_def u)
  then show ?thesis using n by (auto simp: rep_def scale_def)
qed

lemma mont_pair_order2: "snd (fst (mont_pair 0 n)) = 0"
proof (induction n rule: less_induct)
  case (less n)
  show ?case
  proof (cases "n = 0")
    case True
    then show ?thesis by (simp add: mont_pair.simps [of _ 0])
  next
    case False
    then show ?thesis using less [of "n div 2"]
      by (auto simp: mont_pair_step mont_dbl_def mont_add_def split: prod.split)
  qed
qed

lemma low_order_pair: "low_order u \<Longrightarrow> u mod p25519 = u \<Longrightarrow> 8 dvd n \<Longrightarrow> snd (fst (mont_pair u n)) = 0"
  unfolding low_order_def
  using mont_pair_order2 [of n] mont_pair_order4 [of u n] mont_pair_order8 [of 1 u n] mont_pair_order8 [of "- 1" u n]
  by (auto simp: mult.assoc)

lemma affine_infinity: "snd P = 0 \<Longrightarrow> affine P = 0"
proof -
  have "0 < nat (p25519 - 2)" by (simp add: p25519_def)
  then show "snd P = 0 \<Longrightarrow> affine P = 0" by (simp only: affine_def zero_power mod_0 mult_zero_right)
qed

lemma low_order_mod: "low_order (u mod p25519) \<longleftrightarrow> low_order u"
proof -
  have "(u mod p25519)\<^sup>2 mod p25519 = u\<^sup>2 mod p25519"
    "((u mod p25519)\<^sup>2 - 1)\<^sup>2 mod p25519 = (u\<^sup>2 - 1)\<^sup>2 mod p25519"
    "(4 * (u mod p25519) * ((u mod p25519)\<^sup>2 + 486662 * (u mod p25519) + 1)) mod p25519
       = (4 * u * (u\<^sup>2 + 486662 * u + 1)) mod p25519"
    "(- 4 * (u mod p25519) * ((u mod p25519)\<^sup>2 + 486662 * (u mod p25519) + 1)) mod p25519
       = (- 4 * u * (u\<^sup>2 + 486662 * u + 1)) mod p25519"
    by (intro mod_congs; simp)+
  then show ?thesis unfolding low_order_def by simp
qed

context field_package
begin

lemma x25519_low_order:
  assumes "length sc = 32" "length pt = 32" "low_order (le_int pt mod 2 ^ 255)"
  shows "x25519 F sc pt = zeros 32"
proof -
  let ?u = "le_int pt mod 2 ^ 255 mod p25519"
  have "snd (fst (mont_pair ?u (clamped sc))) = 0"
    using assms(3) clamped_bounds by (intro low_order_pair) (simp_all add: low_order_mod)
  then show ?thesis
    using assms by (simp add: x25519_montgomery affine_infinity le_bytes_eq_zeros)
qed

end

section \<open>The generator map\<close>

lemma le_int_zeros [simp]: "le_int (zeros k) = 0"
  unfolding zeros_def by (induction k) simp_all

context field_package
begin

lemma setFieldElementUint64_val:
  assumes "uint n < p25519"
  obtains x where "setFieldElementUint64 F n = Inr x" "val x = uint n"
proof -
  let ?b = "le_bytes 8 (uint n) @ zeros 24"
  obtain x where x: "fe_SetBytes F ?b = Some x" using SetBytes_ok [of ?b] by auto
  have n: "0 \<le> uint n" "uint n < 2 ^ 64" using uint_lt2p [of n] by simp_all
  then have "le_int ?b = uint n" by (simp add: le_int_append le_int_le_bytes)
  then have "val x = uint n mod 2 ^ 255 mod p25519" using SetBytes_val [OF x] by simp
  also have "\<dots> = uint n" using n assms by simp
  finally show ?thesis
    using that x by (simp add: setFieldElementUint64_def pointSize_def)
qed

lemma elligator2_body_draft:
  assumes "val two = 2" "val a = 486662" "val halfA = 243331"
  shows "val (elligator2_body F r two a halfA) = elligator_draft (val r)"
proof -
  define v where "v = fe_Negate F (fe_Multiply F (fe_Invert F (fe_Add F (fe_Multiply F two (fe_Square F r)) (fe_One F))) a)"
  define rhs where "rhs = fe_Add F (fe_Add F (fe_Multiply F (fe_Square F v) v) (fe_Multiply F a (fe_Square F v))) v"
  have inv: "val (fe_Invert F (fe_Add F (fe_Multiply F two (fe_Square F r)) (fe_One F)))
      = (1 + 2 * (val r)\<^sup>2) ^ nat (p25519 - 2) mod p25519"
    by (simp add: val_Invert val_simps assms mod_simps power_mod power2_eq_square add.commute)
  have v: "val v = elligator_v (val r)"
    unfolding v_def elligator_v_def val_Negate val_Multiply inv assms mod_minus_eq
    by (simp only: mult_minus_left mult.commute)
  have rhs: "val rhs = (val v ^ 3 + 486662 * (val v)\<^sup>2 + val v) mod p25519"
    by (simp add: rhs_def val_simps assms mod_simps, simp add: power2_eq_square power3_eq_cube algebra_simps)
  have sq: "snd (fe_SqrtRatio F rhs (fe_One F)) = (if is_square (val rhs) then 1 else 0)"
    by (rule SqrtRatio_flag) (rule val_One)
  have "is_square (val rhs) = is_square (val v ^ 3 + 486662 * (val v)\<^sup>2 + val v)"
    unfolding rhs is_square_def by simp
  then show ?thesis
    unfolding elligator2_body_def Let_def v_def [symmetric] rhs_def [symmetric]
    by (simp add: sq Equal_val Select_0 Select_1 val_simps assms elligator_draft_def v [symmetric]
          quadratic_character_def Let_def rhs mod_simps)
qed

lemma elligator2_draft:
  assumes "length b = 32"
  shows "elligator2Curve25519 F b = Inr (le_bytes 32 (elligator_draft (le_int b mod 2 ^ 255 mod p25519)))"
proof -
  obtain r where r: "fe_SetBytes F b = Some r" using SetBytes_ok [OF assms] ..
  obtain two where two: "setFieldElementUint64 F 2 = Inr two" "val two = 2"
    using setFieldElementUint64_val [of 2] by (auto simp: p25519_def)
  obtain a where a: "setFieldElementUint64 F 486662 = Inr a" "val a = 486662"
    using setFieldElementUint64_val [of 486662] by (auto simp: p25519_def)
  obtain halfA where h: "setFieldElementUint64 F 243331 = Inr halfA" "val halfA = 243331"
    using setFieldElementUint64_val [of 243331] by (auto simp: p25519_def)
  have "elligator2Curve25519 F b = Inr (fe_Bytes F (elligator2_body F r two a halfA))"
    unfolding elligator2Curve25519_def by (simp add: r two a h)
  then show ?thesis
    using two a h by (simp add: Bytes_val elligator2_body_draft SetBytes_val [OF r])
qed

end

section \<open>Properties\<close>

text \<open>
  C13: \<open>x25519ScalarMult\<close> is the Montgomery ladder: over any implementation of the field package, it
  returns the 32-byte encoding of the affine u-coordinate of the scalar multiple of the point
  with u-coordinate \<open>pt mod 2 ^ 255\<close>, for the clamped scalar (a multiple of 8 between
  \<open>2 ^ 254\<close> and \<open>2 ^ 255\<close>); it changes no existing array and wipes its copy of the scalar.
\<close>

theorem x25519ScalarMult_montgomery:
  assumes "field_package F val" "length (contents m sc) = 32" "length (contents m pt) = 32"
  shows "run_state (x25519ScalarMult F sc pt) m =
      (Inr (Some (length (arrs m) + 1)),
       m\<lparr>arrs := arrs m @ [zeros 32,
         le_bytes 32 (affine (fst (mont_pair (le_int (contents m pt) mod 2 ^ 255 mod p25519)
           (clamped (contents m sc)))))]\<rparr>) \<and>
    2 ^ 254 \<le> clamped (contents m sc) \<and> clamped (contents m sc) < 2 ^ 255 \<and> 8 dvd clamped (contents m sc)"
  using field_lengths.run_x25519ScalarMult [OF field_package.axioms(1) [OF assms(1)] assms(2,3)]
    field_package.x25519_montgomery [OF assms] clamped_bounds by simp

theorem x25519ScalarMult_montgomery_witness:
  "fst (run_state (x25519ScalarMult int_field (Some 0) (Some 1))
      \<lparr>arrs = [zeros 32, 9 # zeros 31], readers = []\<rparr>) = Inr (Some 3) \<and>
   2 ^ 254 \<le> clamped (zeros 32)"
  using x25519ScalarMult_montgomery [OF int_fe.field_package_axioms,
      of "\<lparr>arrs = [zeros 32, 9 # zeros 31], readers = []\<rparr>" "Some 0" "Some 1"]
  by simp

text \<open>
  C22: the generator of a session is the draft's map (Appendix A.5) of the first 32 bytes of the
  SHA-512 hash of the generator string, over any implementation of the field package: the
  constant-time selections of \<open>elligator2Curve25519\<close> compute \<open>\<epsilon> v - (1 - \<epsilon>) A / 2\<close>, the
  case where \<open>v\<close> is a root of the curve polynomial included; no branch of it panics. The generator
  string and the hash are wiped.
\<close>

theorem calculateGenerator_draft:
  assumes "field_package F val"
  shows "run_state (calculateGenerator F prs ci sid) m =
      (let gs = generatorString (bytes_of dsiX25519) (contents m prs) (contents m ci) (contents m sid) 128
       in (Inr (Some (length (arrs m) + 2)),
           m\<lparr>arrs := arrs m @ [zeros (length gs), zeros 64,
             le_bytes 32 (elligator_draft (le_int (take 32 (sha512 gs)) mod 2 ^ 255 mod p25519))]\<rparr>))"
  unfolding field_lengths.run_calculateGenerator [OF field_package.axioms(1) [OF assms(1)]]
  by (simp add: Let_def generator_bytes_def pointSize_def sha512BlockSize_def
      field_package.elligator2_draft [OF assms(1)])

theorem calculateGenerator_draft_witness:
  "fst (run_state (calculateGenerator int_field (Some 0) None (Some 1))
      \<lparr>arrs = [[1, 2, 3], [4]], readers = []\<rparr>) = Inr (Some 4)"
  using calculateGenerator_draft [OF int_fe.field_package_axioms,
      of "Some 0" None "Some 1" "\<lparr>arrs = [[1, 2, 3], [4]], readers = []\<rparr>"]
  by (simp add: Let_def)

end
