(* ===== verification/Peer_Share.thy ===== *)
theory Peer_Share
  imports Montgomery
begin

text \<open>
  Peer public shares (\<^verbatim>\<open>src/peer_share.go\<close>): the length check, the verified scalar multiplication
  that refuses the neutral element, the validation of a share with a fixed public scalar, and
  the mapping of the internal errors to the exported ones.
\<close>

type_synonym peerShareRole = string

definition initiatorPeerShare :: peerShareRole where "initiatorPeerShare = ''initiator''"
definition responderPeerShare :: peerShareRole where "responderPeerShare = ''responder''"

definition peerShareValidationScalar :: bytes where
  "peerShareValidationScalar =
     [0x01, 0, 0, 0, 0, 0, 0, 0,
      0, 0, 0, 0, 0, 0, 0, 0,
      0, 0, 0, 0, 0, 0, 0, 0,
      0, 0, 0, 0, 0, 0, 0, 0]"

definition wrapError :: "peerShareRole \<Rightarrow> fault \<Rightarrow> fault" where
  "wrapError r f =
     (case f of
        Panic p \<Rightarrow> Panic p
      | Error err \<Rightarrow>
          if errors_Is err ErrPeerShareEncoding
          then Error (Errorf [W (Sentinel ErrAbort), Lit '': invalid '', Lit r, Lit '' share: '', W (Sentinel ErrPeerShareEncoding)])
          else if errors_Is err ErrPeerShareIdentity
          then Error (Errorf [W (Sentinel ErrAbort), Lit '': invalid '', Lit r, Lit '' share: '', W (Sentinel ErrPeerShareIdentity)])
          else Error err)"

definition validatePublicShareLength :: "bytes \<Rightarrow> unit res" where
  "validatePublicShareLength encoded =
     (if length encoded \<noteq> pointSize
      then Inl (Error (wrapf ErrAbort '': invalid peer share length''))
      else Inr ())"

definition scalarMultVFY :: "'e field_ops \<Rightarrow> slice \<Rightarrow> slice \<Rightarrow> ('z mem_scheme, slice res) state" where
  "scalarMultVFY F s encoded = do {
     enc \<leftarrow> load encoded;
     case validatePublicShareLength enc of
       Inl err \<Rightarrow> State_Monad.return (Inl err)
     | Inr _ \<Rightarrow> do {
         r \<leftarrow> scalarMult F s encoded;
         case r of
           Inl err \<Rightarrow> State_Monad.return (Inl err)
         | Inr out \<Rightarrow> do {
             outb \<leftarrow> load out;
             if hmac_Equal outb identityEncoding
             then State_Monad.return (Inl (Error (Errorf [W (Sentinel ErrAbort),
                    Lit '': neutral-element shared secret: '', W (Sentinel ErrPeerShareIdentity)])))
             else State_Monad.return (Inr out) } } }"

text \<open>
  The package variable \<^verbatim>\<open>peerShareValidationScalar\<close> is a slice of a public constant; it appears as
  an array that the call reads.
\<close>

definition validatePublicShare :: "'e field_ops \<Rightarrow> slice \<Rightarrow> ('z mem_scheme, unit res) state" where
  "validatePublicShare F encoded = do {
     enc \<leftarrow> load encoded;
     case validatePublicShareLength enc of
       Inl err \<Rightarrow> State_Monad.return (Inl err)
     | Inr _ \<Rightarrow> do {
         s \<leftarrow> alloc peerShareValidationScalar;
         r \<leftarrow> scalarMultVFY F s encoded;
         case r of
           Inl err \<Rightarrow> State_Monad.return (Inl err)
         | Inr out \<Rightarrow> do { clearBytes out; State_Monad.return (Inr ()) } } }"

definition validate :: "'e field_ops \<Rightarrow> peerShareRole \<Rightarrow> slice \<Rightarrow> ('z mem_scheme, unit res) state" where
  "validate F r encoded = do {
     v \<leftarrow> validatePublicShare F encoded;
     case v of
       Inl err \<Rightarrow> State_Monad.return (Inl (wrapError r err))
     | Inr _ \<Rightarrow> State_Monad.return (Inr ()) }"

definition sharedSecret :: "'e field_ops \<Rightarrow> peerShareRole \<Rightarrow> slice \<Rightarrow> slice \<Rightarrow> ('z mem_scheme, slice res) state" where
  "sharedSecret F r s encoded = do {
     k \<leftarrow> scalarMultVFY F s encoded;
     case k of
       Inl err \<Rightarrow> State_Monad.return (Inl (wrapError r err))
     | Inr k \<Rightarrow> State_Monad.return (Inr k) }"

section \<open>What the checks decide\<close>

text \<open>The errors a peer share can cause.\<close>

definition length_fault :: fault where
  "length_fault = Error (wrapf ErrAbort '': invalid peer share length'')"

definition identity_fault :: "peerShareRole \<Rightarrow> fault" where
  "identity_fault r = Error (Errorf [W (Sentinel ErrAbort), Lit '': invalid '', Lit r, Lit '' share: '', W (Sentinel ErrPeerShareIdentity)])"

lemma identity_fault_Is [is_simps]:
  "fault_Is (identity_fault r) s \<longleftrightarrow> s = ErrAbort \<or> s = ErrPeerShareIdentity"
  by (auto simp: identity_fault_def)

lemma length_fault_Is [is_simps]: "fault_Is length_fault s \<longleftrightarrow> s = ErrAbort"
  by (auto simp: length_fault_def)

lemma wrapError_length: "wrapError r (Error (wrapf ErrAbort msg)) = Error (wrapf ErrAbort msg)"
  by (simp add: wrapError_def)

lemma clamped_validation_scalar: "clamped peerShareValidationScalar = 2 ^ 254"
  by (simp add: clamped_def peerShareValidationScalar_def)

lemma length_validation_scalar [simp]: "length peerShareValidationScalar = 32"
  by (simp add: peerShareValidationScalar_def)

lemma identityEncoding_eq: "identityEncoding = zeros 32"
  by (simp add: identityEncoding_def pointSize_def)

context field_lengths
begin

lemma run_scalarMultVFY:
  assumes "length (contents m s) = 32" "length (contents m e) = 32"
  shows "run_state (scalarMultVFY F s e) m =
    (if x25519 F (contents m s) (contents m e) = zeros 32
     then (Inl (Error (Errorf [W (Sentinel ErrAbort), Lit '': neutral-element shared secret: '', W (Sentinel ErrPeerShareIdentity)])),
           m\<lparr>arrs := arrs m @ [zeros 32, zeros 32]\<rparr>)
     else (Inr (Some (length (arrs m) + 1)),
           m\<lparr>arrs := arrs m @ [zeros 32, x25519 F (contents m s) (contents m e)]\<rparr>))"
  using assms
  by (simp add: scalarMultVFY_def run_simps validatePublicShareLength_def pointSize_def scalarMult_def
      run_x25519ScalarMult hmac_Equal_def identityEncoding_eq nth_append)

lemma run_sharedSecret:
  assumes "length (contents m s) = 32" "length (contents m e) = 32"
  shows "run_state (sharedSecret F r s e) m =
    (if x25519 F (contents m s) (contents m e) = zeros 32
     then (Inl (identity_fault r), m\<lparr>arrs := arrs m @ [zeros 32, zeros 32]\<rparr>)
     else (Inr (Some (length (arrs m) + 1)),
           m\<lparr>arrs := arrs m @ [zeros 32, x25519 F (contents m s) (contents m e)]\<rparr>))"
  using assms
  by (simp add: sharedSecret_def run_scalarMultVFY wrapError_def identity_fault_def)

lemma run_validate:
  assumes "live m e"
  shows "run_state (validate F r e) m =
    (if length (contents m e) \<noteq> 32 then (Inl length_fault, m)
     else if x25519 F peerShareValidationScalar (contents m e) = zeros 32
     then (Inl (identity_fault r), m\<lparr>arrs := arrs m @ [peerShareValidationScalar, zeros 32, zeros 32]\<rparr>)
     else (Inr (), m\<lparr>arrs := arrs m @ [peerShareValidationScalar, zeros 32, zeros 32]\<rparr>))"
proof -
  have "contents (m\<lparr>arrs := arrs m @ [b]\<rparr>) e = contents m e" for b
    using assms by (cases e) (simp_all add: nth_append)
  then show ?thesis
    by (simp add: validate_def validatePublicShare_def run_simps validatePublicShareLength_def pointSize_def
        run_scalarMultVFY wrapError_def identity_fault_def length_fault_def nth_append new_arrays)
qed

end

section \<open>Properties\<close>

text \<open>
  C14: a share of low order is refused. If the u-coordinate a 32-byte share encodes (bit 255
  ignored, non-canonical encodings included) belongs to a point whose order divides 8, then
  \<open>validate\<close> fails, and so does \<open>sharedSecret\<close> with every scalar: the fixed validation scalar clamps
  to \<open>2 ^ 254\<close>, and every clamped scalar is a multiple of 8. The error wraps \<open>ErrAbort\<close> and
  \<open>ErrPeerShareIdentity\<close>.
\<close>

theorem low_order_share_rejected:
  assumes "field_package F val" "live m e" "length (contents m e) = 32" "length (contents m s) = 32"
    and "low_order (le_int (contents m e) mod 2 ^ 255)"
  shows "fst (run_state (validate F r e) m) = Inl (identity_fault r) \<and>
    fst (run_state (sharedSecret F r s e) m) = Inl (identity_fault r) \<and>
    fault_Is (identity_fault r) ErrAbort \<and> fault_Is (identity_fault r) ErrPeerShareIdentity \<and>
    clamped peerShareValidationScalar = 2 ^ 254"
  using assms field_lengths.run_validate [OF field_package.axioms(1) [OF assms(1)] assms(2)]
    field_lengths.run_sharedSecret [OF field_package.axioms(1) [OF assms(1)] assms(4,3)]
    field_package.x25519_low_order [OF assms(1) _ assms(3,5)]
  by (simp add: is_simps clamped_validation_scalar)

text \<open>A point of order 8.\<close>

lemma low_order_8: "low_order 325606250916557431795983626356110631294008115727848805560023387167927233504"
proof -
  let ?u = "325606250916557431795983626356110631294008115727848805560023387167927233504 :: int"
  have "(?u\<^sup>2 - 1)\<^sup>2 - 4 * ?u * (?u\<^sup>2 + 486662 * ?u + 1) = p25519 *
    194143136140007337336210960475718465120191904149403582097435810204941944026818958291345282925425589821289200390486022450716163361771631655792317059696710811941387784500963434756838184763254521072418627561984446233552728165"
    unfolding p25519_def power2_eq_square by code_simp
  then have "p25519 dvd (?u\<^sup>2 - 1)\<^sup>2 - 4 * ?u * (?u\<^sup>2 + 486662 * ?u + 1)" by (rule dvdI)
  then have "(?u\<^sup>2 - 1)\<^sup>2 mod p25519 = (4 * ?u * (?u\<^sup>2 + 486662 * ?u + 1)) mod p25519"
    by (simp only: mod_eq_dvd_iff)
  then show ?thesis unfolding low_order_def by (rule disjI2 [OF disjI2 [OF disjI1]])
qed

theorem low_order_share_rejected_witness:
  "fst (run_state (validate int_field initiatorPeerShare (Some 0))
     \<lparr>arrs = [le_bytes 32 325606250916557431795983626356110631294008115727848805560023387167927233504, zeros 32],
      readers = []\<rparr>) = Inl (identity_fault initiatorPeerShare)"
proof -
  define e where "e = le_bytes 32 325606250916557431795983626356110631294008115727848805560023387167927233504"
  have "length e = 32" by (simp add: e_def)
  moreover have "le_int e mod 2 ^ 255 = 325606250916557431795983626356110631294008115727848805560023387167927233504"
    unfolding e_def le_int_le_bytes by simp
  then have "low_order (le_int e mod 2 ^ 255)" by (simp only: low_order_8)
  ultimately show ?thesis
    unfolding e_def [symmetric]
    using low_order_share_rejected [OF int_fe.field_package_axioms,
        of "\<lparr>arrs = [e, zeros 32], readers = []\<rparr>" "Some 0" "Some 1" initiatorPeerShare]
    by simp
qed



end
