(* ===== verification/Memory_Logic.thy ===== *)
theory Memory_Logic
  imports Go_Memory
begin

text \<open>
  Reasoning about allocation and wiping. \<open>grows m m'\<close>: only new arrays were added.
  \<open>kept m m'\<close>: the arrays of \<open>m\<close> are unchanged in \<open>m'\<close>. \<open>residue m m' S P\<close>: every array that is
  new in \<open>m'\<close> is zero, is the array of a slice in \<open>S\<close>, or has contents in \<open>P\<close>. The three compose
  along a sequence of operations, so each operation is specified once.
\<close>

definition grows :: "'z mem_scheme \<Rightarrow> 'z mem_scheme \<Rightarrow> bool" where
  "grows m m' \<longleftrightarrow> (\<exists>B. m' = m\<lparr>arrs := arrs m @ B\<rparr>)"

definition kept :: "'z mem_scheme \<Rightarrow> 'y mem_scheme \<Rightarrow> bool" where
  "kept m m' \<longleftrightarrow> length (arrs m) \<le> length (arrs m') \<and> (\<forall>a < length (arrs m). arrs m' ! a = arrs m ! a)"

definition residue :: "'z mem_scheme \<Rightarrow> 'y mem_scheme \<Rightarrow> slice set \<Rightarrow> bytes set \<Rightarrow> bool" where
  "residue m m' S P \<longleftrightarrow>
     (\<forall>a. length (arrs m) \<le> a \<longrightarrow> a < length (arrs m') \<longrightarrow>
        wiped (arrs m' ! a) \<or> Some a \<in> S \<or> arrs m' ! a \<in> P)"

fun fresh :: "'z mem_scheme \<Rightarrow> slice \<Rightarrow> bool" where
  "fresh m None \<longleftrightarrow> True"
| "fresh m (Some a) \<longleftrightarrow> length (arrs m) \<le> a"

text \<open>Slices no two of which share an array.\<close>

fun separate :: "slice list \<Rightarrow> bool" where
  "separate [] \<longleftrightarrow> True"
| "separate (s # ss) \<longleftrightarrow> (s \<noteq> None \<longrightarrow> s \<notin> set ss) \<and> separate ss"

lemma contents_cong: "arrs m = arrs m' \<Longrightarrow> contents m s = contents m' s"
  by (cases s) simp_all

lemma live_cong: "arrs m = arrs m' \<Longrightarrow> live m s = live m' s"
  by (cases s) simp_all

section \<open>Growing\<close>

lemma growsI [intro]: "grows m (m\<lparr>arrs := arrs m @ B\<rparr>)"
  by (auto simp: grows_def)

lemma grows_refl [simp]: "grows m m"
  using growsI [of m "[]"] by simp

lemma grows_trans: "grows m m' \<Longrightarrow> grows m' m'' \<Longrightarrow> grows m m''"
  by (force simp: grows_def)

lemma grows_live: "grows m m' \<Longrightarrow> live m s \<Longrightarrow> live m' s"
  by (cases s) (auto simp: grows_def)

lemma grows_contents: "grows m m' \<Longrightarrow> live m s \<Longrightarrow> contents m' s = contents m s"
  by (cases s) (auto simp: grows_def nth_append)

lemma grows_readers: "grows m m' \<Longrightarrow> readers m' = readers m"
  by (auto simp: grows_def)

lemma grows_more: "grows m m' \<Longrightarrow> mem.more m' = mem.more m"
  by (auto simp: grows_def)

lemma grows_length: "grows m m' \<Longrightarrow> length (arrs m) \<le> length (arrs m')"
  by (auto simp: grows_def)

lemma grows_kept: "grows m m' \<Longrightarrow> kept m m'"
  by (auto simp: grows_def kept_def nth_append)

lemmas grows_facts = grows_live grows_contents grows_readers grows_more

section \<open>Older arrays\<close>

lemma kept_refl [simp]: "kept m m"
  by (simp add: kept_def)

lemma kept_trans: "kept m m' \<Longrightarrow> kept m' m'' \<Longrightarrow> kept m m''"
  by (simp add: kept_def)

lemma kept_append: "arrs m' = arrs m @ B \<Longrightarrow> kept m m'"
  by (simp add: kept_def nth_append)

lemma kept_contents: "kept m m' \<Longrightarrow> live m s \<Longrightarrow> contents m' s = contents m s \<and> live m' s"
  by (cases s) (auto simp: kept_def)

lemma kept_cong: "arrs m' = arrs n' \<Longrightarrow> kept m m' \<longleftrightarrow> kept m n'"
  by (simp add: kept_def)

lemma kept_clear:
  assumes "kept m m'" "fresh m s" "arrs n = clear_at s (arrs m')"
  shows "kept m n"
  using assms by (cases s) (auto simp: kept_def nth_clear_at)

lemma fresh_mono: "length (arrs m) \<le> length (arrs m') \<Longrightarrow> fresh m' s \<Longrightarrow> fresh m s"
  by (cases s) auto

lemma fresh_not_live: "fresh m s \<Longrightarrow> live m t \<Longrightarrow> s \<noteq> None \<Longrightarrow> s \<noteq> t"
  by (cases s; cases t) auto

section \<open>New arrays\<close>

lemma residue_refl [simp]: "residue m m S P"
  by (simp add: residue_def)

lemma residue_mono: "residue m m' S P \<Longrightarrow> S \<subseteq> S' \<Longrightarrow> P \<subseteq> P' \<Longrightarrow> residue m m' S' P'"
  by (auto simp: residue_def)

lemma residue_trans:
  assumes "residue m m' S P" "residue m' m'' S' P'" "kept m' m''"
  shows "residue m m'' (S \<union> S') (P \<union> P')"
  unfolding residue_def
proof (intro allI impI)
  fix a assume a: "length (arrs m) \<le> a" "a < length (arrs m'')"
  show "wiped (arrs m'' ! a) \<or> Some a \<in> S \<union> S' \<or> arrs m'' ! a \<in> P \<union> P'"
  proof (cases "a < length (arrs m')")
    case True
    with a assms show ?thesis by (auto simp: residue_def kept_def)
  next
    case False
    with a assms(2) show ?thesis by (auto simp: residue_def not_less)
  qed
qed

lemma residue_append:
  assumes "arrs m' = arrs m @ B"
    and "\<And>i. i < length B \<Longrightarrow> wiped (B ! i) \<or> Some (length (arrs m) + i) \<in> S \<or> B ! i \<in> P"
  shows "residue m m' S P"
  unfolding residue_def
proof (intro allI impI)
  fix a assume "length (arrs m) \<le> a" "a < length (arrs m')"
  then have "a = length (arrs m) + (a - length (arrs m))" "a - length (arrs m) < length B"
    using assms(1) by auto
  then show "wiped (arrs m' ! a) \<or> Some a \<in> S \<or> arrs m' ! a \<in> P"
    using assms(2) [of "a - length (arrs m)"] assms(1) by (simp add: nth_append)
qed

lemma residue_clear:
  assumes "residue m m' S P" "arrs n = clear_at s (arrs m')"
  shows "residue m n (S - {s}) P"
  using assms by (auto simp: residue_def nth_clear_at)

lemma residue_cong: "arrs m' = arrs n' \<Longrightarrow> residue m m' S P \<longleftrightarrow> residue m n' S P"
  by (simp add: residue_def)

lemma residue_publish: "residue m m' (insert t S) P \<Longrightarrow> residue m m' S (insert (contents m' t) P)"
  unfolding residue_def by (metis contents.simps(2) insert_iff)

lemma residue_add_kept:
  assumes "residue m m' S P" "kept m' m''" "residue m' m'' S' P'" "S \<union> S' \<subseteq> S''" "P \<union> P' \<subseteq> P''"
  shows "residue m m'' S'' P''"
  using residue_mono [OF residue_trans [OF assms(1,3,2)]] assms(4,5) .

text \<open>Arrays that hold only copies of given slices.\<close>

lemma residue_public:
  assumes "residue m m' S {}" "arrs m' = arrs m @ B" "\<forall>t \<in> S. contents m' t \<in> P"
  shows "\<forall>b \<in> set B. wiped b \<or> b \<in> P"
proof
  fix b assume "b \<in> set B"
  then obtain i where i: "i < length B" "b = B ! i" by (auto simp: in_set_conv_nth)
  let ?a = "length (arrs m) + i"
  have b: "arrs m' ! ?a = b" using i assms(2) by (simp add: nth_append)
  moreover have "wiped (arrs m' ! ?a) \<or> Some ?a \<in> S"
    using assms(1,2) i unfolding residue_def by (metis empty_iff le_add1 length_append nat_add_left_cancel_less)
  ultimately have "wiped b \<or> Some ?a \<in> S" by simp
  then show "wiped b \<or> b \<in> P" using assms(3) b by force
qed

lemma residue_append_public:
  assumes "arrs m' = arrs m @ B" "\<forall>b \<in> set B. wiped b \<or> b \<in> P"
  shows "residue m m' {} P"
  using assms by (intro residue_append [of _ _ B]) auto

lemma residue_publish_set:
  assumes "residue m m' S P" "S \<subseteq> S' \<union> T" "\<forall>t \<in> T. contents m' t \<in> P'" "P \<subseteq> P'"
  shows "residue m m' S' P'"
  unfolding residue_def
proof (intro allI impI)
  fix a assume "length (arrs m) \<le> a" "a < length (arrs m')"
  with assms(1) have "wiped (arrs m' ! a) \<or> Some a \<in> S \<or> arrs m' ! a \<in> P" by (simp add: residue_def)
  then show "wiped (arrs m' ! a) \<or> Some a \<in> S' \<or> arrs m' ! a \<in> P'"
    using assms(2,3,4) by (metis UnE contents.simps(2) subsetD)
qed

section \<open>Wiping several slices\<close>

text \<open>Several slices wiped one after the other.\<close>

definition clear_all :: "slice list \<Rightarrow> bytes list \<Rightarrow> bytes list" where
  "clear_all ss A = fold clear_at ss A"

lemma length_clear_all [simp]: "length (clear_all ss A) = length A"
  unfolding clear_all_def by (induction ss arbitrary: A) simp_all

lemma nth_clear_all: "i < length A \<Longrightarrow>
    clear_all ss A ! i = (if Some i \<in> set ss then zeros (length (A ! i)) else A ! i)"
  unfolding clear_all_def by (induction ss arbitrary: A) (auto simp: nth_clear_at)

lemma residue_clear_all:
  assumes "residue m m' S P" "arrs n = clear_all ss (arrs m')"
  shows "residue m n (S - set ss) P"
  using assms by (auto simp: residue_def nth_clear_all)

lemma kept_clear_all:
  assumes "kept m m'" "\<forall>s \<in> set ss. fresh m s" "arrs n = clear_all ss (arrs m')"
  shows "kept m n"
  using assms by (auto simp: kept_def nth_clear_all)

lemma contents_clear:
  "live m s \<Longrightarrow> s = None \<or> s \<noteq> t \<Longrightarrow> contents (m\<lparr>arrs := clear_at t (arrs m)\<rparr>) s = contents m s"
  by (cases s) (auto simp: nth_clear_at)

lemma contents_clear_all:
  "live m s \<Longrightarrow> s = None \<or> s \<notin> set ts \<Longrightarrow> contents (m\<lparr>arrs := clear_all ts (arrs m)\<rparr>) s = contents m s"
  by (cases s) (auto simp: nth_clear_all)

lemma live_length: "length (arrs m) = length (arrs m') \<Longrightarrow> live m s \<longleftrightarrow> live m' s"
  by (cases s) simp_all

text \<open>Only the arrays differ.\<close>

definition same_tables :: "'z mem_scheme \<Rightarrow> 'z mem_scheme \<Rightarrow> bool" where
  "same_tables m m' \<longleftrightarrow> m' = m\<lparr>arrs := arrs m'\<rparr>"

lemma same_tables_refl [simp]: "same_tables m m"
  by (simp add: same_tables_def)

lemma same_tables_update [simp]: "same_tables m (m\<lparr>arrs := A\<rparr>)"
  by (simp add: same_tables_def)

lemma same_tables_trans: "same_tables m m' \<Longrightarrow> same_tables m' m'' \<Longrightarrow> same_tables m m''"
  unfolding same_tables_def by (metis mem.update_convs(1) mem.surjective mem.select_convs(1))

lemma grows_same_tables: "grows m m' \<Longrightarrow> same_tables m m'"
  by (auto simp: grows_def)

lemma clear_twice:
  assumes "w' = w4\<lparr>arrs := clear_at x (clear_at y (arrs w4))\<rparr>" "kept w w4" "fresh w x" "fresh w y" "residue w w4 S P"
  shows "kept w w'" "residue w w' (S - {x, y}) P"
proof -
  have "arrs w' = clear_all [y, x] (arrs w4)" by (simp add: assms(1) clear_all_def)
  then show "kept w w'" "residue w w' (S - {x, y}) P"
    using assms kept_clear_all [OF assms(2), of "[y, x]" w'] residue_clear_all [OF assms(5), of w' "[y, x]"]
    by (auto simp: insert_commute)
qed

lemma clear_twice_contents:
  assumes "w' = w4\<lparr>arrs := clear_at x (clear_at y (arrs w4))\<rparr>" "live w4 t" "t = None \<or> t \<notin> {x, y}"
  shows "live w' t" "contents w' t = contents w4 t"
  using assms by (cases t; auto simp: nth_clear_at)+

section \<open>Wiping one slice and adding arrays\<close>

lemma clear_alloc_old:
  assumes "m' = m\<lparr>arrs := clear_at s (arrs m) @ B\<rparr>" "live m t"
  shows "live m' t" "t = None \<or> t \<noteq> s \<Longrightarrow> contents m' t = contents m t"
  using assms by (cases t; auto simp: nth_append nth_clear_at)+

lemma clear_alloc_kept:
  assumes "arrs m' = clear_at s (arrs m1) @ B" "kept m m1" "fresh m s"
  shows "kept m m'"
  using assms by (cases s) (auto simp: kept_def nth_append nth_clear_at)

lemma clear_alloc_residue:
  assumes "arrs m' = clear_at s (arrs m1) @ B" "residue m m1 S P" "length (arrs m) \<le> length (arrs m1)"
    and "\<And>i. i < length B \<Longrightarrow> wiped (B ! i) \<or> Some (length (arrs m1) + i) \<in> S' \<or> B ! i \<in> P'"
  shows "residue m m' ((S - {s}) \<union> S') (P \<union> P')"
proof -
  let ?m1 = "m1\<lparr>arrs := clear_at s (arrs m1)\<rparr>"
  have "residue m ?m1 (S - {s}) P" by (rule residue_clear [OF assms(2)]) simp
  moreover have "residue ?m1 m' S' P'" by (rule residue_append [of _ _ B]) (use assms(1,4) in simp_all)
  moreover have "kept ?m1 m'" by (rule kept_append) (simp add: assms(1))
  ultimately show ?thesis by (rule residue_trans)
qed

section \<open>Cloning\<close>

fun clones :: "slice list \<Rightarrow> ('z mem_scheme, slice list) state" where
  "clones [] = State_Monad.return []"
| "clones (s # ss) = do { t \<leftarrow> clone s; ts \<leftarrow> clones ss; State_Monad.return (t # ts) }"

lemma clone_spec:
  assumes "live m s"
  obtains t m' where "run_state (clone s) m = (t, m')" "grows m m'" "live m' t" "fresh m t"
    "contents m' t = contents m s" "residue m m' {t} {}" "t = None \<longleftrightarrow> s = None"
proof (cases s)
  case None
  with that [of None m] show ?thesis by (simp add: run_simps)
next
  case (Some a)
  let ?m = "m\<lparr>arrs := arrs m @ [arrs m ! a]\<rparr>"
  have "residue m ?m {Some (length (arrs m))} {}" by (rule residue_append [of _ _ "[arrs m ! a]"]) auto
  with Some that [of "Some (length (arrs m))" ?m] show ?thesis
    by (auto simp: run_simps)
qed

lemma clones_spec:
  assumes "\<forall>s \<in> set ss. live m s"
  obtains ts m' where "run_state (clones ss) m = (ts, m')" "grows m m'" "length ts = length ss"
    "map (contents m') ts = map (contents m) ss" "\<forall>t \<in> set ts. live m' t \<and> fresh m t" "separate ts"
    "residue m m' (set ts) {}" "list_all2 (\<lambda>t s. t = None \<longleftrightarrow> s = None) ts ss"
  using assms
proof (induction ss arbitrary: m thesis)
  case Nil
  then show ?case by simp
next
  case (Cons s ss)
  obtain t m1 where t: "run_state (clone s) m = (t, m1)" "grows m m1" "live m1 t" "fresh m t"
    "contents m1 t = contents m s" "residue m m1 {t} {}" "t = None \<longleftrightarrow> s = None"
    using clone_spec [of m s] Cons.prems(2) by auto
  have ss: "\<forall>s \<in> set ss. live m1 s" "map (contents m1) ss = map (contents m) ss"
    using Cons.prems(2) t(2) by (auto simp: grows_live grows_contents)
  obtain ts m2 where ts: "run_state (clones ss) m1 = (ts, m2)" "grows m1 m2" "length ts = length ss"
    "map (contents m2) ts = map (contents m1) ss" "\<forall>t \<in> set ts. live m2 t \<and> fresh m1 t" "separate ts"
    "residue m1 m2 (set ts) {}" "list_all2 (\<lambda>t s. t = None \<longleftrightarrow> s = None) ts ss"
    using Cons.IH [of m1] ss(1) by blast
  have "residue m m2 (set (t # ts)) {}"
    using residue_trans [OF t(6) ts(7) grows_kept [OF ts(2)]] by simp
  moreover have "fresh m u" if "u \<in> set ts" for u
    using that ts(5) fresh_mono grows_length [OF t(2)] by blast
  moreover have "t \<notin> set ts" if "t \<noteq> None"
    using that ts(5) fresh_not_live [of m1 t t] t(3) by auto
  ultimately show ?case
    using Cons.prems(1) [of "t # ts" m2] t ts ss grows_trans [OF t(2) ts(2)]
    by (auto simp: grows_live grows_contents)
qed

end
