(* ===== verification/Transcript.thy ===== *)
theory Transcript
  imports Crypto Memory_Logic
begin

text \<open>
  The initiator-responder transcript (\<^verbatim>\<open>src/transcript.go\<close>). An \<open>irTranscript\<close> value holds slices of
  arrays it owns; methods on a value receive a copy of the slices, \<open>clear\<close> works through a pointer
  and returns the record with nil slices. What the transcript stands for is \<open>ir_transcript\<close>.
\<close>

record irTranscript =
  t_transcript :: slice
  t_ya :: slice
  t_ada :: slice
  t_yb :: slice
  t_adb :: slice

text \<open>\<^verbatim>\<open>append(transcript, lvCat(yb, adb)...)\<close> extends a full slice, so it moves to a new array.\<close>

definition newIRTranscript :: "slice \<Rightarrow> slice \<Rightarrow> slice \<Rightarrow> slice \<Rightarrow> ('z mem_scheme, irTranscript) state" where
  "newIRTranscript ya ada yb adb = do {
     ya \<leftarrow> clone ya;
     ada \<leftarrow> clone ada;
     yb \<leftarrow> clone yb;
     adb \<leftarrow> clone adb;
     yab \<leftarrow> load ya; adab \<leftarrow> load ada;
     transcript \<leftarrow> alloc (lvCat [yab, adab]);
     ybb \<leftarrow> load yb; adbb \<leftarrow> load adb;
     tail \<leftarrow> alloc (lvCat [ybb, adbb]);
     trb \<leftarrow> load transcript; tailb \<leftarrow> load tail;
     transcript \<leftarrow> alloc (trb @ tailb);
     State_Monad.return
       \<lparr>t_transcript = transcript, t_ya = ya, t_ada = ada, t_yb = yb, t_adb = adb\<rparr> }"

definition irTranscript_bytes :: "irTranscript \<Rightarrow> ('z mem_scheme, slice) state" where
  "irTranscript_bytes t = clone (t_transcript t)"

definition transcriptID :: "slice \<Rightarrow> ('z mem_scheme, slice) state" where
  "transcriptID transcript = do {
     trb \<leftarrow> load transcript;
     alloc (sha512 (bytes_of ''CPaceSidOutput'' @ trb)) }"

definition irTranscript_transcriptID :: "irTranscript \<Rightarrow> ('z mem_scheme, slice) state" where
  "irTranscript_transcriptID t = transcriptID (t_transcript t)"

definition irTranscript_deriveISK :: "irTranscript \<Rightarrow> slice \<Rightarrow> slice \<Rightarrow> ('z mem_scheme, slice) state" where
  "irTranscript_deriveISK t sid k = deriveISK sid k (t_transcript t)"

definition initiatorAD :: "irTranscript \<Rightarrow> ('z mem_scheme, slice) state" where
  "initiatorAD t = clone (t_ada t)"

definition irTranscript_clear :: "irTranscript \<Rightarrow> ('z mem_scheme, irTranscript) state" where
  "irTranscript_clear t = do {
     clearBytes (t_transcript t);
     clearBytes (t_ya t);
     clearBytes (t_ada t);
     clearBytes (t_yb t);
     clearBytes (t_adb t);
     State_Monad.return
       (t\<lparr>t_transcript := None, t_ya := None, t_ada := None, t_yb := None, t_adb := None\<rparr>) }"

definition initiatorConfirmationTag :: "irTranscript \<Rightarrow> slice \<Rightarrow> slice \<Rightarrow> ('z mem_scheme, slice) state" where
  "initiatorConfirmationTag t isk sid = confirmationTag isk sid (t_ya t) (t_ada t)"

definition responderConfirmationTag :: "irTranscript \<Rightarrow> slice \<Rightarrow> slice \<Rightarrow> ('z mem_scheme, slice) state" where
  "responderConfirmationTag t isk sid = confirmationTag isk sid (t_yb t) (t_adb t)"

section \<open>What a transcript stands for\<close>

definition ir_transcript :: "bytes \<Rightarrow> bytes \<Rightarrow> bytes \<Rightarrow> bytes \<Rightarrow> bytes" where
  "ir_transcript ya ada yb adb = lvCat [ya, ada] @ lvCat [yb, adb]"

definition sid_output :: "bytes \<Rightarrow> bytes" where
  "sid_output tr = sha512 (bytes_of ''CPaceSidOutput'' @ tr)"

definition transcript_slices :: "irTranscript \<Rightarrow> slice set" where
  "transcript_slices t = {t_transcript t, t_ya t, t_ada t, t_yb t, t_adb t}"

text \<open>\<open>t\<close> is the transcript of the four values, in arrays of \<open>m\<close>.\<close>

definition is_transcript :: "'z mem_scheme \<Rightarrow> irTranscript \<Rightarrow> bytes \<Rightarrow> bytes \<Rightarrow> bytes \<Rightarrow> bytes \<Rightarrow> bool" where
  "is_transcript m t ya ada yb adb \<longleftrightarrow>
     contents m (t_transcript t) = ir_transcript ya ada yb adb \<and>
     contents m (t_ya t) = ya \<and> contents m (t_ada t) = ada \<and>
     contents m (t_yb t) = yb \<and> contents m (t_adb t) = adb \<and>
     live m (t_transcript t) \<and> live m (t_ya t) \<and> live m (t_ada t) \<and> live m (t_yb t) \<and> live m (t_adb t)"

lemma is_transcript_grows:
  "grows m m' \<Longrightarrow> is_transcript m t ya ada yb adb \<Longrightarrow> is_transcript m' t ya ada yb adb"
  by (simp add: is_transcript_def grows_facts)

lemma is_transcript_kept:
  "kept m m' \<Longrightarrow> is_transcript m t ya ada yb adb \<Longrightarrow> is_transcript m' t ya ada yb adb"
  using kept_contents [of m m'] by (simp add: is_transcript_def)

lemma length_sid_output [simp]: "length (sid_output tr) = 64"
  by (simp add: sid_output_def)

lemma ir_transcript_inject:
  assumes "list_all sliceable [ya, ada, yb, adb, ya', ada', yb', adb']"
  shows "ir_transcript ya ada yb adb = ir_transcript ya' ada' yb' adb' \<longleftrightarrow>
    ya = ya' \<and> ada = ada' \<and> yb = yb' \<and> adb = adb'"
  using assms lvCat_inject [of "[ya, ada, yb, adb]" "[ya', ada', yb', adb']"]
  by (auto simp: ir_transcript_def simp flip: lvCat_append)

section \<open>Running the operations\<close>

lemma run_newIRTranscript:
  assumes "live m ya" "live m ada" "live m yb" "live m adb"
  obtains t m' where "run_state (newIRTranscript ya ada yb adb) m = (t, m')" "grows m m'"
    "is_transcript m' t (contents m ya) (contents m ada) (contents m yb) (contents m adb)"
    "\<forall>s \<in> transcript_slices t. fresh m s"
    "residue m m' (transcript_slices t)
       {lvCat [contents m ya, contents m ada], lvCat [contents m yb, contents m adb]}"
proof -
  have "\<forall>s \<in> set [ya, ada, yb, adb]. live m s" using assms by simp
  then obtain ts m1 where c: "run_state (clones [ya, ada, yb, adb]) m = (ts, m1)" "grows m m1"
    "length ts = length [ya, ada, yb, adb]"
    "map (contents m1) ts = map (contents m) [ya, ada, yb, adb]" "\<forall>t \<in> set ts. live m1 t \<and> fresh m t"
    "residue m m1 (set ts) {}"
    by (rule clones_spec)
  then obtain s1 s2 s3 s4 where ts: "ts = [s1, s2, s3, s4]"
    by (auto simp: length_Suc_conv)
  let ?l = "lvCat [contents m ya, contents m ada]" and ?r = "lvCat [contents m yb, contents m adb]"
  let ?m = "m1\<lparr>arrs := arrs m1 @ [?l, ?r, ?l @ ?r]\<rparr>"
  let ?tr = "Some (length (arrs m1) + 2)"
  let ?t = "\<lparr>t_transcript = ?tr, t_ya = s1, t_ada = s2, t_yb = s3, t_adb = s4\<rparr>"
  have live: "live m1 s1" "live m1 s2" "live m1 s3" "live m1 s4" and fresh: "fresh m s1" "fresh m s2" "fresh m s3" "fresh m s4"
    and cont: "contents m1 s1 = contents m ya" "contents m1 s2 = contents m ada"
      "contents m1 s3 = contents m yb" "contents m1 s4 = contents m adb"
    using c(4,5) unfolding ts by simp_all
  have later: "contents (m1\<lparr>arrs := arrs m1 @ B\<rparr>) s = contents m1 s" if "live m1 s" for s B
    using that growsI grows_contents by blast
  have "run_state (newIRTranscript ya ada yb adb) m = (?t, ?m)"
    using c(1) unfolding ts
    by (auto simp: newIRTranscript_def run_simps later live cont new_arrays split: prod.splits)
  moreover have "grows m ?m" using c(2) growsI grows_trans by blast
  moreover have "is_transcript ?m ?t (contents m ya) (contents m ada) (contents m yb) (contents m adb)"
    using later live grows_live [OF growsI, of m1]
    by (simp add: is_transcript_def ir_transcript_def cont nth_append)
  moreover have "\<forall>s \<in> transcript_slices ?t. fresh m s"
    using fresh grows_length [OF c(2)] by (simp add: transcript_slices_def)
  moreover have "residue m ?m (transcript_slices ?t) {?l, ?r}"
  proof -
    have "residue m1 ?m {?tr} {?l, ?r}"
      by (rule residue_append [of _ _ "[?l, ?r, ?l @ ?r]"]) (auto simp: less_Suc_eq numeral_eq_Suc)
    from residue_trans [OF c(6) this kept_append] show ?thesis
      by (rule residue_mono) (auto simp: ts transcript_slices_def)
  qed
  ultimately show ?thesis by (rule that)
qed

lemma run_transcriptID [run_simps]:
  "run_state (transcriptID tr) m =
     (Some (length (arrs m)), m\<lparr>arrs := arrs m @ [sid_output (contents m tr)]\<rparr>)"
  by (simp add: transcriptID_def run_simps sid_output_def)

text \<open>
  Building the transcript and deriving the ISK from it, as both roles do before anything else
  happens: whatever \<open>rest\<close> of the body follows runs in a grown memory where the new ISK is the only
  new array that is neither zero nor public.
\<close>

lemma run_transcript_isk:
  assumes "live m ya" "live m ada" "live m yb" "live m adb" "live m sid" "live m k"
  obtains tr a m' where
    "\<And>rest. run_state (do { tr \<leftarrow> newIRTranscript ya ada yb adb; isk \<leftarrow> irTranscript_deriveISK tr sid k; rest tr isk }) m =
       run_state (rest tr (Some a)) m'"
    "grows m m'"
    "is_transcript m' tr (contents m ya) (contents m ada) (contents m yb) (contents m adb)"
    "live m' (Some a)" "fresh m (Some a)" "Some a \<notin> transcript_slices tr" "\<forall>s \<in> transcript_slices tr. fresh m s"
    "contents m' (Some a) = isk_bytes (contents m sid) (contents m k)
       (ir_transcript (contents m ya) (contents m ada) (contents m yb) (contents m adb))"
    "residue m m' (insert (Some a) (transcript_slices tr))
       {lvCat [contents m ya, contents m ada], lvCat [contents m yb, contents m adb]}"
proof -
  obtain tr m1 where t: "run_state (newIRTranscript ya ada yb adb) m = (tr, m1)" "grows m m1"
    "is_transcript m1 tr (contents m ya) (contents m ada) (contents m yb) (contents m adb)"
    "\<forall>s \<in> transcript_slices tr. fresh m s"
    "residue m m1 (transcript_slices tr)
       {lvCat [contents m ya, contents m ada], lvCat [contents m yb, contents m adb]}"
    by (rule run_newIRTranscript [OF assms(1-4)])
  obtain z1 z2 where isk: "run_state (irTranscript_deriveISK tr sid k) m1 = (Some (length (arrs m1) + 3),
      m1\<lparr>arrs := arrs m1 @ [zeros z1, zeros z2, zeros 64,
         isk_bytes (contents m1 sid) (contents m1 k) (contents m1 (t_transcript tr))]\<rparr>)"
    by (simp add: irTranscript_deriveISK_def run_deriveISK Let_def)
  let ?i = "isk_bytes (contents m1 sid) (contents m1 k) (contents m1 (t_transcript tr))"
  let ?m = "m1\<lparr>arrs := arrs m1 @ [zeros z1, zeros z2, zeros 64, ?i]\<rparr>" and ?a = "length (arrs m1) + 3"
  have "run_state (do { tr \<leftarrow> newIRTranscript ya ada yb adb; isk \<leftarrow> irTranscript_deriveISK tr sid k; rest tr isk }) m =
      run_state (rest tr (Some ?a)) ?m" for rest :: "irTranscript \<Rightarrow> slice \<Rightarrow> ('a mem_scheme, 'b) state"
    by (simp add: t(1) isk)
  moreover have g: "grows m1 ?m" by (rule growsI)
  moreover have "residue m1 ?m {Some ?a} {}"
    by (rule residue_append [of _ _ "[zeros z1, zeros z2, zeros 64, ?i]"]) (auto simp: less_Suc_eq numeral_eq_Suc)
  then have "residue m ?m (insert (Some ?a) (transcript_slices tr))
       {lvCat [contents m ya, contents m ada], lvCat [contents m yb, contents m adb]}"
    by (rule residue_add_kept [OF t(5) grows_kept [OF g]]) auto
  moreover have "live m1 s" if "s \<in> transcript_slices tr" for s
    using that t(3) by (auto simp: is_transcript_def transcript_slices_def)
  then have "Some ?a \<notin> transcript_slices tr" by force
  moreover have "?i = isk_bytes (contents m sid) (contents m k)
      (ir_transcript (contents m ya) (contents m ada) (contents m yb) (contents m adb))"
    using t(2,3) assms by (simp add: grows_contents is_transcript_def)
  ultimately show ?thesis
    using t grows_trans [OF t(2) g] grows_length [OF t(2)] is_transcript_grows [OF g t(3)]
    by (intro that [of tr ?a ?m]) (simp_all add: nth_append)
qed

definition cleared_transcript :: irTranscript where
  "cleared_transcript = \<lparr>t_transcript = None, t_ya = None, t_ada = None, t_yb = None, t_adb = None\<rparr>"

definition transcript_list :: "irTranscript \<Rightarrow> slice list" where
  "transcript_list t = [t_transcript t, t_ya t, t_ada t, t_yb t, t_adb t]"

lemma set_transcript_list [simp]: "set (transcript_list t) = transcript_slices t"
  by (simp add: transcript_list_def transcript_slices_def)

lemma run_irTranscript_clear [run_simps]:
  "run_state (irTranscript_clear t) m =
     (cleared_transcript, m\<lparr>arrs := clear_all (transcript_list t) (arrs m)\<rparr>)"
  by (simp add: irTranscript_clear_def run_simps clear_all_def transcript_list_def cleared_transcript_def)

section \<open>Properties\<close>

text \<open>
  C21: \<open>newIRTranscript\<close> builds, in new arrays, the transcript of its four arguments:
  \<open>lv(ya) lv(ada) lv(yb) lv(adb)\<close> with a copy of each field, none of which shares an array with
  the arguments; and two transcripts have equal bytes only when all four fields agree.
\<close>

theorem newIRTranscript_faithful:
  assumes "live m ya" "live m ada" "live m yb" "live m adb"
    and "list_all sliceable [contents m ya, contents m ada, contents m yb, contents m adb, ya', ada', yb', adb']"
  shows "\<exists>t m'. run_state (newIRTranscript ya ada yb adb) m = (t, m') \<and> grows m m' \<and>
    is_transcript m' t (contents m ya) (contents m ada) (contents m yb) (contents m adb) \<and>
    (\<forall>s \<in> transcript_slices t. fresh m s) \<and>
    (contents m' (t_transcript t) = ir_transcript ya' ada' yb' adb' \<longleftrightarrow>
       contents m ya = ya' \<and> contents m ada = ada' \<and> contents m yb = yb' \<and> contents m adb = adb')"
proof -
  obtain t m' where t: "run_state (newIRTranscript ya ada yb adb) m = (t, m')" "grows m m'"
    "is_transcript m' t (contents m ya) (contents m ada) (contents m yb) (contents m adb)"
    "\<forall>s \<in> transcript_slices t. fresh m s"
    by (rule run_newIRTranscript [OF assms(1-4)])
  then have "contents m' (t_transcript t) = ir_transcript (contents m ya) (contents m ada) (contents m yb) (contents m adb)"
    by (simp add: is_transcript_def)
  with t ir_transcript_inject [OF assms(5)] show ?thesis by auto
qed

theorem newIRTranscript_faithful_witness:
  "\<exists>t m'. run_state (newIRTranscript (Some 0) None (Some 1) (Some 0)) \<lparr>arrs = [[1, 2], [3]], readers = []\<rparr> = (t, m') \<and>
     contents m' (t_transcript t) \<noteq> ir_transcript [1] [2] [3] [1, 2]"
  using newIRTranscript_faithful [of "\<lparr>arrs = [[1, 2], [3]], readers = []\<rparr>" "Some 0" None "Some 1" "Some 0" "[1]" "[2]" "[3]" "[1, 2]"]
  by (auto simp: sliceable_def)

text \<open>
  \<open>clear\<close> on a transcript zeroes every array the transcript owns, touches no other array, leaves
  nil slices, and a second call changes nothing.
\<close>

theorem irTranscript_clear_wipes:
  "arrs (snd (run_state (irTranscript_clear t) m)) =
     map (\<lambda>a. if Some a \<in> transcript_slices t then zeros (length (arrs m ! a)) else arrs m ! a)
       [0..<length (arrs m)] \<and>
   transcript_slices (fst (run_state (irTranscript_clear t) m)) = {None} \<and>
   (let (t', m') = run_state (irTranscript_clear t) m in run_state (irTranscript_clear t') m' = (t', m'))"
proof -
  have "clear_all (transcript_list t) (arrs m) =
      map (\<lambda>a. if Some a \<in> transcript_slices t then zeros (length (arrs m ! a)) else arrs m ! a) [0..<length (arrs m)]"
    by (rule nth_equalityI) (simp_all add: nth_clear_all)
  moreover have "clear_all (transcript_list cleared_transcript) A = A" for A
    by (simp add: clear_all_def transcript_list_def cleared_transcript_def)
  ultimately show ?thesis
    by (simp add: run_simps) (simp add: transcript_slices_def cleared_transcript_def)
qed

end
