(* ===== verification/Framing.thy ===== *)
theory Framing
  imports Caps
begin

text \<open>
  Message framing (\<^verbatim>\<open>src/framing.go\<close>): the catalogue of the three wire messages, the encoder,
  the reader with its offset, and the decoders. A slice expression \<^verbatim>\<open>buf[lo:hi]\<close> out of range
  and a wrong number of fields are panics of the model.
\<close>

definition currentSuite :: byte where "currentSuite = 0x02"
definition wireFormatV1 :: byte where "wireFormatV1 = 0xc1"
definition wireSuite :: byte where "wireSuite = currentSuite"
definition roleA :: byte where "roleA = 0x01"
definition roleB :: byte where "roleB = 0x02"
definition roleC :: byte where "roleC = 0x03"
definition maxMessageLength :: nat where "maxMessageLength = 128 * 2 ^ 10"
definition maxLEB128BytesForField :: nat where "maxLEB128BytesForField = 3"
definition messageHeaderSize :: nat where "messageHeaderSize = 3"

definition maxValidMessageALength :: int where
  "maxValidMessageALength = int messageHeaderSize +
     int maxLEB128BytesForField + maxSessionIDLength +
     int maxLEB128BytesForField + int pointSize +
     int maxLEB128BytesForField + maxAssociatedDataLength"

definition maxValidMessageBLength :: int where
  "maxValidMessageBLength = int messageHeaderSize +
     int maxLEB128BytesForField + int pointSize +
     int maxLEB128BytesForField + maxAssociatedDataLength +
     int maxLEB128BytesForField + int tagSize"

definition maxValidMessageCLength :: int where
  "maxValidMessageCLength = int messageHeaderSize + int maxLEB128BytesForField + int tagSize"

record messageA =
  a_sid :: bytes
  a_ya :: bytes
  a_ada :: bytes

record messageB =
  b_yb :: bytes
  b_adb :: bytes
  b_tag :: bytes

record messageC =
  c_tag :: bytes

record messageSpec =
  spec_name :: string
  spec_role :: byte
  spec_fields :: "packageCapField list"

definition messageASpec :: messageSpec where
  "messageASpec = \<lparr>spec_name = ''A'', spec_role = roleA,
     spec_fields = [messageASessionIDCap, messageAPointCap, messageAAssociatedDataCap]\<rparr>"

definition messageBSpec :: messageSpec where
  "messageBSpec = \<lparr>spec_name = ''B'', spec_role = roleB,
     spec_fields = [messageBPointCap, messageBAssociatedDataCap, messageBTagCap]\<rparr>"

definition messageCSpec :: messageSpec where
  "messageCSpec = \<lparr>spec_name = ''C'', spec_role = roleC, spec_fields = [messageCTagCap]\<rparr>"

definition messageFramingCatalogue :: "messageSpec list" where
  "messageFramingCatalogue = [messageASpec, messageBSpec, messageCSpec]"

definition encode :: "messageSpec \<Rightarrow> bytes list \<Rightarrow> bytes res" where
  "encode spec flds =
     (if length flds \<noteq> length (spec_fields spec)
      then Inl (Panic ''cpace: internal message framing field count mismatch'')
      else Inr (foldl appendLengthValue ([] @ [wireFormatV1, wireSuite, spec_role spec]) flds))"

text \<open>The capacity \<open>encode\<close> reserves before it appends.\<close>

definition encode_capacity :: "bytes list \<Rightarrow> int" where
  "encode_capacity flds =
     foldl (\<lambda>capacity field. capacity + lengthValueLen (int (length field)))
       (int messageHeaderSize) flds"

definition encodeMessageA :: "bytes \<Rightarrow> bytes \<Rightarrow> bytes \<Rightarrow> bytes res" where
  "encodeMessageA sid ya ada = encode messageASpec [sid, ya, ada]"

definition encodeMessageB :: "bytes \<Rightarrow> bytes \<Rightarrow> bytes \<Rightarrow> bytes res" where
  "encodeMessageB yb adb tag = encode messageBSpec [yb, adb, tag]"

definition encodeMessageC :: "bytes \<Rightarrow> bytes res" where
  "encodeMessageC tag = encode messageCSpec [tag]"

record messageReader =
  rd_buf :: bytes
  rd_off :: nat

definition newMessageReader :: "bytes \<Rightarrow> messageSpec \<Rightarrow> messageReader res" where
  "newMessageReader inp spec =
     (if length inp < 3 then Inl (Error (wrapf ErrMessage '': truncated header''))
      else if inp ! 0 \<noteq> wireFormatV1 then Inl (Error (wrapf ErrMessage '': wrong wire format version''))
      else if inp ! 1 \<noteq> wireSuite then Inl (Error (wrapf ErrMessage '': wrong suite''))
      else if inp ! 2 \<noteq> spec_role spec then Inl (Error (wrapf ErrMessage '': wrong role''))
      else if length inp > maxMessageLength then Inl (Error (wrapf ErrMessage '': message too large''))
      else Inr \<lparr>rd_buf = inp, rd_off = 3\<rparr>)"

text \<open>Go's slice expression \<^verbatim>\<open>buf[lo:hi]\<close>, with its run-time check.\<close>

definition go_slice :: "bytes \<Rightarrow> int \<Rightarrow> int \<Rightarrow> bytes res" where
  "go_slice buf lo hi =
     (if 0 \<le> lo \<and> lo \<le> hi \<and> hi \<le> int (length buf)
      then Inr (take (nat (hi - lo)) (drop (nat lo) buf))
      else Inl (Panic ''slice bounds out of range''))"

definition readField :: "messageReader \<Rightarrow> packageCapField \<Rightarrow> (bytes \<times> messageReader) res" where
  "readField r spec =
     (case readLEB128 (rd_buf r) (rd_off r) maxLEB128BytesForField of
        Inl e \<Rightarrow> Inl e
      | Inr (w, nxt) \<Rightarrow>
          let n = sint w in
          (case validateMessageLength spec n of
             Inl e \<Rightarrow> Inl e
           | Inr _ \<Rightarrow>
               if int (length (rd_buf r)) - int nxt < n
               then Inl (Error (Errorf [W (Sentinel ErrMessage), Lit '': truncated '', Lit (cap_name spec), Lit '' field'']))
               else (case go_slice (rd_buf r) (int nxt) (int nxt + n) of
                       Inl e \<Rightarrow> Inl e
                     | Inr out \<Rightarrow> Inr (out, r\<lparr>rd_off := nat (int nxt + n)\<rparr>))))"

definition reader_done :: "messageReader \<Rightarrow> unit res" where
  "reader_done r =
     (if rd_off r \<noteq> length (rd_buf r) then Inl (Error (wrapf ErrMessage '': trailing data''))
      else Inr ())"

fun readFields :: "messageReader \<Rightarrow> packageCapField list \<Rightarrow> (bytes list \<times> messageReader) res" where
  "readFields r [] = Inr ([], r)"
| "readFields r (f # fs) =
     (case readField r f of
        Inl e \<Rightarrow> Inl e
      | Inr (x, r') \<Rightarrow>
          (case readFields r' fs of Inl e \<Rightarrow> Inl e | Inr (xs, r'') \<Rightarrow> Inr (x # xs, r'')))"

definition decode :: "messageSpec \<Rightarrow> bytes \<Rightarrow> bytes list res" where
  "decode spec inp =
     (case newMessageReader inp spec of
        Inl e \<Rightarrow> Inl e
      | Inr r \<Rightarrow>
          (case readFields r (spec_fields spec) of
             Inl e \<Rightarrow> Inl e
           | Inr (flds, r') \<Rightarrow>
               (case reader_done r' of Inl e \<Rightarrow> Inl e | Inr _ \<Rightarrow> Inr flds)))"

definition decodeMessageA :: "bytes \<Rightarrow> messageA res" where
  "decodeMessageA inp =
     (case decode messageASpec inp of
        Inl e \<Rightarrow> Inl e
      | Inr flds \<Rightarrow> Inr \<lparr>a_sid = flds ! 0, a_ya = flds ! 1, a_ada = flds ! 2\<rparr>)"

definition decodeMessageB :: "bytes \<Rightarrow> messageB res" where
  "decodeMessageB inp =
     (case decode messageBSpec inp of
        Inl e \<Rightarrow> Inl e
      | Inr flds \<Rightarrow> Inr \<lparr>b_yb = flds ! 0, b_adb = flds ! 1, b_tag = flds ! 2\<rparr>)"

definition decodeMessageC :: "bytes \<Rightarrow> messageC res" where
  "decodeMessageC inp =
     (case decode messageCSpec inp of
        Inl e \<Rightarrow> Inl e
      | Inr flds \<Rightarrow> Inr \<lparr>c_tag = flds ! 0\<rparr>)"

section \<open>The wire form of a message\<close>

text \<open>
  \<open>frame\<close> is the wire form of a list of fields: the three header bytes and the length-value
  concatenation; \<open>wireA\<close>, \<open>wireB\<close> and \<open>wireC\<close> are those of the three messages, \<open>okA\<close>, \<open>okB\<close> and
  \<open>okC\<close> that their fields are within the caps. A field fits when its cap is below what the
  three-byte length prefix can say.
\<close>

definition frame :: "messageSpec \<Rightarrow> bytes list \<Rightarrow> bytes" where
  "frame spec xs = [wireFormatV1, wireSuite, spec_role spec] @ lvCat xs"

definition fits :: "packageCapField \<Rightarrow> bool" where
  "fits f \<longleftrightarrow> cap_length f < 2 ^ 21"

definition wireA :: "messageA \<Rightarrow> bytes" where
  "wireA m = frame messageASpec [a_sid m, a_ya m, a_ada m]"

definition wireB :: "messageB \<Rightarrow> bytes" where
  "wireB m = frame messageBSpec [b_yb m, b_adb m, b_tag m]"

definition wireC :: "messageC \<Rightarrow> bytes" where
  "wireC m = frame messageCSpec [c_tag m]"

definition okA :: "messageA \<Rightarrow> bool" where
  "okA m \<longleftrightarrow> within_cap messageASessionIDCap (a_sid m) \<and> within_cap messageAPointCap (a_ya m) \<and>
     within_cap messageAAssociatedDataCap (a_ada m)"

definition okB :: "messageB \<Rightarrow> bool" where
  "okB m \<longleftrightarrow> within_cap messageBPointCap (b_yb m) \<and>
     within_cap messageBAssociatedDataCap (b_adb m) \<and> within_cap messageBTagCap (b_tag m)"

definition okC :: "messageC \<Rightarrow> bool" where
  "okC m \<longleftrightarrow> within_cap messageCTagCap (c_tag m)"

lemma length_frame [size_simps]: "length (frame spec xs) = 3 + length (lvCat xs)"
  by (simp add: frame_def)

lemma within_cap_less: "fits f \<Longrightarrow> within_cap f d \<Longrightarrow> length d < 2 ^ 21"
  by (auto simp: fits_def within_cap_def split: if_splits)

lemma small_sliceable: "length d < 2 ^ 21 \<Longrightarrow> sliceable d"
  by (simp add: sliceable_def)

lemma encode_eq:
  "encode spec xs =
     (if length xs = length (spec_fields spec) then Inr (frame spec xs)
      else Inl (Panic ''cpace: internal message framing field count mismatch''))"
proof -
  have "foldl appendLengthValue dst xs = dst @ lvCat xs" for dst
    unfolding lvCat_eq by (induction xs arbitrary: dst) (simp_all add: appendLengthValue_eq)
  then show ?thesis by (simp add: encode_def frame_def)
qed

section \<open>Reading one field and a list of fields\<close>

lemma readField_step:
  assumes "readLEB128 (rd_buf r) (rd_off r) 3 = Inr (word_of_nat v, nxt)"
    and "v < 2 ^ 21" and "nxt \<le> length (rd_buf r)"
  shows "readField r f =
    (case validateMessageLength f (int v) of
       Inl e \<Rightarrow> Inl e
     | Inr _ \<Rightarrow>
         if length (rd_buf r) - nxt < v
         then Inl (Error (Errorf [W (Sentinel ErrMessage), Lit '': truncated '', Lit (cap_name f), Lit '' field'']))
         else Inr (take v (drop nxt (rd_buf r)), r\<lparr>rd_off := nxt + v\<rparr>))"
proof -
  have "sint (word_of_nat v :: u64) = int v"
    using assms(2) by (intro sint_word_of_nat) simp
  moreover have "int (length (rd_buf r)) - int nxt < int v \<longleftrightarrow> length (rd_buf r) - nxt < v"
    using assms(3) by linarith
  moreover have "\<not> length (rd_buf r) - nxt < v \<Longrightarrow>
      go_slice (rd_buf r) (int nxt) (int nxt + int v) = Inr (take v (drop nxt (rd_buf r)))"
    using assms(3) by (simp add: go_slice_def)
  moreover have "nat (int nxt + int v) = nxt + v" by simp
  ultimately show ?thesis
    using assms(1)
    by (cases "validateMessageLength f (int v)"; cases "length (rd_buf r) - nxt < v")
      (simp_all add: readField_def maxLEB128BytesForField_def)
qed

lemma drop_prefix:
  assumes "drop off buf = xs @ rest" and "xs \<noteq> []"
  shows "drop (off + length xs) buf = rest" and "off + length xs \<le> length buf"
    and "length rest = length buf - (off + length xs)"
proof -
  show d: "drop (off + length xs) buf = rest"
    using arg_cong [OF assms(1), of "drop (length xs)"] by (simp add: add.commute)
  have "length buf - off = length xs + length rest"
    using arg_cong [OF assms(1), of length] by simp
  moreover have "0 < length xs" using assms(2) by simp
  ultimately show "off + length xs \<le> length buf" by linarith
  show "length rest = length buf - (off + length xs)" using d by (metis length_drop)
qed

lemma readField_prependLen:
  assumes "fits f" and "within_cap f d" and "drop (rd_off r) (rd_buf r) = prependLen d @ rest"
  shows "readField r f = Inr (d, r\<lparr>rd_off := rd_off r + length (prependLen d)\<rparr>)"
proof -
  have small: "length d < 2 ^ 21" using within_cap_less assms(1,2) .
  then have pre: "prependLen d = leb (length d) @ d"
    by (simp add: prependLen_eq small_sliceable)
  from assms(3) have split: "drop (rd_off r) (rd_buf r) = leb (length d) @ (d @ rest)"
    by (simp add: pre)
  note off = drop_prefix [OF split leb_nonempty]
  have "readLEB128 (rd_buf r) (rd_off r) 3 =
      Inr (word_of_nat (length d), rd_off r + length (leb (length d)))"
    using small split by (intro readLEB128_leb) simp_all
  note step = readField_step [OF this small off(2), of f]
  have "validateMessageLength f (int (length d)) = Inr ()"
    using assms(2) by (simp add: validateMessageLength_ok)
  moreover have "\<not> length (rd_buf r) - (rd_off r + length (leb (length d))) < length d"
    by (simp flip: off(3))
  ultimately show ?thesis
    using step by (simp add: pre off(1) add.assoc)
qed

lemma readField_cases:
  assumes "fits f"
  obtains (ok) d rest where "within_cap f d" "drop (rd_off r) (rd_buf r) = prependLen d @ rest"
      "readField r f = Inr (d, r\<lparr>rd_off := rd_off r + length (prependLen d)\<rparr>)"
    | (err) e where "readField r f = Inl (Error e)" "errors_Is e ErrMessage"
proof (cases "readLEB128 (rd_buf r) (rd_off r) 3")
  case (Inl f')
  then obtain e where "f' = Error e" "errors_Is e ErrMessage"
    using readLEB128_error by blast
  with Inl show ?thesis
    by (intro err [of e]) (simp_all add: readField_def maxLEB128BytesForField_def)
next
  case (Inr p)
  then obtain n off' where p: "readLEB128 (rd_buf r) (rd_off r) 3 = Inr (n, off')"
    by (cases p) auto
  obtain v rest where v: "v < 2 ^ (7 * 3)" "n = word_of_nat v"
      "drop (rd_off r) (rd_buf r) = leb v @ rest" "off' = rd_off r + length (leb v)"
    using readLEB128_canonical [OF p] by auto
  note off = drop_prefix [OF v(3) leb_nonempty, folded v(4)]
  have small: "v < 2 ^ 21" using v(1) by simp
  note step = readField_step [OF p [unfolded v(2)] small off(2), of f]
  show ?thesis
  proof (cases "validateMessageLength f (int v)")
    case (Inl e)
    then show ?thesis
      using validateMessageLength_error [OF Inl] step by (auto intro: err)
  next
    case (Inr u)
    define d where "d = take v rest"
    show ?thesis
    proof (cases "length (rd_buf r) - off' < v")
      case True
      then show ?thesis using step Inr by (auto intro: err)
    next
      case False
      then have len: "length d = v" using off(3) by (simp add: d_def)
      then have "within_cap f d" using Inr by (simp flip: validateMessageLength_ok)
      moreover have "prependLen d = leb v @ d"
        using small unfolding len [symmetric] by (simp add: prependLen_eq small_sliceable)
      then have "drop (rd_off r) (rd_buf r) = prependLen d @ drop v rest"
        using v(3) by (simp add: d_def)
      ultimately show ?thesis
        using readField_prependLen [OF assms] ok by blast
    qed
  qed
qed

text \<open>
  Reading a list of fields succeeds exactly on the length-value concatenation of fields within
  their caps, and stops behind it.
\<close>

lemma readFields_lvCat:
  assumes "list_all fits fs" and "list_all2 within_cap fs xs"
    and "drop (rd_off r) (rd_buf r) = lvCat xs @ rest"
  shows "readFields r fs = Inr (xs, r\<lparr>rd_off := rd_off r + length (lvCat xs)\<rparr>)"
  using assms
proof (induction fs arbitrary: xs r)
  case Nil
  then show ?case by (simp add: lvCat_eq)
next
  case (Cons f fs)
  then obtain y ys where xs: "xs = y # ys" and y: "within_cap f y" and ys: "list_all2 within_cap fs ys"
    by (cases xs) auto
  have split: "drop (rd_off r) (rd_buf r) = prependLen y @ (lvCat ys @ rest)"
    using Cons.prems(3) by (simp add: xs lvCat_eq)
  let ?r = "r\<lparr>rd_off := rd_off r + length (prependLen y)\<rparr>"
  have "readField r f = Inr (y, ?r)"
    using Cons.prems(1) y split by (intro readField_prependLen) auto
  moreover have "readFields ?r fs = Inr (ys, ?r\<lparr>rd_off := rd_off ?r + length (lvCat ys)\<rparr>)"
    using Cons.prems(1) ys drop_prefix(1) [OF split] by (intro Cons.IH) auto
  ultimately show ?case by (simp add: xs lvCat_eq add.assoc)
qed

lemma readFields_cases:
  assumes "list_all fits fs"
  shows "(\<exists>xs rest. list_all2 within_cap fs xs \<and> drop (rd_off r) (rd_buf r) = lvCat xs @ rest \<and>
      readFields r fs = Inr (xs, r\<lparr>rd_off := rd_off r + length (lvCat xs)\<rparr>)) \<or>
    (\<exists>e. readFields r fs = Inl (Error e) \<and> errors_Is e ErrMessage)"
  using assms
proof (induction fs arbitrary: r)
  case Nil
  then show ?case by (simp add: lvCat_eq)
next
  case (Cons f fs)
  then have f: "fits f" by simp
  from f show ?case
  proof (cases rule: readField_cases [where r = r])
    case (ok d rest)
    let ?r = "r\<lparr>rd_off := rd_off r + length (prependLen d)\<rparr>"
    have rest: "drop (rd_off ?r) (rd_buf ?r) = rest"
      using drop_prefix(1) [OF ok(2)] by simp
    from Cons.IH [of ?r] Cons.prems consider
        (good) xs rest' where "list_all2 within_cap fs xs" "rest = lvCat xs @ rest'"
          "readFields ?r fs = Inr (xs, ?r\<lparr>rd_off := rd_off ?r + length (lvCat xs)\<rparr>)"
      | (bad) e where "readFields ?r fs = Inl (Error e)" "errors_Is e ErrMessage"
      unfolding rest by auto
    then show ?thesis
    proof cases
      case good
      then have "list_all2 within_cap (f # fs) (d # xs) \<and>
          drop (rd_off r) (rd_buf r) = lvCat (d # xs) @ rest' \<and>
          readFields r (f # fs) = Inr (d # xs, r\<lparr>rd_off := rd_off r + length (lvCat (d # xs))\<rparr>)"
        using ok by (simp add: lvCat_eq add.assoc)
      then show ?thesis by blast
    next
      case bad
      then show ?thesis using ok by simp
    qed
  next
    case (err e)
    then show ?thesis by simp
  qed
qed

section \<open>Decoding is the inverse of framing\<close>

lemma list_3_header:
  "3 \<le> length xs \<Longrightarrow> xs = [xs ! 0, xs ! 1, xs ! 2] @ drop 3 xs"
  by (metis Cons_nth_drop_Suc One_nat_def append_Cons append_Nil drop0 less_le_trans
      lessI numeral_2_eq_2 numeral_3_eq_3 zero_less_numeral Suc_lessD)

lemma newMessageReader_frame:
  "length (frame spec xs) \<le> maxMessageLength \<Longrightarrow>
    newMessageReader (frame spec xs) spec = Inr \<lparr>rd_buf = frame spec xs, rd_off = 3\<rparr>"
  by (simp add: newMessageReader_def frame_def)

lemma newMessageReader_cases:
  obtains (ok) "length inp \<le> maxMessageLength"
      "inp = [wireFormatV1, wireSuite, spec_role spec] @ drop 3 inp"
      "newMessageReader inp spec = Inr \<lparr>rd_buf = inp, rd_off = 3\<rparr>"
    | (err) e where "newMessageReader inp spec = Inl (Error e)" "errors_Is e ErrMessage"
proof (cases "newMessageReader inp spec")
  case (Inl f)
  then have "\<exists>e. f = Error e \<and> errors_Is e ErrMessage"
    by (auto simp: newMessageReader_def split: if_splits)
  with Inl show ?thesis by (auto intro: err)
next
  case (Inr r)
  then show ?thesis
    using list_3_header [of inp]
    by (intro ok) (auto simp: newMessageReader_def not_less split: if_splits)
qed

lemma decode_frame:
  assumes "list_all fits (spec_fields spec)" and "list_all2 within_cap (spec_fields spec) xs"
    and "length (frame spec xs) \<le> maxMessageLength"
  shows "decode spec (frame spec xs) = Inr xs"
proof -
  have "readFields \<lparr>rd_buf = frame spec xs, rd_off = 3\<rparr> (spec_fields spec) =
      Inr (xs, \<lparr>rd_buf = frame spec xs, rd_off = 3 + length (lvCat xs)\<rparr>)"
    using readFields_lvCat [OF assms(1,2), of "\<lparr>rd_buf = frame spec xs, rd_off = 3\<rparr>" "[]"]
    by (simp add: frame_def)
  then show ?thesis
    unfolding decode_def newMessageReader_frame [OF assms(3)]
    by (simp add: reader_done_def length_frame)
qed

lemma decode_cases:
  assumes "list_all fits (spec_fields spec)"
  obtains (ok) xs where "decode spec inp = Inr xs" "list_all2 within_cap (spec_fields spec) xs"
      "inp = frame spec xs" "length inp \<le> maxMessageLength"
    | (err) e where "decode spec inp = Inl (Error e)" "errors_Is e ErrMessage"
proof (cases rule: newMessageReader_cases [of inp spec])
  case ok: ok
  let ?r = "\<lparr>rd_buf = inp, rd_off = 3\<rparr>"
  from readFields_cases [OF assms, of ?r] consider
      (good) xs rest where "list_all2 within_cap (spec_fields spec) xs" "drop 3 inp = lvCat xs @ rest"
        "readFields ?r (spec_fields spec) = Inr (xs, ?r\<lparr>rd_off := 3 + length (lvCat xs)\<rparr>)"
    | (bad) e where "readFields ?r (spec_fields spec) = Inl (Error e)" "errors_Is e ErrMessage"
    by auto
  then show ?thesis
  proof cases
    case good
    show ?thesis
    proof (cases "rest = []")
      case True
      then have inp: "inp = frame spec xs"
        using ok(2) good(2) by (simp add: frame_def)
      moreover have "decode spec inp = Inr xs"
        using ok(1) good(1) assms unfolding inp by (intro decode_frame) auto
      ultimately show ?thesis using good(1) ok(1) by (intro that(1))
    next
      case False
      have "length inp = 3 + length (drop 3 inp)"
        using arg_cong [OF ok(2), of length] by simp
      then have "3 + length (lvCat xs) \<noteq> length inp"
        using False good(2) by simp
      then show ?thesis
        using ok(3) good(3) by (intro that(2)) (auto simp: decode_def reader_done_def)
    qed
  next
    case bad
    then show ?thesis using ok(3) by (intro that(2)) (auto simp: decode_def)
  qed
next
  case err
  then show ?thesis by (intro that(2)) (auto simp: decode_def)
qed

section \<open>The three messages as one codec interface\<close>

text \<open>
  The contract the protocol code relies on: every message within the caps is read back, an
  accepted byte string is the encoding of what was read, and everything else is refused with
  an error that wraps \<open>ErrMessage\<close> (never a panic).
\<close>

locale wire_codec =
  fixes enc :: "'m \<Rightarrow> bytes"
    and dec :: "bytes \<Rightarrow> 'm res"
    and ok :: "'m \<Rightarrow> bool"
  assumes dec_enc: "ok m \<Longrightarrow> dec (enc m) = Inr m"
    and dec_sound: "dec b = Inr m \<Longrightarrow> ok m \<and> b = enc m"
    and dec_fault: "dec b = Inl f \<Longrightarrow> fault_Is f ErrMessage"
begin

lemma dec_iff: "dec b = Inr m \<longleftrightarrow> ok m \<and> b = enc m"
  using dec_enc dec_sound by blast

lemma enc_inject: "ok m \<Longrightarrow> ok m' \<Longrightarrow> enc m = enc m' \<Longrightarrow> m = m'"
  by (metis dec_enc sum.inject(2))

lemma dec_no_panic: "\<not> panics (dec b)"
  by (auto simp: panics_def dest: dec_fault split: sum.splits fault.splits)

lemma dec_total: "(\<exists>m. ok m \<and> b = enc m \<and> dec b = Inr m) \<or> (\<exists>e. dec b = Inl (Error e) \<and> errors_Is e ErrMessage)"
proof (cases "dec b")
  case (Inl f)
  then show ?thesis using dec_fault [OF Inl] by (cases f) auto
next
  case (Inr m)
  then show ?thesis using dec_sound [OF Inr] by blast
qed

end

lemma catalogue_fits: "spec \<in> set messageFramingCatalogue \<Longrightarrow> list_all fits (spec_fields spec)"
  by (auto simp: messageFramingCatalogue_def messageASpec_def messageBSpec_def messageCSpec_def
      fits_def cap_defs)

lemma length_lvCat_le:
  "list_all (\<lambda>x. length x < 2 ^ 21) xs \<Longrightarrow> length (lvCat xs) \<le> 3 * length xs + sum_list (map length xs)"
proof (induction xs)
  case Nil
  then show ?case by (simp add: lvCat_eq)
next
  case (Cons x xs)
  then have "length (leb (length x)) \<le> 3"
    by (intro length_leb_le) simp_all
  with Cons show ?case by (simp add: lvCat_eq prependLen_eq small_sliceable)
qed

lemma messageA_size:
  assumes "okA m"
  shows "int (length (wireA m)) \<le> maxValidMessageALength"
proof -
  have "length (lvCat [a_sid m, a_ya m, a_ada m]) \<le> 3 * 3 + (length (a_sid m) + length (a_ya m) + length (a_ada m))"
    using assms length_lvCat_le [of "[a_sid m, a_ya m, a_ada m]"]
    by (simp add: okA_def within_cap_def cap_defs)
  with assms show ?thesis
    by (simp add: wireA_def length_frame okA_def within_cap_def cap_defs maxValidMessageALength_def
        messageHeaderSize_def maxLEB128BytesForField_def)
qed

lemma messageB_size:
  assumes "okB m"
  shows "int (length (wireB m)) \<le> maxValidMessageBLength"
proof -
  have "length (lvCat [b_yb m, b_adb m, b_tag m]) \<le> 3 * 3 + (length (b_yb m) + length (b_adb m) + length (b_tag m))"
    using assms length_lvCat_le [of "[b_yb m, b_adb m, b_tag m]"]
    by (simp add: okB_def within_cap_def cap_defs)
  with assms show ?thesis
    by (simp add: wireB_def length_frame okB_def within_cap_def cap_defs maxValidMessageBLength_def
        messageHeaderSize_def maxLEB128BytesForField_def)
qed

lemma messageC_size:
  assumes "okC m"
  shows "int (length (wireC m)) \<le> maxValidMessageCLength"
proof -
  have "length (lvCat [c_tag m]) \<le> 3 * 1 + length (c_tag m)"
    using assms length_lvCat_le [of "[c_tag m]"]
    by (simp add: okC_def within_cap_def cap_defs)
  with assms show ?thesis
    by (simp add: wireC_def length_frame okC_def within_cap_def cap_defs maxValidMessageCLength_def
        messageHeaderSize_def maxLEB128BytesForField_def)
qed

lemma max_valid_below_cap:
  "maxValidMessageALength < int maxMessageLength"
  "maxValidMessageBLength < int maxMessageLength"
  "maxValidMessageCLength < int maxMessageLength"
  by (simp_all add: maxValidMessageALength_def maxValidMessageBLength_def maxValidMessageCLength_def
      maxMessageLength_def messageHeaderSize_def maxLEB128BytesForField_def cap_defs)

lemma spec_fits:
  "list_all fits (spec_fields messageASpec)"
  "list_all fits (spec_fields messageBSpec)"
  "list_all fits (spec_fields messageCSpec)"
  by (simp_all add: catalogue_fits messageFramingCatalogue_def)

lemma list_all2_Cons_left: "list_all2 P (x # xs) ys \<longleftrightarrow> (\<exists>z zs. ys = z # zs \<and> P x z \<and> list_all2 P xs zs)"
  by (cases ys) auto

lemma decodeMessageA_ok: "okA m \<Longrightarrow> decodeMessageA (wireA m) = Inr m"
  using messageA_size [of m] max_valid_below_cap(1)
    decode_frame [OF spec_fits(1), of "[a_sid m, a_ya m, a_ada m]"]
  by (simp add: decodeMessageA_def wireA_def okA_def messageASpec_def)

lemma decodeMessageB_ok: "okB m \<Longrightarrow> decodeMessageB (wireB m) = Inr m"
  using messageB_size [of m] max_valid_below_cap(2)
    decode_frame [OF spec_fits(2), of "[b_yb m, b_adb m, b_tag m]"]
  by (simp add: decodeMessageB_def wireB_def okB_def messageBSpec_def)

lemma decodeMessageC_ok: "okC m \<Longrightarrow> decodeMessageC (wireC m) = Inr m"
  using messageC_size [of m] max_valid_below_cap(3) decode_frame [OF spec_fits(3), of "[c_tag m]"]
  by (simp add: decodeMessageC_def wireC_def okC_def messageCSpec_def)

interpretation msgA: wire_codec wireA decodeMessageA okA
proof (unfold_locales, goal_cases)
  case (1 m)
  then show ?case by (rule decodeMessageA_ok)
next
  case (2 b m)
  with spec_fits(1) show ?case
    by (cases rule: decode_cases [where inp = b])
      (auto simp: decodeMessageA_def okA_def wireA_def messageASpec_def list_all2_Cons_left)
next
  case (3 b f)
  with spec_fits(1) show ?case
    by (cases rule: decode_cases [where inp = b]) (auto simp: decodeMessageA_def)
qed

interpretation msgB: wire_codec wireB decodeMessageB okB
proof (unfold_locales, goal_cases)
  case (1 m)
  then show ?case by (rule decodeMessageB_ok)
next
  case (2 b m)
  with spec_fits(2) show ?case
    by (cases rule: decode_cases [where inp = b])
      (auto simp: decodeMessageB_def okB_def wireB_def messageBSpec_def list_all2_Cons_left)
next
  case (3 b f)
  with spec_fits(2) show ?case
    by (cases rule: decode_cases [where inp = b]) (auto simp: decodeMessageB_def)
qed

interpretation msgC: wire_codec wireC decodeMessageC okC
proof (unfold_locales, goal_cases)
  case (1 m)
  then show ?case by (rule decodeMessageC_ok)
next
  case (2 b m)
  with spec_fits(3) show ?case
    by (cases rule: decode_cases [where inp = b])
      (auto simp: decodeMessageC_def okC_def wireC_def messageCSpec_def list_all2_Cons_left)
next
  case (3 b f)
  with spec_fits(3) show ?case
    by (cases rule: decode_cases [where inp = b]) (auto simp: decodeMessageC_def)
qed

lemma encode_wire:
  "encodeMessageA (a_sid m) (a_ya m) (a_ada m) = Inr (wireA m)"
  "encodeMessageB (b_yb n) (b_adb n) (b_tag n) = Inr (wireB n)"
  "encodeMessageC (c_tag c) = Inr (wireC c)"
  by (simp_all add: encodeMessageA_def encodeMessageB_def encodeMessageC_def encode_eq
      wireA_def wireB_def wireC_def messageASpec_def messageBSpec_def messageCSpec_def)

section \<open>Properties\<close>

text \<open>
  C15: the wire decoders accept exactly the encodings. A byte string decodes to a message if and
  only if the message's fields are within the package caps and the encoder produces that byte
  string, for each of the messages A, B and C: nothing valid is refused, no second byte string
  decodes to the same message, and no message outside the caps is produced.
\<close>

theorem wire_decode_exact:
  "(decodeMessageA b = Inr m \<longleftrightarrow> okA m \<and> encodeMessageA (a_sid m) (a_ya m) (a_ada m) = Inr b) \<and>
   (decodeMessageB b = Inr n \<longleftrightarrow> okB n \<and> encodeMessageB (b_yb n) (b_adb n) (b_tag n) = Inr b) \<and>
   (decodeMessageC b = Inr c \<longleftrightarrow> okC c \<and> encodeMessageC (c_tag c) = Inr b)"
  by (auto simp: msgA.dec_iff msgB.dec_iff msgC.dec_iff encode_wire)

text \<open>
  C16: every refusal of a wire message is an error that wraps \<open>ErrMessage\<close>; no byte string, however
  long or malformed, makes a decoder panic (no slice expression is out of range).
\<close>

theorem wire_decode_errors:
  "(case decodeMessageA b of Inl f \<Rightarrow> fault_Is f ErrMessage \<and> (\<exists>e. f = Error e) | Inr _ \<Rightarrow> True) \<and>
   (case decodeMessageB b of Inl f \<Rightarrow> fault_Is f ErrMessage \<and> (\<exists>e. f = Error e) | Inr _ \<Rightarrow> True) \<and>
   (case decodeMessageC b of Inl f \<Rightarrow> fault_Is f ErrMessage \<and> (\<exists>e. f = Error e) | Inr _ \<Rightarrow> True)"
  using msgA.dec_total [of b] msgB.dec_total [of b] msgC.dec_total [of b] by auto

text \<open>
  C37: role separation on the wire. A byte string that one of the three decoders accepts is refused
  by the other two, so a message A, B or C can never be taken for another one.
\<close>

theorem wire_role_separation:
  "\<not> (\<exists>m n. decodeMessageA b = Inr m \<and> decodeMessageB b = Inr n) \<and>
   \<not> (\<exists>m c. decodeMessageA b = Inr m \<and> decodeMessageC b = Inr c) \<and>
   \<not> (\<exists>n c. decodeMessageB b = Inr n \<and> decodeMessageC b = Inr c)"
  by (auto simp: msgA.dec_iff msgB.dec_iff msgC.dec_iff wireA_def wireB_def wireC_def frame_def
      messageASpec_def messageBSpec_def messageCSpec_def roleA_def roleB_def roleC_def)



end
