(* ===== verification/Input.thy ===== *)
theory Input
  imports Caps Framing Memory_Logic
begin

text \<open>
  Caller input (\<^verbatim>\<open>src/input.go\<close>): validation, the package-owned copies, the hand-over to the
  normalized input of a role with its channel identifier, and the wiping of both. Methods with
  a pointer receiver return the updated record; a Go \<^verbatim>\<open>byte\<close> role is a byte, so the default branch
  of the role switch is part of the model.
\<close>

definition DraftVersion :: string where "DraftVersion = ''draft-irtf-cfrg-cpace-21''"
definition suiteName :: string where "suiteName = ''CPACE-X25519-SHA512''"

record Input =
  Password :: slice
  SelfID :: slice
  PeerID :: slice
  Context :: slice
  SessionID :: slice
  LocalAssociatedData :: slice
  AllowEmptySessionID :: bool

record callerInput =
  c_password :: slice
  c_selfID :: slice
  c_peerID :: slice
  c_context :: slice
  c_sid :: slice
  c_localAD :: slice

record normalizedInput =
  n_password :: slice
  n_initiatorID :: slice
  n_responderID :: slice
  n_ci :: slice
  n_sid :: slice
  n_ad :: slice

text \<open>The loops over the required and over the capped fields: the first offending field decides.\<close>

fun requiredFields_loop :: "'z mem_scheme \<Rightarrow> (string \<times> slice) list \<Rightarrow> unit res" where
  "requiredFields_loop m [] = Inr ()"
| "requiredFields_loop m ((name, val) # rest) =
     (if length (contents m val) = 0
      then Inl (Error (Errorf [W (Sentinel ErrInvalidInput), Lit '': empty '', Lit name]))
      else requiredFields_loop m rest)"

definition validateRequiredCallerInputFields :: "'z mem_scheme \<Rightarrow> Input \<Rightarrow> unit res" where
  "validateRequiredCallerInputFields m input =
     requiredFields_loop m
       [(''password'', Password input), (''self id'', SelfID input), (''peer id'', PeerID input)]"

fun cappedFields_loop :: "'z mem_scheme \<Rightarrow> (packageCapField \<times> slice) list \<Rightarrow> unit res" where
  "cappedFields_loop m [] = Inr ()"
| "cappedFields_loop m ((cap, val) # rest) =
     (case validateInputLength cap (int (length (contents m val))) of
        Inl err \<Rightarrow> Inl err
      | Inr _ \<Rightarrow> cappedFields_loop m rest)"

definition validateCallerInputCapFields :: "'z mem_scheme \<Rightarrow> Input \<Rightarrow> unit res" where
  "validateCallerInputCapFields m input =
     cappedFields_loop m
       [(passwordCap, Password input), (selfIDCap, SelfID input), (peerIDCap, PeerID input),
        (contextCap, Context input), (sessionIDCap, SessionID input),
        (localAssociatedDataCap, LocalAssociatedData input)]"

definition acceptInput :: "Input \<Rightarrow> ('z mem_scheme, callerInput res) state" where
  "acceptInput input = do {
     m \<leftarrow> State_Monad.get;
     case validateRequiredCallerInputFields m input of
       Inl err \<Rightarrow> State_Monad.return (Inl err)
     | Inr _ \<Rightarrow>
         if length (contents m (SessionID input)) = 0 \<and> \<not> AllowEmptySessionID input
         then State_Monad.return (Inl (Error (Errorf [W (Sentinel ErrInvalidInput), Lit '': '', W (Sentinel ErrEmptySessionID)])))
         else case validateCallerInputCapFields m input of
           Inl err \<Rightarrow> State_Monad.return (Inl err)
         | Inr _ \<Rightarrow> do {
             password \<leftarrow> clone (Password input);
             selfID \<leftarrow> clone (SelfID input);
             peerID \<leftarrow> clone (PeerID input);
             context' \<leftarrow> clone (Context input);
             sid \<leftarrow> clone (SessionID input);
             localAD \<leftarrow> clone (LocalAssociatedData input);
             State_Monad.return (Inr \<lparr>c_password = password, c_selfID = selfID, c_peerID = peerID,
               c_context = context', c_sid = sid, c_localAD = localAD\<rparr>) } }"

definition callerInput_wipe :: "callerInput option \<Rightarrow> ('z mem_scheme, unit) state" where
  "callerInput_wipe c =
     (case c of
        None \<Rightarrow> State_Monad.return ()
      | Some c \<Rightarrow> do {
          clearBytes (c_password c);
          clearBytes (c_selfID c);
          clearBytes (c_peerID c);
          clearBytes (c_context c);
          clearBytes (c_sid c);
          clearBytes (c_localAD c) })"

definition normalizedInput_wipe :: "normalizedInput \<Rightarrow> ('z mem_scheme, unit) state" where
  "normalizedInput_wipe ni = do {
     clearBytes (n_password ni);
     clearBytes (n_initiatorID ni);
     clearBytes (n_responderID ni);
     clearBytes (n_ci ni);
     clearBytes (n_sid ni);
     clearBytes (n_ad ni) }"

definition initiatorInputRole :: byte where "initiatorInputRole = 0"
definition responderInputRole :: byte where "responderInputRole = 1"

definition mapTranscriptIDs :: "byte \<Rightarrow> callerInput \<Rightarrow> (slice \<times> slice) res" where
  "mapTranscriptIDs r input =
     (if r = initiatorInputRole then Inr (c_selfID input, c_peerID input)
      else if r = responderInputRole then Inr (c_peerID input, c_selfID input)
      else Inl (Panic ''cpace: internal caller input role mismatch''))"

definition buildCI :: "bytes \<Rightarrow> bytes \<Rightarrow> bytes \<Rightarrow> bytes" where
  "buildCI initiatorID responderID context' =
     lvCat [bytes_of ''CPace-Go-CI'', bytes_of DraftVersion, bytes_of suiteName,
       bytes_of ''initiator'', initiatorID, bytes_of ''responder'', responderID,
       bytes_of ''context'', context']"

definition handoff :: "callerInput \<Rightarrow> byte \<Rightarrow> ('z mem_scheme, callerInput \<times> normalizedInput res) state" where
  "handoff c role =
     (case mapTranscriptIDs role c of
        Inl f \<Rightarrow> State_Monad.return (c, Inl f)
      | Inr (initiatorID, responderID) \<Rightarrow> do {
          ib \<leftarrow> load initiatorID; rb \<leftarrow> load responderID; cb \<leftarrow> load (c_context c);
          ci \<leftarrow> alloc (buildCI ib rb cb);
          clearBytes (c_context c);
          let ni = \<lparr>n_password = c_password c, n_initiatorID = initiatorID, n_responderID = responderID,
            n_ci = ci, n_sid = c_sid c, n_ad = c_localAD c\<rparr>;
          State_Monad.return
            (c\<lparr>c_context := None, c_password := None, c_selfID := None, c_peerID := None,
               c_sid := None, c_localAD := None\<rparr>, Inr ni) })"

definition normalizeInput :: "Input \<Rightarrow> byte \<Rightarrow> ('z mem_scheme, normalizedInput res) state" where
  "normalizeInput input role = do {
     r \<leftarrow> acceptInput input;
     case r of
       Inl err \<Rightarrow> State_Monad.return (Inl err)
     | Inr caller \<Rightarrow> do {
         out \<leftarrow> handoff caller role;
         callerInput_wipe (Some (fst out));
         State_Monad.return (snd out) } }"

definition normalizeStartInput :: "Input \<Rightarrow> ('z mem_scheme, normalizedInput res) state" where
  "normalizeStartInput input = normalizeInput input initiatorInputRole"

definition normalizeRespondInput :: "Input \<Rightarrow> ('z mem_scheme, normalizedInput res) state" where
  "normalizeRespondInput input = normalizeInput input responderInputRole"

section \<open>Acceptance\<close>

definition live_input :: "'z mem_scheme \<Rightarrow> Input \<Rightarrow> bool" where
  "live_input m input \<longleftrightarrow>
     live m (Password input) \<and> live m (SelfID input) \<and> live m (PeerID input) \<and>
     live m (Context input) \<and> live m (SessionID input) \<and> live m (LocalAssociatedData input)"

definition acceptable :: "'z mem_scheme \<Rightarrow> Input \<Rightarrow> bool" where
  "acceptable m input \<longleftrightarrow>
     contents m (Password input) \<noteq> [] \<and> length (contents m (Password input)) \<le> 4096 \<and>
     contents m (SelfID input) \<noteq> [] \<and> length (contents m (SelfID input)) \<le> 4096 \<and>
     contents m (PeerID input) \<noteq> [] \<and> length (contents m (PeerID input)) \<le> 4096 \<and>
     length (contents m (Context input)) \<le> 1024 \<and>
     (contents m (SessionID input) \<noteq> [] \<or> AllowEmptySessionID input) \<and>
     length (contents m (SessionID input)) \<le> 1024 \<and>
     length (contents m (LocalAssociatedData input)) \<le> 65536"

text \<open>The error of an input that is not accepted; \<open>None\<close> when it is.\<close>

definition input_error :: "'z mem_scheme \<Rightarrow> Input \<Rightarrow> fault option" where
  "input_error m input =
     (case validateRequiredCallerInputFields m input of
        Inl err \<Rightarrow> Some err
      | Inr _ \<Rightarrow>
          if length (contents m (SessionID input)) = 0 \<and> \<not> AllowEmptySessionID input
          then Some (Error (Errorf [W (Sentinel ErrInvalidInput), Lit '': '', W (Sentinel ErrEmptySessionID)]))
          else case validateCallerInputCapFields m input of Inl err \<Rightarrow> Some err | Inr _ \<Rightarrow> None)"

lemma required_ok: "requiredFields_loop m fs = Inr () \<longleftrightarrow> (\<forall>(n, v) \<in> set fs. contents m v \<noteq> [])"
  by (induction m fs rule: requiredFields_loop.induct) auto

lemma required_error: "requiredFields_loop m fs = Inl f \<Longrightarrow> \<exists>e. f = Error e \<and> errors_Is e ErrInvalidInput"
  by (induction m fs rule: requiredFields_loop.induct) (auto split: if_splits)

lemma capped_ok: "cappedFields_loop m fs = Inr () \<longleftrightarrow>
    (\<forall>(c, v) \<in> set fs. int (length (contents m v)) \<le> cap_length c)"
  by (induction m fs rule: cappedFields_loop.induct) (auto simp: validateInputLength_def split: sum.splits if_splits)

lemma capped_error: "cappedFields_loop m fs = Inl f \<Longrightarrow> \<exists>e. f = Error e \<and> errors_Is e ErrInvalidInput"
  by (induction m fs rule: cappedFields_loop.induct)
     (auto split: sum.splits dest: validateInputLength_error)

lemma input_error_None: "input_error m input = None \<longleftrightarrow> acceptable m input"
proof -
  have r: "validateRequiredCallerInputFields m input = Inr () \<longleftrightarrow>
      contents m (Password input) \<noteq> [] \<and> contents m (SelfID input) \<noteq> [] \<and> contents m (PeerID input) \<noteq> []"
    unfolding validateRequiredCallerInputFields_def required_ok by simp
  have c: "validateCallerInputCapFields m input = Inr () \<longleftrightarrow>
      length (contents m (Password input)) \<le> 4096 \<and> length (contents m (SelfID input)) \<le> 4096 \<and>
      length (contents m (PeerID input)) \<le> 4096 \<and> length (contents m (Context input)) \<le> 1024 \<and>
      length (contents m (SessionID input)) \<le> 1024 \<and> length (contents m (LocalAssociatedData input)) \<le> 65536"
    unfolding validateCallerInputCapFields_def capped_ok by (simp add: cap_defs)
  show ?thesis
    unfolding input_error_def acceptable_def using r c by (auto split: sum.splits)
qed

lemma input_error_Is: "input_error m input = Some f \<Longrightarrow> \<exists>e. f = Error e \<and> errors_Is e ErrInvalidInput"
  unfolding input_error_def validateRequiredCallerInputFields_def validateCallerInputCapFields_def
  by (auto split: sum.splits if_splits dest: required_error capped_error
      simp del: requiredFields_loop.simps cappedFields_loop.simps)

section \<open>Running the operations\<close>

lemma run_acceptInput_error:
  "input_error m input = Some f \<Longrightarrow> run_state (acceptInput input) m = (Inl f, m)"
  by (auto simp: acceptInput_def input_error_def State_Monad.get_def split: sum.splits if_splits)

definition caller_slices :: "callerInput \<Rightarrow> slice list" where
  "caller_slices c = [c_password c, c_selfID c, c_peerID c, c_context c, c_sid c, c_localAD c]"

definition input_slices :: "Input \<Rightarrow> slice list" where
  "input_slices input = [Password input, SelfID input, PeerID input, Context input, SessionID input, LocalAssociatedData input]"

lemma run_acceptInput_ok:
  assumes "acceptable m input" "live_input m input"
  obtains c m' where "run_state (acceptInput input) m = (Inr c, m')" "grows m m'"
    "map (contents m') (caller_slices c) = map (contents m) (input_slices input)"
    "\<forall>t \<in> set (caller_slices c). live m' t \<and> fresh m t" "separate (caller_slices c)"
    "residue m m' (set (caller_slices c)) {}"
proof -
  have "\<forall>s \<in> set (input_slices input). live m s" using assms(2) by (simp add: live_input_def input_slices_def)
  then obtain ts m1 where c: "run_state (clones (input_slices input)) m = (ts, m1)" "grows m m1"
    "length ts = length (input_slices input)"
    "map (contents m1) ts = map (contents m) (input_slices input)" "\<forall>t \<in> set ts. live m1 t \<and> fresh m t"
    "separate ts" "residue m m1 (set ts) {}"
    by (rule clones_spec)
  then obtain s1 s2 s3 s4 s5 s6 where ts: "ts = [s1, s2, s3, s4, s5, s6]"
    by (auto simp: length_Suc_conv input_slices_def)
  let ?c = "\<lparr>c_password = s1, c_selfID = s2, c_peerID = s3, c_context = s4, c_sid = s5, c_localAD = s6\<rparr>"
  have e: "caller_slices ?c = ts" by (simp add: caller_slices_def ts)
  have "input_error m input = None" using assms(1) by (simp add: input_error_None)
  then have "run_state (acceptInput input) m = (Inr ?c, m1)"
    using c(1) unfolding ts
    by (auto simp: acceptInput_def input_error_def State_Monad.get_def input_slices_def split: sum.splits if_splits prod.splits)
  from this c(2) show ?thesis by (rule that) (use c in \<open>simp_all add: e\<close>)
qed

definition norm_slices :: "normalizedInput \<Rightarrow> slice list" where
  "norm_slices n = [n_password n, n_initiatorID n, n_responderID n, n_ci n, n_sid n, n_ad n]"

lemma run_normalizedInput_wipe [run_simps]:
  "run_state (normalizedInput_wipe n) m = ((), m\<lparr>arrs := clear_all (norm_slices n) (arrs m)\<rparr>)"
  by (simp add: normalizedInput_wipe_def run_simps clear_all_def norm_slices_def)

lemma run_callerInput_wipe [run_simps]:
  "run_state (callerInput_wipe (Some c)) m = ((), m\<lparr>arrs := clear_all (caller_slices c) (arrs m)\<rparr>)"
  by (simp add: callerInput_wipe_def run_simps clear_all_def caller_slices_def)

text \<open>The identities of initiator and responder, from the point of view of a role.\<close>

definition initiator_of :: "byte \<Rightarrow> Input \<Rightarrow> slice" where
  "initiator_of role input = (if role = initiatorInputRole then SelfID input else PeerID input)"

definition responder_of :: "byte \<Rightarrow> Input \<Rightarrow> slice" where
  "responder_of role input = (if role = initiatorInputRole then PeerID input else SelfID input)"

text \<open>\<open>n\<close> is the normalized form of an input in arrays that are new since \<open>m\<close> and shared with nothing.\<close>

definition normalized :: "'z mem_scheme \<Rightarrow> 'z mem_scheme \<Rightarrow> byte \<Rightarrow> Input \<Rightarrow> normalizedInput \<Rightarrow> bool" where
  "normalized m m' role input n \<longleftrightarrow>
     contents m' (n_password n) = contents m (Password input) \<and>
     contents m' (n_initiatorID n) = contents m (initiator_of role input) \<and>
     contents m' (n_responderID n) = contents m (responder_of role input) \<and>
     contents m' (n_ci n) = buildCI (contents m (initiator_of role input))
       (contents m (responder_of role input)) (contents m (Context input)) \<and>
     contents m' (n_sid n) = contents m (SessionID input) \<and>
     contents m' (n_ad n) = contents m (LocalAssociatedData input) \<and>
     (\<forall>t \<in> set (norm_slices n). live m' t \<and> fresh m t) \<and> separate (norm_slices n) \<and>
     kept m m' \<and> same_tables m m' \<and> residue m m' (set (norm_slices n)) {}"

lemma run_normalizeInput_error:
  "input_error m input = Some f \<Longrightarrow> run_state (normalizeInput input role) m = (Inl f, m)"
  by (simp add: normalizeInput_def run_acceptInput_error)

definition role_ids :: "byte \<Rightarrow> callerInput \<Rightarrow> slice \<times> slice" where
  "role_ids role c = (if role = initiatorInputRole then (c_selfID c, c_peerID c) else (c_peerID c, c_selfID c))"

lemma mapTranscriptIDs_ok: "role = initiatorInputRole \<or> role = responderInputRole \<Longrightarrow>
    mapTranscriptIDs role c = Inr (role_ids role c)"
  by (auto simp: mapTranscriptIDs_def role_ids_def initiatorInputRole_def responderInputRole_def)

lemma run_handoff:
  assumes "role = initiatorInputRole \<or> role = responderInputRole" "live m (c_context c)"
  shows "run_state (handoff c role) m =
    (let ids = role_ids role c
     in ((c\<lparr>c_context := None, c_password := None, c_selfID := None, c_peerID := None, c_sid := None, c_localAD := None\<rparr>,
          Inr \<lparr>n_password = c_password c, n_initiatorID = fst ids, n_responderID = snd ids,
               n_ci = Some (length (arrs m)), n_sid = c_sid c, n_ad = c_localAD c\<rparr>),
         m\<lparr>arrs := clear_at (c_context c) (arrs m) @
             [buildCI (contents m (fst ids)) (contents m (snd ids)) (contents m (c_context c))]\<rparr>))"
proof -
  have "clear_at (c_context c) (arrs m @ [b]) = clear_at (c_context c) (arrs m) @ [b]" for b
    using assms(2) by (intro clear_at_append_left) simp
  then show ?thesis
    by (cases "role_ids role c") (simp add: handoff_def mapTranscriptIDs_ok [OF assms(1)] run_simps Let_def)
qed

lemma normalized_handoff:
  assumes m1: "grows m m1" "map (contents m1) (caller_slices c) = map (contents m) (input_slices input)"
    and own: "\<forall>t \<in> set (caller_slices c). live m1 t \<and> fresh m t" "separate (caller_slices c)"
    and res: "residue m m1 (set (caller_slices c)) {}"
    and n: "n = \<lparr>n_password = c_password c, n_initiatorID = fst (role_ids role c), n_responderID = snd (role_ids role c),
               n_ci = Some (length (arrs m1)), n_sid = c_sid c, n_ad = c_localAD c\<rparr>"
    and m2: "m2 = m1\<lparr>arrs := clear_at (c_context c) (arrs m1) @
         [buildCI (contents m1 (fst (role_ids role c))) (contents m1 (snd (role_ids role c))) (contents m1 (c_context c))]\<rparr>"
  shows "normalized m m2 role input n"
proof -
  have ids: "set (norm_slices n) = insert (Some (length (arrs m1))) {c_password c, c_selfID c, c_peerID c, c_sid c, c_localAD c}"
    by (auto simp: n norm_slices_def role_ids_def)
  let ?S = "{c_password c, c_selfID c, c_peerID c, c_sid c, c_localAD c}"
  have "live m1 t" "t = None \<or> t \<noteq> c_context c" if "t \<in> ?S" for t
    using that own by (auto simp: caller_slices_def)
  then have old: "live m2 t" "contents m2 t = contents m1 t" if "t \<in> ?S" for t
    using that clear_alloc_old [OF m2, of t] by blast+
  have ci: "contents m2 (n_ci n) =
      buildCI (contents m1 (fst (role_ids role c))) (contents m1 (snd (role_ids role c))) (contents m1 (c_context c))"
    by (simp add: n m2 nth_append)
  have "\<forall>t \<in> set (norm_slices n). live m2 t \<and> fresh m t"
    unfolding ids using old(1) own(1) grows_length [OF m1(1)] by (auto simp: caller_slices_def m2)
  moreover have "separate (norm_slices n)"
    using own fresh_not_live [of m1 "Some (length (arrs m1))"]
    by (auto simp: n norm_slices_def caller_slices_def role_ids_def)
  moreover have "kept m m2"
    using own(1) by (intro clear_alloc_kept [OF _ grows_kept [OF m1(1)]]) (auto simp: m2 caller_slices_def)
  moreover have "same_tables m m2"
    using same_tables_trans [OF grows_same_tables [OF m1(1)], of m2] by (simp add: m2)
  moreover have "residue m m2 (set (norm_slices n)) {}"
    by (rule residue_mono [OF clear_alloc_residue [OF _ res grows_length [OF m1(1)],
           where m' = m2 and S' = "{Some (length (arrs m1))}" and P' = "{}"]])
       (auto simp: m2 ids caller_slices_def)
  moreover have m1c: "contents m1 (fst (role_ids role c)) = contents m (initiator_of role input)"
    "contents m1 (snd (role_ids role c)) = contents m (responder_of role input)"
    "contents m1 (c_context c) = contents m (Context input)"
    "contents m1 (c_password c) = contents m (Password input)" "contents m1 (c_sid c) = contents m (SessionID input)"
    "contents m1 (c_localAD c) = contents m (LocalAssociatedData input)"
    using m1(2) by (simp_all add: role_ids_def initiator_of_def responder_of_def caller_slices_def input_slices_def)
  moreover have "fst (role_ids role c) \<in> ?S" "snd (role_ids role c) \<in> ?S" "c_password c \<in> ?S" "c_sid c \<in> ?S" "c_localAD c \<in> ?S"
    by (simp_all add: role_ids_def)
  note this [THEN old(2), unfolded m1c]
  ultimately show ?thesis
    unfolding normalized_def n normalizedInput.simps ci [unfolded m1c n normalizedInput.simps] by (intro conjI refl)
qed

lemma run_normalizeInput_ok:
  assumes "acceptable m input" "live_input m input" "role = initiatorInputRole \<or> role = responderInputRole"
  obtains n m' where "run_state (normalizeInput input role) m = (Inr n, m')" "normalized m m' role input n"
proof -
  obtain c m1 where c: "run_state (acceptInput input) m = (Inr c, m1)" "grows m m1"
    "map (contents m1) (caller_slices c) = map (contents m) (input_slices input)"
    "\<forall>t \<in> set (caller_slices c). live m1 t \<and> fresh m t" "separate (caller_slices c)"
    "residue m m1 (set (caller_slices c)) {}"
    by (rule run_acceptInput_ok [OF assms(1,2)])
  have l: "live m1 (c_context c)" using c(4) by (simp add: caller_slices_def)
  from normalized_handoff [OF c(2-6) refl refl, of role] that show ?thesis
    by (simp add: normalizeInput_def c(1) run_handoff [OF assms(3) l] run_simps Let_def caller_slices_def clear_all_def)
qed

lemma normalized_wiped:
  assumes "normalized m m' role input n"
  shows "kept m (snd (run_state (normalizedInput_wipe n) m'))" "residue m (snd (run_state (normalizedInput_wipe n) m')) {} {}"
  using assms kept_clear_all [of m m' "norm_slices n" "m'\<lparr>arrs := clear_all (norm_slices n) (arrs m')\<rparr>"]
    residue_clear_all [of m m' "set (norm_slices n)" "{}" "m'\<lparr>arrs := clear_all (norm_slices n) (arrs m')\<rparr>" "norm_slices n"]
  by (simp_all add: normalized_def run_simps)

lemma buildCI_inject:
  assumes "list_all sliceable [i, r, c, i', r', c']"
  shows "buildCI i r c = buildCI i' r' c' \<longleftrightarrow> i = i' \<and> r = r' \<and> c = c'"
proof -
  have lit: "list_all (\<lambda>s. sliceable (bytes_of s)) [''CPace-Go-CI'', DraftVersion, suiteName, ''initiator'', ''responder'', ''context'']"
    by (simp add: sliceable_def DraftVersion_def suiteName_def)
  let ?l = "\<lambda>i r c. [bytes_of ''CPace-Go-CI'', bytes_of DraftVersion, bytes_of suiteName,
       bytes_of ''initiator'', i, bytes_of ''responder'', r, bytes_of ''context'', c]"
  have "list_all sliceable (?l i r c)" "list_all sliceable (?l i' r' c')" using lit assms by simp_all
  from lvCat_inject [OF this] show ?thesis unfolding buildCI_def by auto
qed

section \<open>Properties\<close>

text \<open>
  C17: normalization accepts exactly the inputs the documentation admits (password and identities
  non-empty and at most 4 KiB, context and session id at most 1 KiB, associated data at most
  64 KiB, a session id unless an empty one is allowed). A refused input is reported with an
  error that wraps \<open>ErrInvalidInput\<close> before anything is copied: the memory is unchanged. An
  accepted input is copied into new arrays that share nothing with the caller's or with each
  other, with the identities in the order of the role and the channel identifier built from them;
  the caller's arrays are unchanged, the only non-zero new arrays are those of the normalized
  input, and after its \<open>wipe\<close> there is none.
\<close>

theorem normalizeInput_outcome:
  assumes "live_input m input" "role = initiatorInputRole \<or> role = responderInputRole"
  shows "(acceptable m input \<longleftrightarrow> input_error m input = None) \<and>
    (case input_error m input of
       Some f \<Rightarrow> run_state (normalizeInput input role) m = (Inl f, m) \<and> fault_Is f ErrInvalidInput
     | None \<Rightarrow> \<exists>n m'. run_state (normalizeInput input role) m = (Inr n, m') \<and> normalized m m' role input n \<and>
         kept m (snd (run_state (normalizedInput_wipe n) m')) \<and>
         residue m (snd (run_state (normalizedInput_wipe n) m')) {} {})"
proof (cases "input_error m input")
  case None
  then have "acceptable m input" by (simp add: input_error_None)
  then obtain n m' where "run_state (normalizeInput input role) m = (Inr n, m')" "normalized m m' role input n"
    using run_normalizeInput_ok assms by metis
  with None show ?thesis using normalized_wiped by (auto simp: input_error_None [symmetric])
next
  case (Some f)
  then show ?thesis
    using input_error_Is [OF Some] run_normalizeInput_error [OF Some] input_error_None [of m input] by auto
qed

theorem normalizeInput_outcome_witness:
  "let m = \<lparr>arrs = [[1], [2], [3], []], readers = []\<rparr>;
       input = \<lparr>Password = Some 0, SelfID = Some 1, PeerID = Some 2, Context = None, SessionID = Some 3,
         LocalAssociatedData = None, AllowEmptySessionID = False\<rparr>
   in run_state (normalizeInput input responderInputRole) m =
        (Inl (Error (Errorf [W (Sentinel ErrInvalidInput), Lit '': '', W (Sentinel ErrEmptySessionID)])), m) \<and>
      acceptable m (input\<lparr>AllowEmptySessionID := True\<rparr>)"
proof -
  let ?m = "\<lparr>arrs = [[1], [2], [3], []], readers = []\<rparr>"
  let ?i = "\<lparr>Password = Some 0, SelfID = Some 1, PeerID = Some 2, Context = None, SessionID = Some 3,
         LocalAssociatedData = None, AllowEmptySessionID = False\<rparr>"
  have "input_error ?m ?i = Some (Error (Errorf [W (Sentinel ErrInvalidInput), Lit '': '', W (Sentinel ErrEmptySessionID)]))"
    by (simp add: input_error_def validateRequiredCallerInputFields_def)
  then show ?thesis
    using normalizeInput_outcome [of ?m ?i responderInputRole] unfolding Let_def
    by (simp add: live_input_def acceptable_def)
qed



end
