(* ===== verification/World.thy ===== *)
theory World
  imports Transcript Input
begin

text \<open>
  The objects the package allocates behind pointers, and the world that holds them: the byte arrays
  and readers of the memory, and one table per kind of object. A pointer is an index of its table.
  \<^verbatim>\<open>*initiatorCore\<close> and \<^verbatim>\<open>*responderCore\<close> are \<open>src/core.go\<close>, \<^verbatim>\<open>singleUseState[C]\<close> (a table for each of
  its two instances) is \<open>src/terminal_state.go\<close>, \<open>sessionState\<close>, \<open>Session\<close>, \<open>Initiator\<close> and
  \<open>Responder\<close> are \<open>src/api.go\<close>. A mutex is not part of a state: its holder runs the whole
  operation as one step.
\<close>

record initiatorCore =
  ic_scalar :: slice
  ic_sid :: slice
  ic_ya :: slice
  ic_ada :: slice
  ic_peerID :: slice

record responderCore =
  rc_isk :: slice
  rc_transcript :: irTranscript
  rc_sid :: slice
  rc_peerID :: slice

record singleUseState =
  su_used :: bool
  su_core :: "nat option"
  su_uninitialized :: string

record sessionState =
  ss_closed :: bool
  ss_isk :: slice

record Session =
  s_state :: "nat option"
  s_transcriptID :: slice
  s_peerAD :: slice
  s_peerID :: slice

record Initiator =
  i_state :: "nat option"

record Responder =
  r_state :: "nat option"

record world = mem +
  icores :: "initiatorCore list"
  rcores :: "responderCore list"
  istates :: "singleUseState list"
  rstates :: "singleUseState list"
  sstates :: "sessionState list"

text \<open>\<open>&T{...}\<close>: a new entry of a table, given by its field and its update.\<close>

definition new_object :: "('w \<Rightarrow> 'a list) \<Rightarrow> (('a list \<Rightarrow> 'a list) \<Rightarrow> 'w \<Rightarrow> 'w) \<Rightarrow> 'a \<Rightarrow> ('w, nat) state" where
  "new_object get upd x = State (\<lambda>w. (length (get w), upd (\<lambda>xs. xs @ [x]) w))"

lemma run_new_object [run_simps]:
  "run_state (new_object get upd x) w = (length (get w), upd (\<lambda>xs. xs @ [x]) w)"
  by (simp add: new_object_def)

end
