(* ===== verification/Terminal_State.thy ===== *)
theory Terminal_State
  imports World
begin

text \<open>
  The single-use guard (\<^verbatim>\<open>src/terminal_state.go\<close>). \<open>singleUseState\<close> is generic over its core; here its
  operations take the table of states they work on (as field and update) and the \<open>clear\<close> method
  of the core. Each of \<open>claimFinish\<close> and \<open>claimClose\<close> runs under the mutex, so it is one function
  of the state.
\<close>

definition newSingleUseState :: "nat option \<Rightarrow> string \<Rightarrow> singleUseState" where
  "newSingleUseState core uninitialized =
     \<lparr>su_used = False, su_core = core, su_uninitialized = uninitialized\<rparr>"

definition uninitializedError :: "singleUseState \<Rightarrow> fault" where
  "uninitializedError s = Error (Errorf [W (Sentinel ErrInvalidInput), Lit '': '', Lit (su_uninitialized s)])"

definition claimFinish :: "singleUseState \<Rightarrow> nat res \<times> singleUseState" where
  "claimFinish s =
     (if su_used s then (Inl (Error (Sentinel ErrStateUsed)), s)
      else case su_core s of
             None \<Rightarrow> (Inl (uninitializedError s), s)
           | Some c \<Rightarrow> (Inr c, s\<lparr>su_used := True\<rparr>))"

definition claimClose :: "singleUseState \<Rightarrow> nat option res \<times> singleUseState" where
  "claimClose s =
     (if su_used s then (Inr None, s)
      else case su_core s of
             None \<Rightarrow> (Inl (uninitializedError s), s)
           | Some c \<Rightarrow> (Inr (Some c), s\<lparr>su_used := True\<rparr>))"

text \<open>A method called through the pointer \<open>p\<close> into a table.\<close>

definition through :: "('w \<Rightarrow> 'a list) \<Rightarrow> (('a list \<Rightarrow> 'a list) \<Rightarrow> 'w \<Rightarrow> 'w) \<Rightarrow> nat \<Rightarrow> ('a \<Rightarrow> 'r \<times> 'a) \<Rightarrow> ('w, 'r) state" where
  "through get upd p f = State (\<lambda>w. let (r, x) = f (get w ! p) in (r, upd (\<lambda>xs. xs[p := x]) w))"

definition closeCore ::
  "('w \<Rightarrow> singleUseState list) \<Rightarrow> ((singleUseState list \<Rightarrow> singleUseState list) \<Rightarrow> 'w \<Rightarrow> 'w) \<Rightarrow>
   (nat \<Rightarrow> ('w, unit) state) \<Rightarrow> nat \<Rightarrow> ('w, unit res) state" where
  "closeCore get upd clear p = do {
     r \<leftarrow> through get upd p claimClose;
     case r of
       Inl err \<Rightarrow> State_Monad.return (Inl err)
     | Inr None \<Rightarrow> State_Monad.return (Inr ())
     | Inr (Some core) \<Rightarrow> do { clear core; State_Monad.return (Inr ()) } }"

section \<open>The contract\<close>

text \<open>
  What the guard needs of the table and of the core's \<open>clear\<close>: reading back what was written, and
  a \<open>clear\<close> that leaves the guard alone.
\<close>

lemma run_through [run_simps]:
  "run_state (through get upd p f) w = (fst (f (get w ! p)), upd (\<lambda>xs. xs[p := snd (f (get w ! p))]) w)"
  by (simp add: through_def split: prod.split)

lemma claimFinish_used: "su_used s \<Longrightarrow> claimFinish s = (Inl (Error (Sentinel ErrStateUsed)), s)"
  by (simp add: claimFinish_def)

lemma claimClose_used: "su_used s \<Longrightarrow> claimClose s = (Inr None, s)"
  by (simp add: claimClose_def)

text \<open>How a guard may change: its core never, its flag only from unused to used.\<close>

definition advances :: "singleUseState \<Rightarrow> singleUseState \<Rightarrow> bool" where
  "advances s s' \<longleftrightarrow> su_core s' = su_core s \<and> su_uninitialized s' = su_uninitialized s \<and> (su_used s \<longrightarrow> su_used s')"

definition tables_advance :: "singleUseState list \<Rightarrow> singleUseState list \<Rightarrow> bool" where
  "tables_advance xs ys \<longleftrightarrow> length xs \<le> length ys \<and> (\<forall>p < length xs. advances (xs ! p) (ys ! p))"

lemma advances_refl [simp]: "advances s s"
  by (simp add: advances_def)

lemma advances_claims: "advances s (snd (claimFinish s))" "advances s (snd (claimClose s))"
  by (simp_all add: advances_def claimFinish_def claimClose_def split: option.split)

lemma tables_advance_refl [simp]: "tables_advance xs xs"
  by (simp add: tables_advance_def)

lemma tables_advance_trans: "tables_advance xs ys \<Longrightarrow> tables_advance ys zs \<Longrightarrow> tables_advance xs zs"
  by (auto simp: tables_advance_def advances_def)

lemma tables_advance_update: "advances (xs ! p) s \<Longrightarrow> tables_advance xs (xs[p := s])"
  unfolding tables_advance_def by (metis advances_refl dual_order.refl length_list_update nth_list_update_eq nth_list_update_neq)

lemma tables_advance_append: "tables_advance xs (xs @ ys)"
  by (simp add: tables_advance_def nth_append)

locale single_use =
  fixes states :: "'w \<Rightarrow> singleUseState list"
    and states_update :: "(singleUseState list \<Rightarrow> singleUseState list) \<Rightarrow> 'w \<Rightarrow> 'w"
    and clear :: "nat \<Rightarrow> ('w, unit) state"
  assumes states_states_update: "states (states_update f w) = f (states w)"
    and states_update_same: "f (states w) = states w \<Longrightarrow> states_update f w = w"
    and clear_states: "states (snd (run_state (clear c) w)) = states w"
begin

lemma claim_advances: "tables_advance (states w) (states (snd (run_state (through states states_update p claimFinish) w)))"
  by (simp add: run_simps states_states_update tables_advance_update advances_claims)

lemma close_states: "states (snd (run_state (closeCore states states_update clear p) w)) =
    (states w)[p := snd (claimClose (states w ! p))]"
  by (simp add: closeCore_def run_simps states_states_update clear_states prod.case_eq_if split: sum.split option.split)

lemma close_advances: "tables_advance (states w) (states (snd (run_state (closeCore states states_update clear p) w)))"
  unfolding close_states by (intro tables_advance_update advances_claims)

lemma claim_marks:
  assumes "p < length (states w)" "su_core (states w ! p) \<noteq> None"
  shows "su_used (states (snd (run_state (through states states_update p claimFinish) w)) ! p)"
  using assms by (auto simp: run_simps states_states_update claimFinish_def)

lemma close_marks:
  assumes "p < length (states w)" "su_core (states w ! p) \<noteq> None"
  shows "su_used (states (snd (run_state (closeCore states states_update clear p) w)) ! p)"
  unfolding close_states using assms by (auto simp: claimClose_def)

lemma claim_again:
  assumes "su_used (states w ! p)"
  shows "run_state (through states states_update p claimFinish) w = (Inl (Error (Sentinel ErrStateUsed)), w)"
  using assms by (simp add: run_simps claimFinish_used states_update_same)

lemma close_again:
  assumes "su_used (states w ! p)"
  shows "run_state (closeCore states states_update clear p) w = (Inr (), w)"
  using assms by (simp add: closeCore_def run_simps claimClose_used states_update_same)

end

end
