(* ===== verification/Session.thy ===== *)
theory Session
  imports World
begin

text \<open>
  Confirmed sessions (\<^verbatim>\<open>src/session.go\<close> and \<open>newSession\<close> of \<^verbatim>\<open>src/api.go\<close>). A \<^verbatim>\<open>*Session\<close> is an optional
  \<open>Session\<close> value; its key is behind the shared \<open>sessionState\<close>. \<open>hkdf_Key\<close> is \<^verbatim>\<open>crypto/hkdf.Key\<close> with
  SHA-512: it panics on a negative length and refuses one above 255 blocks.
\<close>

definition maxHKDFOutput :: int where "maxHKDFOutput = 255 * 64"

definition hkdf_Key :: "bytes \<Rightarrow> bytes \<Rightarrow> bytes \<Rightarrow> int \<Rightarrow> bytes res" where
  "hkdf_Key secret salt info keyLength =
     (if keyLength < 0 then Inl (Panic ''hkdf: negative key length'')
      else if keyLength > 255 * int sha512Size then Inl (Error (LibError HKDFLength))
      else Inr (hkdf_expand (hkdf_extract secret salt) info (nat keyLength)))"

definition newSession :: "slice \<Rightarrow> slice \<Rightarrow> slice \<Rightarrow> slice \<Rightarrow> (world, Session) state" where
  "newSession isk transcriptID' peerAD peerID = do {
     isk' \<leftarrow> clone isk;
     st \<leftarrow> new_object sstates sstates_update \<lparr>ss_closed = False, ss_isk = isk'\<rparr>;
     tid \<leftarrow> clone transcriptID';
     ad \<leftarrow> clone peerAD;
     pid \<leftarrow> clone peerID;
     State_Monad.return \<lparr>s_state = Some st, s_transcriptID = tid, s_peerAD = ad, s_peerID = pid\<rparr> }"

definition TranscriptID :: "Session option \<Rightarrow> (world, slice) state" where
  "TranscriptID s = (case s of None \<Rightarrow> State_Monad.return None | Some s \<Rightarrow> clone (s_transcriptID s))"

definition PeerAssociatedData :: "Session option \<Rightarrow> (world, slice) state" where
  "PeerAssociatedData s = (case s of None \<Rightarrow> State_Monad.return None | Some s \<Rightarrow> clone (s_peerAD s))"

definition Session_PeerID :: "Session option \<Rightarrow> (world, slice) state" where
  "Session_PeerID s = (case s of None \<Rightarrow> State_Monad.return None | Some s \<Rightarrow> clone (s_peerID s))"

text \<open>The fields of \<^verbatim>\<open>*st\<close>, read and written through the pointer.\<close>

definition session_at :: "nat \<Rightarrow> (world, sessionState) state" where
  "session_at p = State (\<lambda>w. (sstates w ! p, w))"

definition set_session :: "nat \<Rightarrow> sessionState \<Rightarrow> (world, unit) state" where
  "set_session p st = State (\<lambda>w. ((), w\<lparr>sstates := (sstates w)[p := st]\<rparr>))"

definition Session_Close :: "Session option \<Rightarrow> (world, unit res) state" where
  "Session_Close s =
     (case s of
        None \<Rightarrow> State_Monad.return (Inr ())
      | Some s \<Rightarrow>
          (case s_state s of
             None \<Rightarrow> State_Monad.return (Inl (Error (wrapf ErrInvalidInput '': nil session'')))
           | Some p \<Rightarrow> do {
               st \<leftarrow> session_at p;
               if ss_closed st then State_Monad.return (Inr ())
               else do {
                 clearBytes (ss_isk st);
                 set_session p (st\<lparr>ss_isk := None, ss_closed := True\<rparr>);
                 State_Monad.return (Inr ()) } }))"

definition Export :: "Session option \<Rightarrow> slice \<Rightarrow> slice \<Rightarrow> int \<Rightarrow> (world, slice res) state" where
  "Export s label context' len =
     (case (case s of None \<Rightarrow> None | Some s \<Rightarrow> s_state s) of
        None \<Rightarrow> State_Monad.return (Inl (Error (wrapf ErrInvalidInput '': nil session'')))
      | Some p \<Rightarrow> do {
          st \<leftarrow> session_at p;
          if ss_closed st then State_Monad.return (Inl (Error (Sentinel ErrSessionClosed)))
          else if len < 0 \<or> len > maxHKDFOutput
          then State_Monad.return (Inl (Error (wrapf ErrInvalidInput '': invalid export length'')))
          else do {
            lb \<leftarrow> load label; cb \<leftarrow> load context';
            info \<leftarrow> alloc (lvCat [bytes_of ''CPaceExport'', lb, cb]);
            ib \<leftarrow> load info;
            isk \<leftarrow> load (ss_isk st);
            case hkdf_Key isk [] ib len of
              Inl (Error err) \<Rightarrow> State_Monad.return (Inl (Error (Errorf [W (Sentinel ErrInvalidInput), Lit '': export failed: '', W err])))
            | Inl f \<Rightarrow> State_Monad.return (Inl f)
            | Inr out \<Rightarrow> do { a \<leftarrow> alloc out; State_Monad.return (Inr a) } } })"

section \<open>Running the operations\<close>

lemma run_session_at [run_simps]: "run_state (session_at p) w = (sstates w ! p, w)"
  by (simp add: session_at_def)

lemma run_set_session [run_simps]: "run_state (set_session p st) w = ((), w\<lparr>sstates := (sstates w)[p := st]\<rparr>)"
  by (simp add: set_session_def)

text \<open>The key an open session exports, and the info string of the exporter.\<close>

definition session_key :: "world \<Rightarrow> nat \<Rightarrow> bytes" where
  "session_key w p = contents w (ss_isk (sstates w ! p))"

definition export_info :: "bytes \<Rightarrow> bytes \<Rightarrow> bytes" where
  "export_info label context' = lvCat [bytes_of ''CPaceExport'', label, context']"

definition exported :: "bytes \<Rightarrow> bytes \<Rightarrow> bytes \<Rightarrow> nat \<Rightarrow> bytes" where
  "exported isk label context' n = hkdf_expand (hkdf_extract isk []) (export_info label context') n"

lemma hkdf_Key_in_range: "0 \<le> n \<Longrightarrow> n \<le> maxHKDFOutput \<Longrightarrow>
    hkdf_Key isk [] info n = Inr (hkdf_expand (hkdf_extract isk []) info (nat n))"
  by (simp add: hkdf_Key_def maxHKDFOutput_def sha512Size_def)

lemma run_Export:
  assumes "s_state s = Some p" "\<not> ss_closed (sstates w ! p)" "live w (ss_isk (sstates w ! p))" "0 \<le> n" "n \<le> maxHKDFOutput"
  shows "run_state (Export (Some s) label context' n) w =
    (Inr (Some (length (arrs w) + 1)),
     w\<lparr>arrs := arrs w @ [export_info (contents w label) (contents w context'),
        exported (session_key w p) (contents w label) (contents w context') (nat n)]\<rparr>)"
proof -
  have "contents (w\<lparr>arrs := arrs w @ [b]\<rparr>) (ss_isk (sstates w ! p)) = contents w (ss_isk (sstates w ! p))" for b
    using assms(3) growsI grows_contents by blast
  then show ?thesis
    using assms
    by (simp add: Export_def run_simps nth_append hkdf_Key_in_range exported_def export_info_def session_key_def
        not_le [symmetric])
qed

text \<open>\<open>s\<close> is an open session with this key and metadata.\<close>

definition open_session :: "world \<Rightarrow> Session \<Rightarrow> bytes \<Rightarrow> bytes \<Rightarrow> bytes \<Rightarrow> bytes \<Rightarrow> bool" where
  "open_session w s key tid ad pid \<longleftrightarrow>
     (case s_state s of None \<Rightarrow> False
      | Some p \<Rightarrow> p < length (sstates w) \<and> \<not> ss_closed (sstates w ! p) \<and>
          live w (ss_isk (sstates w ! p)) \<and> session_key w p = key) \<and>
     live w (s_transcriptID s) \<and> contents w (s_transcriptID s) = tid \<and>
     live w (s_peerAD s) \<and> contents w (s_peerAD s) = ad \<and>
     live w (s_peerID s) \<and> contents w (s_peerID s) = pid"

definition session_secret :: "world \<Rightarrow> Session \<Rightarrow> slice" where
  "session_secret w s = ss_isk (sstates w ! the (s_state s))"

lemma open_session_kept:
  assumes "open_session w s key tid ad pid" "kept w w'" "sstates w' = sstates w"
  shows "open_session w' s key tid ad pid"
  using assms kept_contents [OF assms(2)] unfolding open_session_def session_key_def
  by (auto split: option.splits)

lemma open_session_clear:
  assumes "open_session w s key tid ad pid"
    and "\<forall>t \<in> {session_secret w s, s_transcriptID s, s_peerAD s, s_peerID s}. t = None \<or> t \<noteq> x"
  shows "open_session (w\<lparr>arrs := clear_at x (arrs w)\<rparr>) s key tid ad pid"
proof -
  have "live w t \<Longrightarrow> t = None \<or> t \<noteq> x \<Longrightarrow>
      live (w\<lparr>arrs := clear_at x (arrs w)\<rparr>) t \<and> contents (w\<lparr>arrs := clear_at x (arrs w)\<rparr>) t = contents w t" for t
    by (cases t) (auto simp: nth_clear_at)
  with assms show ?thesis
    unfolding open_session_def session_key_def session_secret_def by (auto split: option.splits)
qed

lemma run_newSession:
  assumes "live w isk" "live w tid" "live w ad" "live w pid"
  obtains s w' where "run_state (newSession isk tid ad pid) w = (s, w')" "kept w w'"
    "w' = w\<lparr>arrs := arrs w', sstates := sstates w'\<rparr>" "\<exists>x. sstates w' = sstates w @ [x]"
    "s_state s = Some (length (sstates w))"
    "open_session w' s (contents w isk) (contents w tid) (contents w ad) (contents w pid)"
    "\<forall>t \<in> {session_secret w' s, s_transcriptID s, s_peerAD s, s_peerID s}. fresh w t"
    "session_secret w' s = None \<or> session_secret w' s \<notin> {s_transcriptID s, s_peerAD s, s_peerID s}"
    "residue w w' {session_secret w' s} {contents w tid, contents w ad, contents w pid}"
proof -
  obtain t0 w0 where 0: "run_state (clone isk) w = (t0, w0)" "grows w w0" "live w0 t0" "fresh w t0"
    "contents w0 t0 = contents w isk" "residue w w0 {t0} {}" by (rule clone_spec [OF assms(1)])
  define w1 where "w1 = sstates_update (\<lambda>xs. xs @ [\<lparr>ss_closed = False, ss_isk = t0\<rparr>]) w0"
  have same: "live w1 t = live w0 t" "contents w1 t = contents w0 t" for t
    by (rule live_cong contents_cong, simp add: w1_def)+
  have tables: "sstates w0 = sstates w" "w0 = w\<lparr>arrs := arrs w0\<rparr>" using 0(2) by (auto simp: grows_def)
  have "\<forall>t \<in> set [tid, ad, pid]. live w1 t" using 0(2) assms by (simp add: same grows_live)
  then obtain ts w2 where c: "run_state (clones [tid, ad, pid]) w1 = (ts, w2)" "grows w1 w2"
    "length ts = length [tid, ad, pid]" "map (contents w2) ts = map (contents w1) [tid, ad, pid]"
    "\<forall>t \<in> set ts. live w2 t \<and> fresh w1 t" "residue w1 w2 (set ts) {}"
    by (rule clones_spec)
  then obtain s1 s2 s3 where ts: "ts = [s1, s2, s3]" by (auto simp: length_Suc_conv)
  let ?s = "\<lparr>s_state = Some (length (sstates w)), s_transcriptID = s1, s_peerAD = s2, s_peerID = s3\<rparr>"
  have run: "run_state (newSession isk tid ad pid) w = (?s, w2)"
    using c(1) unfolding ts w1_def by (auto simp: newSession_def run_simps 0(1) tables(1) split: prod.splits)
  have kept: "kept w w1" "kept w1 w2"
    using grows_kept [OF 0(2)] grows_kept [OF c(2)] by (simp_all add: w1_def kept_def)
  have st: "sstates w2 = sstates w @ [\<lparr>ss_closed = False, ss_isk = t0\<rparr>]" "w2 = w\<lparr>arrs := arrs w2, sstates := sstates w2\<rparr>"
    using c(2) 0(2) by (cases w; auto simp: grows_def w1_def)+
  have cs: "contents w1 t = contents w t" if "live w t" for t using 0(2) that by (simp add: same grows_contents)
  have t0: "live w2 t0" "contents w2 t0 = contents w isk"
    using 0 c(2) by (simp_all add: same grows_live grows_contents)
  have sec: "session_secret w2 ?s = t0" by (simp add: session_secret_def st(1) nth_append)
  have "open_session w2 ?s (contents w isk) (contents w tid) (contents w ad) (contents w pid)"
    using c(4,5) t0 assms unfolding ts by (simp add: open_session_def session_key_def cs st(1) nth_append)
  moreover have "residue w w2 {t0} {contents w tid, contents w ad, contents w pid}"
  proof -
    have "residue w w1 {t0} {}" using 0(6) by (simp add: w1_def residue_def)
    moreover have "residue w1 w2 {} {contents w2 s3, contents w2 s2, contents w2 s1}"
      using c(6) unfolding ts by (intro residue_publish) simp
    ultimately show ?thesis
      using c(4) assms unfolding ts by (auto simp: cs intro: residue_add_kept [OF _ kept(2)])
  qed
  moreover have fr: "fresh w t" if "t \<in> {s1, s2, s3}" for t
    using c(5) that kept(1) fresh_mono [of w w1 t] unfolding ts by (auto simp: kept_def)
  moreover have "t0 = None \<or> t0 \<notin> {s1, s2, s3}"
    using c(5) 0(3) fresh_not_live [of w1 t0 t0] unfolding ts by (auto simp: same)
  ultimately show ?thesis
    using kept_trans [OF kept] st(2) 0(4) fr by (intro that [OF run]) (simp_all add: sec st(1))
qed

lemma run_Session_Close:
  assumes "s_state s = Some p"
  shows "run_state (Session_Close (Some s)) w =
    (Inr (), if ss_closed (sstates w ! p) then w
       else w\<lparr>arrs := clear_at (ss_isk (sstates w ! p)) (arrs w),
              sstates := (sstates w)[p := \<lparr>ss_closed = True, ss_isk = None\<rparr>]\<rparr>)"
  using assms by (cases "sstates w ! p") (simp add: Session_Close_def run_simps)

lemma export_info_inject:
  assumes "list_all sliceable [l, c, l', c']"
  shows "export_info l c = export_info l' c' \<longleftrightarrow> l = l' \<and> c = c'"
proof -
  have "sliceable (bytes_of ''CPaceExport'')" by (simp add: sliceable_def)
  then show ?thesis
    using assms lvCat_inject [of "[bytes_of ''CPaceExport'', l, c]" "[bytes_of ''CPaceExport'', l', c']"]
    by (auto simp: export_info_def)
qed

section \<open>Properties\<close>

text \<open>
  C19: every outcome of \<open>Export\<close>. Without a session it is an input error; on a closed session
  \<open>ErrSessionClosed\<close>; a length outside \<open>[0, 16320]\<close> is refused before the standard library sees it,
  so it never panics; otherwise it returns a new array with the first \<open>n\<close> bytes of
  HKDF-SHA512 over the session key, an empty salt and the encoded label and context, so two sessions
  with the same key export the same bytes. No error path changes the world, and nothing
  that existed changes on success.
\<close>

theorem Export_outcome:
  assumes "\<And>s p. so = Some s \<Longrightarrow> s_state s = Some p \<Longrightarrow> live w (ss_isk (sstates w ! p))"
  shows "run_state (Export so label context' n) w =
    (case so of
       None \<Rightarrow> (Inl (Error (wrapf ErrInvalidInput '': nil session'')), w)
     | Some s \<Rightarrow>
         (case s_state s of
            None \<Rightarrow> (Inl (Error (wrapf ErrInvalidInput '': nil session'')), w)
          | Some p \<Rightarrow>
              if ss_closed (sstates w ! p) then (Inl (Error (Sentinel ErrSessionClosed)), w)
              else if n < 0 \<or> 16320 < n then (Inl (Error (wrapf ErrInvalidInput '': invalid export length'')), w)
              else (Inr (Some (length (arrs w) + 1)),
                    w\<lparr>arrs := arrs w @ [export_info (contents w label) (contents w context'),
                       exported (session_key w p) (contents w label) (contents w context') (nat n)]\<rparr>)))"
proof (cases "\<exists>s p. so = Some s \<and> s_state s = Some p \<and> \<not> ss_closed (sstates w ! p) \<and> 0 \<le> n \<and> n \<le> 16320")
  case True
  then obtain s p where "so = Some s" "s_state s = Some p" "\<not> ss_closed (sstates w ! p)" "0 \<le> n" "n \<le> 16320" by blast
  with assms run_Export [of s p w n label context'] show ?thesis by (simp add: maxHKDFOutput_def)
next
  case False
  then show ?thesis
    by (auto simp: Export_def run_simps maxHKDFOutput_def split: option.split)
qed

theorem Export_outcome_witness:
  "let w = \<lparr>arrs = [[7], [8], [9]], readers = [], icores = [], rcores = [], istates = [], rstates = [],
         sstates = [\<lparr>ss_closed = False, ss_isk = Some 0\<rparr>]\<rparr>;
       s = \<lparr>s_state = Some 0, s_transcriptID = None, s_peerAD = None, s_peerID = None\<rparr>
   in fst (run_state (Export (Some s) (Some 1) (Some 2) 32) w) = Inr (Some 4) \<and>
      fst (run_state (Export (Some s) (Some 1) (Some 2) (- 1)) w) = Inl (Error (wrapf ErrInvalidInput '': invalid export length''))"
proof -
  let ?w = "\<lparr>arrs = [[7], [8], [9]], readers = [], icores = [], rcores = [], istates = [], rstates = [],
         sstates = [\<lparr>ss_closed = False, ss_isk = Some 0\<rparr>]\<rparr>"
  let ?s = "\<lparr>s_state = Some 0, s_transcriptID = None, s_peerAD = None, s_peerID = None\<rparr>"
  show ?thesis
    unfolding Let_def
    by (subst (1 2) Export_outcome) auto
qed



text \<open>
  C20: \<open>Close\<close> of a session zeroes the key, keeps the public metadata and is final. On an open
  session with the key in an array of its own, \<open>Close\<close> succeeds, the key's array is zero and no
  other array changes; afterwards every copy of the session (a value with the same state)
  refuses \<open>Export\<close> with \<open>ErrSessionClosed\<close>, closing again changes nothing, and transcript id,
  peer associated data and peer identity still read the same.
\<close>

theorem Session_Close_final:
  assumes "open_session w s key tid ad pid" "s_state s = Some p" "s_state s' = Some p"
    and "session_secret w s = None \<or> session_secret w s \<notin> {s_transcriptID s, s_peerAD s, s_peerID s}"
  shows "\<exists>w'. run_state (Session_Close (Some s)) w = (Inr (), w') \<and>
    arrs w' = clear_at (session_secret w s) (arrs w) \<and>
    run_state (Session_Close (Some s')) w' = (Inr (), w') \<and>
    run_state (Export (Some s') label context' n) w' = (Inl (Error (Sentinel ErrSessionClosed)), w') \<and>
    contents w' (s_transcriptID s) = tid \<and> contents w' (s_peerAD s) = ad \<and> contents w' (s_peerID s) = pid"
proof -
  let ?w = "w\<lparr>arrs := clear_at (session_secret w s) (arrs w), sstates := (sstates w)[p := \<lparr>ss_closed = True, ss_isk = None\<rparr>]\<rparr>"
  have p: "p < length (sstates w)" "\<not> ss_closed (sstates w ! p)" using assms(1,2) by (simp_all add: open_session_def)
  have "run_state (Session_Close (Some s)) w = (Inr (), ?w)"
    using p assms(2) by (simp add: run_Session_Close session_secret_def)
  moreover have "contents ?w t = contents w t" if "live w t" "session_secret w s = None \<or> t \<noteq> session_secret w s" for t
    using that by (cases t) (auto simp: nth_clear_at)
  ultimately show ?thesis
    using assms p
    by (auto simp: run_Session_Close [OF assms(3)] Export_def run_simps open_session_def)
qed

theorem Session_Close_final_witness:
  "let w = \<lparr>arrs = [[7, 7], [8]], readers = [], icores = [], rcores = [], istates = [], rstates = [],
         sstates = [\<lparr>ss_closed = False, ss_isk = Some 0\<rparr>]\<rparr>;
       s = \<lparr>s_state = Some 0, s_transcriptID = Some 1, s_peerAD = None, s_peerID = None\<rparr>
   in \<exists>w'. run_state (Session_Close (Some s)) w = (Inr (), w') \<and> arrs w' = [[0, 0], [8]]"
proof -
  let ?w = "\<lparr>arrs = [[7, 7], [8]], readers = [], icores = [], rcores = [], istates = [], rstates = [],
         sstates = [\<lparr>ss_closed = False, ss_isk = Some 0\<rparr>]\<rparr>"
  let ?s = "\<lparr>s_state = Some 0, s_transcriptID = Some 1, s_peerAD = None, s_peerID = None\<rparr>"
  show ?thesis
    using Session_Close_final [of ?w ?s "[7, 7]" "[8]" "[]" "[]" 0 ?s None None 0] unfolding Let_def
    by (auto simp: open_session_def session_key_def session_secret_def zeros_def)
qed

end
