(* ===== verification/Core.thy ===== *)
theory Core
  imports Peer_Share Terminal_State Session
begin

text \<open>
  The protocol cores (\<^verbatim>\<open>src/core.go\<close>): what each role keeps between its two calls, how it is
  built from normalized input, how the exchange is finished, and the wiping of the secrets. A
  \<^verbatim>\<open>nil\<close> random source stands for \<^verbatim>\<open>rand.Reader\<close>. Deferred calls are nested in the order they are
  registered, so they run in reverse.
\<close>

definition random_source :: "nat option \<Rightarrow> nat" where
  "random_source random = (case random of None \<Rightarrow> rand_Reader | Some r \<Rightarrow> r)"

definition newInitiatorCore :: "'e field_ops \<Rightarrow> normalizedInput \<Rightarrow> nat option \<Rightarrow> (world, (nat \<times> slice) res) state" where
  "newInitiatorCore F nc random = do {
     g \<leftarrow> calculateGenerator F (n_password nc) (n_ci nc) (n_sid nc);
     case g of
       Inl f \<Rightarrow> State_Monad.return (Inl f)
     | Inr g \<Rightarrow> deferring (clearBytes g) (do {
         clearBytes (n_password nc);
         y \<leftarrow> sampleScalar (random_source random);
         case y of
           Inl err \<Rightarrow> State_Monad.return (Inl err)
         | Inr y \<Rightarrow> do {
             ya \<leftarrow> scalarMult F y g;
             case ya of
               Inl err \<Rightarrow> do { clearScalar y; State_Monad.return (Inl err) }
             | Inr ya \<Rightarrow> do {
                 sid \<leftarrow> clone (n_sid nc);
                 ya' \<leftarrow> clone ya;
                 ada \<leftarrow> clone (n_ad nc);
                 peerID \<leftarrow> clone (n_responderID nc);
                 c \<leftarrow> new_object icores icores_update
                   \<lparr>ic_scalar = y, ic_sid = sid, ic_ya = ya', ic_ada = ada, ic_peerID = peerID\<rparr>;
                 State_Monad.return (Inr (c, ya)) } } }) }"

text \<open>The fields of a core, read through its pointer.\<close>

definition icore_at :: "nat \<Rightarrow> (world, initiatorCore) state" where
  "icore_at p = State (\<lambda>w. (icores w ! p, w))"

definition rcore_at :: "nat \<Rightarrow> (world, responderCore) state" where
  "rcore_at p = State (\<lambda>w. (rcores w ! p, w))"

definition initiatorCore_finish :: "'e field_ops \<Rightarrow> nat \<Rightarrow> slice \<Rightarrow> slice \<Rightarrow> slice \<Rightarrow> (world, (slice \<times> Session) res) state" where
  "initiatorCore_finish F p peerYb peerAdb peerTag = do {
     c \<leftarrow> icore_at p;
     k \<leftarrow> sharedSecret F responderPeerShare (ic_scalar c) peerYb;
     case k of
       Inl err \<Rightarrow> State_Monad.return (Inl err)
     | Inr k \<Rightarrow> deferring (clearBytes k) (do {
         tr \<leftarrow> newIRTranscript (ic_ya c) (ic_ada c) peerYb peerAdb;
         isk \<leftarrow> irTranscript_deriveISK tr (ic_sid c) k;
         deferring (clearBytes isk) (do {
           expectedB \<leftarrow> responderConfirmationTag tr isk (ic_sid c);
           eb \<leftarrow> load expectedB; tb \<leftarrow> load peerTag;
           if \<not> hmac_Equal eb tb then State_Monad.return (Inl (Error (Sentinel ErrConfirmationFailed)))
           else do {
             tagA \<leftarrow> initiatorConfirmationTag tr isk (ic_sid c);
             tid \<leftarrow> irTranscript_transcriptID tr;
             sess \<leftarrow> newSession isk tid peerAdb (ic_peerID c);
             State_Monad.return (Inr (tagA, sess)) } }) }) }"

definition newResponderCore :: "'e field_ops \<Rightarrow> normalizedInput \<Rightarrow> slice \<Rightarrow> slice \<Rightarrow> nat option \<Rightarrow>
    (world, (nat \<times> slice \<times> slice) res) state" where
  "newResponderCore F nc peerYa peerAda random = do {
     v \<leftarrow> validate F initiatorPeerShare peerYa;
     case v of
       Inl err \<Rightarrow> State_Monad.return (Inl err)
     | Inr _ \<Rightarrow> do {
         g \<leftarrow> calculateGenerator F (n_password nc) (n_ci nc) (n_sid nc);
         case g of
           Inl f \<Rightarrow> State_Monad.return (Inl f)
         | Inr g \<Rightarrow> deferring (clearBytes g) (do {
             clearBytes (n_password nc);
             y \<leftarrow> sampleScalar (random_source random);
             case y of
               Inl err \<Rightarrow> State_Monad.return (Inl err)
             | Inr y \<Rightarrow> deferring (clearScalar y) (do {
                 yb \<leftarrow> scalarMult F y g;
                 case yb of
                   Inl err \<Rightarrow> State_Monad.return (Inl err)
                 | Inr yb \<Rightarrow> do {
                     k \<leftarrow> sharedSecret F initiatorPeerShare y peerYa;
                     case k of
                       Inl err \<Rightarrow> State_Monad.return (Inl err)
                     | Inr k \<Rightarrow> deferring (clearBytes k) (do {
                         tr \<leftarrow> newIRTranscript peerYa peerAda yb (n_ad nc);
                         isk \<leftarrow> irTranscript_deriveISK tr (n_sid nc) k;
                         tagB \<leftarrow> responderConfirmationTag tr isk (n_sid nc);
                         sid \<leftarrow> clone (n_sid nc);
                         peerID \<leftarrow> clone (n_initiatorID nc);
                         c \<leftarrow> new_object rcores rcores_update
                           \<lparr>rc_isk = isk, rc_transcript = tr, rc_sid = sid, rc_peerID = peerID\<rparr>;
                         State_Monad.return (Inr (c, yb, tagB)) }) } }) }) } }"

definition responderCore_finish :: "nat \<Rightarrow> slice \<Rightarrow> (world, Session res) state" where
  "responderCore_finish p peerTagC = do {
     c \<leftarrow> rcore_at p;
     expectedA \<leftarrow> initiatorConfirmationTag (rc_transcript c) (rc_isk c) (rc_sid c);
     ea \<leftarrow> load expectedA; tc \<leftarrow> load peerTagC;
     if \<not> hmac_Equal ea tc then State_Monad.return (Inl (Error (Sentinel ErrConfirmationFailed)))
     else do {
       tid \<leftarrow> irTranscript_transcriptID (rc_transcript c);
       ad \<leftarrow> initiatorAD (rc_transcript c);
       sess \<leftarrow> newSession (rc_isk c) tid ad (rc_peerID c);
       State_Monad.return (Inr sess) } }"

definition initiatorCore_clear :: "nat option \<Rightarrow> (world, unit) state" where
  "initiatorCore_clear c =
     (case c of
        None \<Rightarrow> State_Monad.return ()
      | Some p \<Rightarrow> do {
          core \<leftarrow> icore_at p;
          clearScalar (ic_scalar core);
          State (\<lambda>w. ((), w\<lparr>icores := (icores w)[p := core\<lparr>ic_scalar := None\<rparr>]\<rparr>)) })"

definition responderCore_clear :: "nat option \<Rightarrow> (world, unit) state" where
  "responderCore_clear c =
     (case c of
        None \<Rightarrow> State_Monad.return ()
      | Some p \<Rightarrow> do {
          core \<leftarrow> rcore_at p;
          clearBytes (rc_isk core);
          tr \<leftarrow> irTranscript_clear (rc_transcript core);
          State (\<lambda>w. ((), w\<lparr>rcores := (rcores w)[p := core\<lparr>rc_isk := None, rc_transcript := tr\<rparr>]\<rparr>)) })"

section \<open>Running the operations\<close>

lemma run_icore_at [run_simps]: "run_state (icore_at p) w = (icores w ! p, w)"
  by (simp add: icore_at_def)

lemma run_rcore_at [run_simps]: "run_state (rcore_at p) w = (rcores w ! p, w)"
  by (simp add: rcore_at_def)

lemma run_initiatorCore_clear [run_simps]:
  "run_state (initiatorCore_clear (Some p)) w =
     ((), w\<lparr>arrs := clear_at (ic_scalar (icores w ! p)) (arrs w),
            icores := (icores w)[p := (icores w ! p)\<lparr>ic_scalar := None\<rparr>]\<rparr>)"
  by (simp add: initiatorCore_clear_def run_simps)

lemma run_responderCore_clear [run_simps]:
  "run_state (responderCore_clear (Some p)) w =
     ((), w\<lparr>arrs := clear_all (rc_isk (rcores w ! p) # transcript_list (rc_transcript (rcores w ! p))) (arrs w),
            rcores := (rcores w)[p := (rcores w ! p)\<lparr>rc_isk := None, rc_transcript := cleared_transcript\<rparr>]\<rparr>)"
  by (simp add: responderCore_clear_def run_simps clear_all_def)

text \<open>The two instances of the single-use guard.\<close>

interpretation initiator_guard: single_use istates istates_update "\<lambda>c. initiatorCore_clear (Some c)"
proof (unfold_locales, goal_cases)
  case (2 f w)
  then show ?case by (cases w) simp
qed (simp_all add: run_simps)

interpretation responder_guard: single_use rstates rstates_update "\<lambda>c. responderCore_clear (Some c)"
proof (unfold_locales, goal_cases)
  case (2 f w)
  then show ?case by (cases w) simp
qed (simp_all add: run_simps)

section \<open>The initiator's first step\<close>

text \<open>A slice that lives in \<open>w\<close> and is not the one about to be wiped.\<close>

definition survives :: "'z mem_scheme \<Rightarrow> slice \<Rightarrow> slice \<Rightarrow> bool" where
  "survives w t s \<longleftrightarrow> live w s \<and> (s = None \<or> s \<noteq> t)"

lemma survives_contents:
  assumes "survives w t s" "arrs w' = clear_at t (arrs w) @ B"
  shows "contents w' s = contents w s" "live w' s"
  using assms by (cases s; auto simp: survives_def nth_append nth_clear_at)+

definition usable :: "'z mem_scheme \<Rightarrow> normalizedInput \<Rightarrow> bool" where
  "usable w nc \<longleftrightarrow> live w (n_password nc) \<and>
     survives w (n_password nc) (n_sid nc) \<and> survives w (n_password nc) (n_ad nc) \<and>
     survives w (n_password nc) (n_initiatorID nc) \<and> survives w (n_password nc) (n_responderID nc)"

lemma usable_normalized: "normalized m w role input nc \<Longrightarrow> usable w nc"
  by (auto simp: normalized_def usable_def survives_def norm_slices_def)

text \<open>The scalar the random source delivers next.\<close>

definition next_scalar :: "world \<Rightarrow> nat option \<Rightarrow> bytes" where
  "next_scalar w random = take 32 (pending (readers w ! random_source random))"

definition has_scalar :: "world \<Rightarrow> nat option \<Rightarrow> bool" where
  "has_scalar w random \<longleftrightarrow> 32 \<le> length (pending (readers w ! random_source random))"

definition generator_of :: "'e field_ops \<Rightarrow> world \<Rightarrow> normalizedInput \<Rightarrow> bytes" where
  "generator_of F w nc = generator_bytes F (contents w (n_password nc)) (contents w (n_ci nc)) (contents w (n_sid nc))"

context field_lengths
begin

lemma add_num_Suc: "n + 3 = Suc (Suc (Suc n))" "n + 4 = Suc (Suc (Suc (Suc n)))" "n + 5 = Suc (Suc (Suc (Suc (Suc n))))"
  by simp_all

lemma run_newInitiatorCore_fail:
  assumes "usable w nc" "\<not> has_scalar w random"
  shows "\<exists>L. run_state (newInitiatorCore F nc random) w =
    (Inl (Error (Errorf [W (Sentinel ErrRandomness), Lit '': scalar randomness: '',
                         W (LibError (read_error (readers w ! random_source random)))])),
     w\<lparr>readers := drain 32 (random_source random) (readers w),
       arrs := clear_at (n_password nc) (arrs w) @ [zeros L, zeros 64, zeros 32, zeros 32]\<rparr>)"
proof -
  have "clear_at (n_password nc) (arrs w @ B) = clear_at (n_password nc) (arrs w) @ B" for B
    using assms(1) by (intro clear_at_append_left) (simp add: usable_def)
  then show ?thesis
    using assms(2)
    by (auto simp: newInitiatorCore_def run_simps Let_def has_scalar_def run_sampleScalar_fail clear_at_beyond)
qed

lemma run_newInitiatorCore_ok:
  assumes "usable w nc" "has_scalar w random"
  defines "y \<equiv> next_scalar w random" and "g \<equiv> generator_of F w nc"
  obtains L core B w' where
    "run_state (newInitiatorCore F nc random) w = (Inr (length (icores w), Some (length (arrs w) + 5)), w')"
    "w' = w\<lparr>readers := drain 32 (random_source random) (readers w),
       arrs := clear_at (n_password nc) (arrs w) @ [zeros L, zeros 64, zeros 32, y, zeros 32, x25519 F y g] @ B,
       icores := icores w @ [core]\<rparr>"
    "ic_scalar core = Some (length (arrs w) + 3)"
    "map (contents w') [ic_sid core, ic_ya core, ic_ada core, ic_peerID core] =
      [contents w (n_sid nc), x25519 F y g, contents w (n_ad nc), contents w (n_responderID nc)]"
    "\<forall>t \<in> {ic_sid core, ic_ya core, ic_ada core, ic_peerID core}. live w' t \<and> (\<forall>a. t = Some a \<longrightarrow> length (arrs w) + 6 \<le> a)"
    "\<forall>b \<in> set B. wiped b \<or> b \<in> {contents w (n_sid nc), x25519 F y g, contents w (n_ad nc), contents w (n_responderID nc)}"
proof -
  let ?pw = "n_password nc" and ?r = "random_source random"
  define L where "L = length (generatorString (bytes_of dsiX25519) (contents w ?pw) (contents w (n_ci nc)) (contents w (n_sid nc)) 128)"
  define w4 where "w4 = w\<lparr>readers := drain 32 ?r (readers w),
      arrs := clear_at ?pw (arrs w) @ [zeros L, zeros 64, g, y, zeros 32, x25519 F y g]\<rparr>"
  have w4: "live w4 s" "contents w4 s = contents w s" if "survives w ?pw s" for s
    using survives_contents [OF that, of w4] by (simp_all add: w4_def)
  let ?ya = "Some (length (arrs w) + 5)"
  have ya: "live w4 ?ya" "contents w4 ?ya = x25519 F y g" by (simp_all add: w4_def nth_append)
  have clr: "clear_at ?pw (arrs w @ B) = clear_at ?pw (arrs w) @ B" for B
    using assms(1) by (intro clear_at_append_left) (simp add: usable_def)
  have run: "run_state (newInitiatorCore F nc random) w =
    (case run_state (clones [n_sid nc, ?ya, n_ad nc, n_responderID nc]) w4 of (ts, w5) \<Rightarrow>
      (Inr (length (icores w5), ?ya),
       w5\<lparr>arrs := clear_at (Some (length (arrs w) + 2)) (arrs w5),
          icores := icores w5 @ [\<lparr>ic_scalar = Some (length (arrs w) + 3), ic_sid = ts ! 0, ic_ya = ts ! 1, ic_ada = ts ! 2, ic_peerID = ts ! 3\<rparr>]\<rparr>))"
    using assms(2) clr
    by (simp add: newInitiatorCore_def run_simps Let_def has_scalar_def run_sampleScalar_ok scalarMult_def
      run_x25519ScalarMult nth_append w4_def y_def g_def L_def next_scalar_def generator_of_def
      add_num_Suc split: prod.split)
  have "\<forall>s \<in> set [n_sid nc, ?ya, n_ad nc, n_responderID nc]. live w4 s"
    using assms(1) w4(1) ya by (simp add: usable_def)
  then obtain ts w5 where c: "run_state (clones [n_sid nc, ?ya, n_ad nc, n_responderID nc]) w4 = (ts, w5)" "grows w4 w5"
    "length ts = length [n_sid nc, ?ya, n_ad nc, n_responderID nc]"
    "map (contents w5) ts = map (contents w4) [n_sid nc, ?ya, n_ad nc, n_responderID nc]"
    "\<forall>t \<in> set ts. live w5 t \<and> fresh w4 t" "residue w4 w5 (set ts) {}"
    by (rule clones_spec)
  then obtain s1 s2 s3 s4 where ts: "ts = [s1, s2, s3, s4]" by (auto simp: length_Suc_conv)
  from c(2) obtain B where B: "w5 = w4\<lparr>arrs := arrs w4 @ B\<rparr>" by (auto simp: grows_def)
  let ?core = "\<lparr>ic_scalar = Some (length (arrs w) + 3), ic_sid = s1, ic_ya = s2, ic_ada = s3, ic_peerID = s4\<rparr>"
  let ?w = "w\<lparr>readers := drain 32 ?r (readers w),
      arrs := clear_at ?pw (arrs w) @ [zeros L, zeros 64, zeros 32, y, zeros 32, x25519 F y g] @ B, icores := icores w @ [?core]\<rparr>"
  have w5: "w5\<lparr>arrs := clear_at (Some (length (arrs w) + 2)) (arrs w5), icores := icores w5 @ [?core]\<rparr> = ?w"
    unfolding B w4_def by (simp add: clear_at_beyond g_def generator_of_def)
  have cont: "map (contents w5) ts = [contents w (n_sid nc), x25519 F y g, contents w (n_ad nc), contents w (n_responderID nc)]"
    using c(4) assms(1) w4(2) ya by (simp add: usable_def)
  have new: "live ?w t \<and> contents ?w t = contents w5 t \<and> (\<forall>a. t = Some a \<longrightarrow> length (arrs w) + 6 \<le> a)" if "t \<in> set ts" for t
    using c(5) that unfolding B w4_def by (cases t) (auto simp: nth_append)
  have pub: "\<forall>b \<in> set B. wiped b \<or> b \<in> {contents w (n_sid nc), x25519 F y g, contents w (n_ad nc), contents w (n_responderID nc)}"
    using cont unfolding ts by (intro residue_public [OF c(6)]) (auto simp: B ts)
  have "run_state (newInitiatorCore F nc random) w = (Inr (length (icores w), ?ya), ?w)"
    unfolding run c(1) ts using w5 by (simp add: B w4_def)
  then show ?thesis
    by (rule that [OF _ refl]) (use new cont pub in \<open>simp_all add: ts\<close>)
qed

end

section \<open>Finishing\<close>

lemma arrs_update_append: "arrs (w\<lparr>arrs := A\<rparr>) = A"
  by simp


text \<open>What a completed exchange leaves in memory besides zeros and the session key: all of it sent or derived from what was sent.\<close>

definition exchange_public :: "bytes \<Rightarrow> bytes \<Rightarrow> bytes \<Rightarrow> bytes \<Rightarrow> bytes \<Rightarrow> bytes \<Rightarrow> bytes \<Rightarrow> bytes set" where
  "exchange_public sid ya ada yb adb isk pid =
     {ya, ada, yb, adb, lvCat [ya, ada], lvCat [yb, adb], ir_transcript ya ada yb adb, bytes_of ''CPaceMac'' @ sid,
      tag_bytes isk sid ya ada, tag_bytes isk sid yb adb, sid_output (ir_transcript ya ada yb adb), pid, sid}"

lemma run_tag:
  assumes "isk_b = contents w isk" "sid_b = contents w sid" "y_b = contents w y" "ad_b = contents w ad"
    and "{bytes_of ''CPaceMac'' @ sid_b, lvCat [y_b, ad_b], tag_bytes isk_b sid_b y_b ad_b} \<subseteq> P"
  obtains a w' where "run_state (confirmationTag isk sid y ad) w = (Some a, w')" "grows w w'" "fresh w (Some a)"
    "live w' (Some a)" "contents w' (Some a) = tag_bytes isk_b sid_b y_b ad_b" "residue w w' {} P"
proof -
  obtain z where run: "run_state (confirmationTag isk sid y ad) w = (Some (length (arrs w) + 4),
      w\<lparr>arrs := arrs w @ [bytes_of ''CPaceMac'' @ sid_b, zeros z, zeros 64, lvCat [y_b, ad_b], tag_bytes isk_b sid_b y_b ad_b]\<rparr>)"
    using assms by (simp add: run_confirmationTag Let_def)
  then show ?thesis
    using assms(5) by (intro that [OF run growsI] residue_append_public [OF arrs_update_append]) (auto simp: nth_append)
qed

text \<open>The end of the initiator's \<open>finish\<close>, once the responder's tag is confirmed.\<close>

lemma run_confirmed:
  assumes tr: "is_transcript w tr ya ada yb adb"
    and live: "live w isk" "live w sid" "live w peerAdb" "live w pid" and adb: "contents w peerAdb = adb"
  obtains a s w' where
    "run_state (do { tagA \<leftarrow> initiatorConfirmationTag tr isk sid; tid \<leftarrow> irTranscript_transcriptID tr;
        sess \<leftarrow> newSession isk tid peerAdb pid; State_Monad.return (Inr (tagA, sess)) }) w = (Inr (Some a, s), w')"
    "kept w w'" "w' = w\<lparr>arrs := arrs w', sstates := sstates w'\<rparr>" "\<exists>x. sstates w' = sstates w @ [x]"
    "s_state s = Some (length (sstates w))"
    "live w' (Some a)" "contents w' (Some a) = tag_bytes (contents w isk) (contents w sid) ya ada"
    "open_session w' s (contents w isk) (sid_output (ir_transcript ya ada yb adb)) adb (contents w pid)"
    "\<forall>t \<in> {Some a, session_secret w' s, s_transcriptID s, s_peerAD s, s_peerID s}. fresh w t"
    "residue w w' {session_secret w' s} (exchange_public (contents w sid) ya ada yb adb (contents w isk) (contents w pid))"
proof -
  let ?P = "exchange_public (contents w sid) ya ada yb adb (contents w isk) (contents w pid)"
  have t: "contents w (t_ya tr) = ya" "contents w (t_ada tr) = ada" "live w (t_transcript tr)"
    "contents w (t_transcript tr) = ir_transcript ya ada yb adb" using tr by (simp_all add: is_transcript_def)
  obtain a w1 where 1: "run_state (confirmationTag isk sid (t_ya tr) (t_ada tr)) w = (Some a, w1)" "grows w w1" "fresh w (Some a)"
    "live w1 (Some a)" "contents w1 (Some a) = tag_bytes (contents w isk) (contents w sid) ya ada" "residue w w1 {} ?P"
    by (rule run_tag [OF refl refl t(1,2) [symmetric], where isk = isk and sid = sid and P = ?P]) (auto simp: exchange_public_def)
  define w2 where "w2 = w1\<lparr>arrs := arrs w1 @ [sid_output (ir_transcript ya ada yb adb)]\<rparr>"
  have g: "grows w1 w2" "grows w w2" using growsI grows_trans [OF 1(2)] by (auto simp: w2_def)
  let ?tid = "Some (length (arrs w1))"
  have tid: "run_state (irTranscript_transcriptID tr) w1 = (?tid, w2)" "live w2 ?tid"
    "contents w2 ?tid = sid_output (ir_transcript ya ada yb adb)"
    using t 1(2) by (simp_all add: irTranscript_transcriptID_def run_simps grows_contents w2_def)
  obtain s w3 where s: "run_state (newSession isk ?tid peerAdb pid) w2 = (s, w3)" "kept w2 w3"
    "w3 = w2\<lparr>arrs := arrs w3, sstates := sstates w3\<rparr>" "\<exists>x. sstates w3 = sstates w2 @ [x]"
    "s_state s = Some (length (sstates w2))"
    "open_session w3 s (contents w2 isk) (contents w2 ?tid) (contents w2 peerAdb) (contents w2 pid)"
    "\<forall>t \<in> {session_secret w3 s, s_transcriptID s, s_peerAD s, s_peerID s}. fresh w2 t"
    "residue w2 w3 {session_secret w3 s} {contents w2 ?tid, contents w2 peerAdb, contents w2 pid}"
    by (rule run_newSession [of w2 isk ?tid peerAdb pid]) (use live tid(2) g(2) in \<open>simp_all add: grows_live\<close>)
  have same: "contents w2 isk = contents w isk" "contents w2 peerAdb = adb" "contents w2 pid = contents w pid"
    using live g(2) adb by (simp_all add: grows_contents)
  have res: "residue w w3 {session_secret w3 s} ?P"
  proof (rule residue_add_kept [OF _ s(2) s(8)])
    show "residue w w2 {} ?P"
      by (rule residue_add_kept [OF 1(6) grows_kept [OF g(1)] residue_append_public [of w2 w1]])
         (auto simp: w2_def exchange_public_def)
  qed (unfold tid(3) same, auto simp: exchange_public_def)
  have tabs: "w2 = w\<lparr>arrs := arrs w2\<rparr>" "sstates w2 = sstates w" using g(2) by (auto simp: grows_def)
  have "kept w w3" using grows_kept [OF g(2)] s(2) by (rule kept_trans)
  moreover have "w3 = w\<lparr>arrs := arrs w3, sstates := sstates w3\<rparr>"
    using g(2) s(3) by (cases w; cases w3) (auto simp: grows_def)
  moreover have "live w3 (Some a) \<and> contents w3 (Some a) = contents w1 (Some a)"
    using kept_contents [OF kept_trans [OF grows_kept [OF g(1)] s(2)] 1(4)] by simp
  moreover have "\<forall>t \<in> {Some a, session_secret w3 s, s_transcriptID s, s_peerAD s, s_peerID s}. fresh w t"
    using s(7) 1(3) fresh_mono [OF grows_length [OF g(2)]] by blast
  ultimately show ?thesis
    using 1(1,5) tid s res same tabs(2)
    by (intro that [of a s w3]) (simp_all add: initiatorConfirmationTag_def)
qed

text \<open>A core that has not been cleared, with its values: scalar, session id, share, associated data, peer identity.\<close>

definition initiator_core :: "world \<Rightarrow> initiatorCore \<Rightarrow> bytes \<Rightarrow> bytes \<Rightarrow> bytes \<Rightarrow> bytes \<Rightarrow> bytes \<Rightarrow> bool" where
  "initiator_core w c y sid ya ada pid \<longleftrightarrow>
     live w (ic_scalar c) \<and> contents w (ic_scalar c) = y \<and> length y = 32 \<and>
     live w (ic_sid c) \<and> contents w (ic_sid c) = sid \<and> live w (ic_ya c) \<and> contents w (ic_ya c) = ya \<and>
     live w (ic_ada c) \<and> contents w (ic_ada c) = ada \<and> live w (ic_peerID c) \<and> contents w (ic_peerID c) = pid"

lemma initiator_core_kept: "kept w w' \<Longrightarrow> initiator_core w c y sid ya ada pid \<Longrightarrow> initiator_core w' c y sid ya ada pid"
  using kept_contents [of w w'] by (simp add: initiator_core_def)

lemma open_session_clear_twice:
  assumes "open_session w s key tid ad pid"
    and "\<forall>t \<in> {session_secret w s, s_transcriptID s, s_peerAD s, s_peerID s}. t = None \<or> t \<notin> {x, y}"
  shows "open_session (w\<lparr>arrs := clear_at x (clear_at y (arrs w))\<rparr>) s key tid ad pid"
proof -
  have "open_session (w\<lparr>arrs := clear_at y (arrs w)\<rparr>) s key tid ad pid"
    using assms by (intro open_session_clear) auto
  from open_session_clear [OF this, of x] assms(2) show ?thesis by (simp add: session_secret_def) blast
qed

context field_lengths
begin

text \<open>The state in which the initiator compares tags, for whatever follows.\<close>

lemma run_finish_prefix:
  assumes core: "initiator_core w c y sid ya ada pid" "icores w ! p = c"
    and peer: "live w peerYb" "contents w peerYb = yb" "length yb = 32" "live w peerAdb" "contents w peerAdb = adb"
    and tag: "live w peerTag" "contents w peerTag = tb" and k: "x25519 F y yb \<noteq> zeros 32"
  defines "isk_b \<equiv> isk_bytes sid (x25519 F y yb) (ir_transcript ya ada yb adb)"
  obtains tr a w3 where
    "run_state (initiatorCore_finish F p peerYb peerAdb peerTag) w =
      (case run_state (if tag_bytes isk_b sid yb adb \<noteq> tb then State_Monad.return (Inl (Error (Sentinel ErrConfirmationFailed)))
           else do { tagA \<leftarrow> initiatorConfirmationTag tr (Some a) (ic_sid c); tid \<leftarrow> irTranscript_transcriptID tr;
             sess \<leftarrow> newSession (Some a) tid peerAdb (ic_peerID c); State_Monad.return (Inr (tagA, sess)) }) w3
       of (r, w4) \<Rightarrow> (r, w4\<lparr>arrs := clear_at (Some (length (arrs w) + 1)) (clear_at (Some a) (arrs w4))\<rparr>))"
    "grows w w3" "is_transcript w3 tr ya ada yb adb" "live w3 (Some a)" "length (arrs w) + 2 \<le> a"
    "contents w3 (Some a) = isk_b"
    "residue w w3 {Some (length (arrs w) + 1), Some a} (exchange_public sid ya ada yb adb isk_b pid)"
proof -
  let ?k = "Some (length (arrs w) + 1)" and ?P = "exchange_public sid ya ada yb adb isk_b pid"
  define w1 where "w1 = w\<lparr>arrs := arrs w @ [zeros 32, x25519 F y yb]\<rparr>"
  have g1: "grows w w1" by (auto simp: w1_def)
  note c = core(1) [unfolded initiator_core_def]
  have ss: "run_state (sharedSecret F responderPeerShare (ic_scalar c) peerYb) w = (Inr ?k, w1)"
    using c peer k run_sharedSecret [of w "ic_scalar c" peerYb responderPeerShare] by (simp add: w1_def)
  have l1: "live w1 (ic_ya c)" "live w1 (ic_ada c)" "live w1 peerYb" "live w1 peerAdb" "live w1 (ic_sid c)" "live w1 ?k"
    using c peer g1 by (simp_all add: grows_live) (simp add: w1_def)
  have c1: "contents w1 (ic_ya c) = ya" "contents w1 (ic_ada c) = ada" "contents w1 peerYb = yb" "contents w1 peerAdb = adb"
    "contents w1 (ic_sid c) = sid" "contents w1 ?k = x25519 F y yb"
    using c peer g1 by (simp_all add: grows_contents) (simp add: w1_def nth_append)
  obtain tr a w2 where t:
    "\<And>rest :: irTranscript \<Rightarrow> slice \<Rightarrow> (world, (slice \<times> Session) res) state.
       run_state (do { tr \<leftarrow> newIRTranscript (ic_ya c) (ic_ada c) peerYb peerAdb; isk \<leftarrow> irTranscript_deriveISK tr (ic_sid c) ?k; rest tr isk }) w1 =
       run_state (rest tr (Some a)) w2"
    "grows w1 w2" "is_transcript w2 tr ya ada yb adb"
    "live w2 (Some a)" "fresh w1 (Some a)" "Some a \<notin> transcript_slices tr"
    "contents w2 (Some a) = isk_b"
    "residue w1 w2 (insert (Some a) (transcript_slices tr)) {lvCat [ya, ada], lvCat [yb, adb]}"
    by (rule run_transcript_isk [OF l1, unfolded c1]) (auto simp: isk_b_def)
  have t2: "contents w2 (t_yb tr) = yb" "contents w2 (t_adb tr) = adb" "contents w2 (ic_sid c) = sid"
    using t(2,3) l1 c1 by (simp_all add: is_transcript_def grows_contents)
  obtain b w3 where e: "run_state (confirmationTag (Some a) (ic_sid c) (t_yb tr) (t_adb tr)) w2 = (Some b, w3)" "grows w2 w3"
    "live w3 (Some b)" "contents w3 (Some b) = tag_bytes isk_b sid yb adb" "residue w2 w3 {} ?P"
    by (rule run_tag [OF t(7) [symmetric] t2(3,1,2) [symmetric], where P = ?P]) (auto simp: exchange_public_def)
  have g: "grows w w2" "grows w w3" "grows w1 w3" using g1 t(2) e(2) grows_trans by blast+
  have tb: "contents w3 peerTag = tb" using tag g by (simp add: grows_contents)
  let ?body = "\<lambda>tr isk. do {
      expectedB \<leftarrow> responderConfirmationTag tr isk (ic_sid c); eb \<leftarrow> load expectedB; tb \<leftarrow> load peerTag;
      if \<not> hmac_Equal eb tb then State_Monad.return (Inl (Error (Sentinel ErrConfirmationFailed)))
      else do { tagA \<leftarrow> initiatorConfirmationTag tr isk (ic_sid c); tid \<leftarrow> irTranscript_transcriptID tr;
        sess \<leftarrow> newSession isk tid peerAdb (ic_peerID c); State_Monad.return (Inr (tagA, sess)) } }"
  have "run_state (initiatorCore_finish F p peerYb peerAdb peerTag) w =
      (case run_state (do { tr \<leftarrow> newIRTranscript (ic_ya c) (ic_ada c) peerYb peerAdb;
         isk \<leftarrow> irTranscript_deriveISK tr (ic_sid c) ?k; deferring (clearBytes isk) (?body tr isk) }) w1
       of (r, w4) \<Rightarrow> (r, w4\<lparr>arrs := clear_at ?k (arrs w4)\<rparr>))"
    by (simp add: initiatorCore_finish_def run_icore_at core(2) ss run_deferring run_clearBytes)
  also have "\<dots> = (case run_state (?body tr (Some a)) w2
       of (r, w4) \<Rightarrow> (r, w4\<lparr>arrs := clear_at ?k (clear_at (Some a) (arrs w4))\<rparr>))"
    unfolding t(1) by (simp add: run_deferring run_clearBytes split: prod.split)
  also have "run_state (?body tr (Some a)) w2 =
      run_state (if tag_bytes isk_b sid yb adb \<noteq> tb then State_Monad.return (Inl (Error (Sentinel ErrConfirmationFailed)))
           else do { tagA \<leftarrow> initiatorConfirmationTag tr (Some a) (ic_sid c); tid \<leftarrow> irTranscript_transcriptID tr;
             sess \<leftarrow> newSession (Some a) tid peerAdb (ic_peerID c); State_Monad.return (Inr (tagA, sess)) }) w3"
    using e(1,4) tb by (simp add: responderConfirmationTag_def run_load hmac_Equal_def)
  finally show ?thesis
  proof (rule that)
    have "residue w w1 {?k} {}" by (rule residue_append [of _ _ "[zeros 32, x25519 F y yb]"]) (auto simp: w1_def less_Suc_eq)
    moreover have "residue w1 w2 {Some a} ?P"
      by (rule residue_publish_set [OF t(8), where T = "transcript_slices tr"])
         (use t(3) in \<open>auto simp: is_transcript_def transcript_slices_def exchange_public_def\<close>)
    ultimately have "residue w w2 {?k, Some a} ?P"
      by (rule residue_add_kept [OF _ grows_kept [OF t(2)]]) auto
    then show "residue w w3 {?k, Some a} ?P"
      by (rule residue_add_kept [OF _ grows_kept [OF e(2)] e(5)]) auto
  qed (use g is_transcript_grows [OF e(2) t(3)] t(4,5,7) grows_live [OF e(2) t(4)] grows_contents [OF e(2) t(4)] in \<open>simp_all add: w1_def\<close>)
qed

lemma run_finish_identity:
  assumes "initiator_core w c y sid ya ada pid" "icores w ! p = c"
    and "contents w peerYb = yb" "length yb = 32" "x25519 F y yb = zeros 32"
  shows "run_state (initiatorCore_finish F p peerYb peerAdb peerTag) w =
    (Inl (identity_fault responderPeerShare), w\<lparr>arrs := arrs w @ [zeros 32, zeros 32]\<rparr>)"
  using assms run_sharedSecret [of w "ic_scalar c" peerYb responderPeerShare]
  by (simp add: initiatorCore_finish_def run_simps initiator_core_def)

lemma run_finish_mismatch:
  assumes core: "initiator_core w c y sid ya ada pid" "icores w ! p = c"
    and peer: "live w peerYb" "contents w peerYb = yb" "length yb = 32" "live w peerAdb" "contents w peerAdb = adb"
    and tag: "live w peerTag" "contents w peerTag = tb" and k: "x25519 F y yb \<noteq> zeros 32"
  defines "isk_b \<equiv> isk_bytes sid (x25519 F y yb) (ir_transcript ya ada yb adb)"
  assumes bad: "tb \<noteq> tag_bytes isk_b sid yb adb"
  obtains w' where
    "run_state (initiatorCore_finish F p peerYb peerAdb peerTag) w = (Inl (Error (Sentinel ErrConfirmationFailed)), w')"
    "kept w w'" "same_tables w w'" "residue w w' {} (exchange_public sid ya ada yb adb isk_b pid)"
proof -
  let ?P = "exchange_public sid ya ada yb adb isk_b pid" and ?k = "Some (length (arrs w) + 1)"
  obtain tr a w3 where r:
    "run_state (initiatorCore_finish F p peerYb peerAdb peerTag) w =
      (case run_state (if tag_bytes isk_b sid yb adb \<noteq> tb then State_Monad.return (Inl (Error (Sentinel ErrConfirmationFailed)))
           else do { tagA \<leftarrow> initiatorConfirmationTag tr (Some a) (ic_sid c); tid \<leftarrow> irTranscript_transcriptID tr;
             sess \<leftarrow> newSession (Some a) tid peerAdb (ic_peerID c); State_Monad.return (Inr (tagA, sess)) }) w3
       of (r, w4) \<Rightarrow> (r, w4\<lparr>arrs := clear_at ?k (clear_at (Some a) (arrs w4))\<rparr>))"
    "grows w w3" "length (arrs w) + 2 \<le> a" "residue w w3 {?k, Some a} ?P"
    unfolding isk_b_def by (rule run_finish_prefix [OF core peer tag k])
  let ?w = "w3\<lparr>arrs := clear_at ?k (clear_at (Some a) (arrs w3))\<rparr>"
  have "run_state (initiatorCore_finish F p peerYb peerAdb peerTag) w = (Inl (Error (Sentinel ErrConfirmationFailed)), ?w)"
    using r(1) bad by simp
  moreover have "kept w ?w" "residue w ?w ({?k, Some a} - {?k, Some a}) ?P"
    using r(3) clear_twice [OF refl grows_kept [OF r(2)] _ _ r(4), of ?k "Some a"] by simp_all
  moreover have "same_tables w ?w" using same_tables_trans [OF grows_same_tables [OF r(2)], of ?w] by simp
  ultimately show ?thesis by (intro that) simp_all
qed

lemma run_finish_match:
  assumes core: "initiator_core w c y sid ya ada pid" "icores w ! p = c"
    and peer: "live w peerYb" "contents w peerYb = yb" "length yb = 32" "live w peerAdb" "contents w peerAdb = adb"
    and tag: "live w peerTag" "contents w peerTag = tb" and k: "x25519 F y yb \<noteq> zeros 32"
  defines "isk_b \<equiv> isk_bytes sid (x25519 F y yb) (ir_transcript ya ada yb adb)"
  assumes good: "tb = tag_bytes isk_b sid yb adb"
  obtains b s w' where
    "run_state (initiatorCore_finish F p peerYb peerAdb peerTag) w = (Inr (Some b, s), w')"
    "kept w w'" "w' = w\<lparr>arrs := arrs w', sstates := sstates w'\<rparr>" "\<exists>x. sstates w' = sstates w @ [x]"
    "s_state s = Some (length (sstates w))"
    "live w' (Some b)" "contents w' (Some b) = tag_bytes isk_b sid ya ada"
    "open_session w' s isk_b (sid_output (ir_transcript ya ada yb adb)) adb pid"
    "\<forall>t \<in> {Some b, session_secret w' s, s_transcriptID s, s_peerAD s, s_peerID s}. fresh w t"
    "residue w w' {session_secret w' s} (exchange_public sid ya ada yb adb isk_b pid)"
proof -
  let ?P = "exchange_public sid ya ada yb adb isk_b pid" and ?k = "Some (length (arrs w) + 1)"
  obtain tr a w3 where r:
    "run_state (initiatorCore_finish F p peerYb peerAdb peerTag) w =
      (case run_state (if tag_bytes isk_b sid yb adb \<noteq> tb then State_Monad.return (Inl (Error (Sentinel ErrConfirmationFailed)))
           else do { tagA \<leftarrow> initiatorConfirmationTag tr (Some a) (ic_sid c); tid \<leftarrow> irTranscript_transcriptID tr;
             sess \<leftarrow> newSession (Some a) tid peerAdb (ic_peerID c); State_Monad.return (Inr (tagA, sess)) }) w3
       of (r, w4) \<Rightarrow> (r, w4\<lparr>arrs := clear_at ?k (clear_at (Some a) (arrs w4))\<rparr>))"
    "grows w w3" "is_transcript w3 tr ya ada yb adb" "live w3 (Some a)" "length (arrs w) + 2 \<le> a"
    "contents w3 (Some a) = isk_b" "residue w w3 {?k, Some a} ?P"
    unfolding isk_b_def by (rule run_finish_prefix [OF core peer tag k])
  have l: "live w3 (ic_sid c)" "live w3 peerAdb" "live w3 (ic_peerID c)" "contents w3 peerAdb = adb"
    "contents w3 (ic_sid c) = sid" "contents w3 (ic_peerID c) = pid"
    using core(1) peer r(2) by (simp_all add: initiator_core_def grows_facts)
  obtain b s w4 where 4:
    "run_state (do { tagA \<leftarrow> initiatorConfirmationTag tr (Some a) (ic_sid c); tid \<leftarrow> irTranscript_transcriptID tr;
        sess \<leftarrow> newSession (Some a) tid peerAdb (ic_peerID c); State_Monad.return (Inr (tagA, sess)) }) w3 =
       (Inr (Some b, s) :: (slice \<times> Session) res, w4)"
    "kept w3 w4" "w4 = w3\<lparr>arrs := arrs w4, sstates := sstates w4\<rparr>" "\<exists>x. sstates w4 = sstates w3 @ [x]"
    "s_state s = Some (length (sstates w3))"
    "live w4 (Some b)" "contents w4 (Some b) = tag_bytes isk_b sid ya ada"
    "open_session w4 s isk_b (sid_output (ir_transcript ya ada yb adb)) adb pid"
    "\<forall>t \<in> {Some b, session_secret w4 s, s_transcriptID s, s_peerAD s, s_peerID s}. fresh w3 t"
    "residue w3 w4 {session_secret w4 s} ?P"
    by (rule run_confirmed [OF r(3,4) l(1-4), unfolded l r(6)])
  let ?w = "w4\<lparr>arrs := clear_at ?k (clear_at (Some a) (arrs w4))\<rparr>"
  have "(tag_bytes isk_b sid yb adb \<noteq> tb) = False" using good by simp
  then have "run_state (initiatorCore_finish F p peerYb peerAdb peerTag) w = (Inr (Some b, s), ?w)"
    using 4(1) unfolding r(1) by (simp only: if_False prod.case)
  moreover have k4: "kept w w4" using grows_kept [OF r(2)] 4(2) by (rule kept_trans)
  have "residue w w4 ({?k, Some a} \<union> {session_secret w4 s}) ?P"
    by (rule residue_add_kept [OF r(7) 4(2) 4(10)]) auto
  from clear_twice [OF refl k4 _ _ this, of ?k "Some a"] r(5)
  have "kept w ?w" "residue w ?w {session_secret w4 s} ?P" by (auto elim: residue_mono)
  moreover have "?w = w\<lparr>arrs := arrs ?w, sstates := sstates ?w\<rparr>"
    using r(2) 4(3) by (cases w; cases w4) (auto simp: grows_def)
  moreover have new: "t = None \<or> t \<notin> {?k, Some a}" "fresh w t"
    if "t \<in> {Some b, session_secret w4 s, s_transcriptID s, s_peerAD s, s_peerID s}" for t
    using that 4(9) r(4) grows_length [OF r(2)] r(5) fresh_mono [OF grows_length [OF r(2)], of t]
      fresh_not_live [of w3 t "Some a"] fresh_not_live [of w3 t ?k] by auto
  moreover have "open_session ?w s isk_b (sid_output (ir_transcript ya ada yb adb)) adb pid"
    by (rule open_session_clear_twice [OF 4(8)]) (use new(1) in blast)
  moreover have "sstates w3 = sstates w" using r(2) by (auto simp: grows_def)
  moreover have "session_secret ?w s = session_secret w4 s" by (simp add: session_secret_def)
  moreover have "live ?w (Some b)" "contents ?w (Some b) = tag_bytes isk_b sid ya ada"
    using clear_twice_contents [OF refl 4(6), of ?k "Some a"] new(1) [of "Some b"] 4(7) by auto
  ultimately show ?thesis
    using 4(4,5) by (intro that [of b s ?w]) auto
qed

end

end
