(* ===== verification/Responder_Core.thy ===== *)
theory Responder_Core
  imports Core
begin

text \<open>
  What the responder's operations of \<^verbatim>\<open>src/core.go\<close> do, on every path: \<open>newResponderCore\<close> refuses a bad
  share before it touches the random source, and its secrets are wiped by the deferred calls;
  \<open>finish\<close> compares the initiator's tag.
\<close>

definition wiped_password :: "world \<Rightarrow> normalizedInput \<Rightarrow> world" where
  "wiped_password w nc = w\<lparr>arrs := clear_at (n_password nc) (arrs w)\<rparr>"

text \<open>A share the responder accepts.\<close>

definition valid_share :: "'e field_ops \<Rightarrow> bytes \<Rightarrow> bool" where
  "valid_share F b \<longleftrightarrow> length b = 32 \<and> x25519 F peerShareValidationScalar b \<noteq> zeros 32"

text \<open>
  The part of \<open>newResponderCore\<close> after the shared secret is computed.
\<close>

definition responder_tail :: "normalizedInput \<Rightarrow> slice \<Rightarrow> slice \<Rightarrow> slice \<Rightarrow> slice \<Rightarrow> (world, (nat \<times> slice \<times> slice) res) state" where
  "responder_tail nc peerYa peerAda yb k = do {
     tr \<leftarrow> newIRTranscript peerYa peerAda yb (n_ad nc);
     isk \<leftarrow> irTranscript_deriveISK tr (n_sid nc) k;
     tagB \<leftarrow> responderConfirmationTag tr isk (n_sid nc);
     sid \<leftarrow> clone (n_sid nc);
     peerID \<leftarrow> clone (n_initiatorID nc);
     c \<leftarrow> new_object rcores rcores_update \<lparr>rc_isk = isk, rc_transcript = tr, rc_sid = sid, rc_peerID = peerID\<rparr>;
     State_Monad.return (Inr (c, yb, tagB)) }"

text \<open>The world in which it runs: the password is wiped, the new arrays are listed.\<close>

definition responder_mid :: "'e field_ops \<Rightarrow> world \<Rightarrow> normalizedInput \<Rightarrow> bytes \<Rightarrow> nat option \<Rightarrow> nat \<Rightarrow> world" where
  "responder_mid F w nc ya random L =
     (let y = next_scalar w random
      in w\<lparr>readers := drain 32 (random_source random) (readers w),
           arrs := clear_at (n_password nc) (arrs w) @
             [peerShareValidationScalar, zeros 32, zeros 32, zeros L, zeros 64, generator_of F w nc, y,
              zeros 32, x25519 F y (generator_of F w nc), zeros 32, x25519 F y ya]\<rparr>)"

text \<open>A responder core that has not been cleared, with its values.\<close>

definition responder_core :: "world \<Rightarrow> responderCore \<Rightarrow> bytes \<Rightarrow> bytes \<Rightarrow> bytes \<Rightarrow> bytes \<Rightarrow> bytes \<Rightarrow> bytes \<Rightarrow> bytes \<Rightarrow> bool" where
  "responder_core w c isk ya ada yb adb sid pid \<longleftrightarrow>
     live w (rc_isk c) \<and> contents w (rc_isk c) = isk \<and> rc_isk c \<noteq> None \<and> is_transcript w (rc_transcript c) ya ada yb adb \<and>
     live w (rc_sid c) \<and> contents w (rc_sid c) = sid \<and> live w (rc_peerID c) \<and> contents w (rc_peerID c) = pid"

definition core_slices :: "responderCore \<Rightarrow> slice set" where
  "core_slices c = {rc_isk c, rc_sid c, rc_peerID c} \<union> transcript_slices (rc_transcript c)"

lemma run_responder_tail:
  assumes live: "live w peerYa" "live w peerAda" "live w yb" "live w (n_ad nc)" "live w (n_sid nc)" "live w k" "live w (n_initiatorID nc)"
    and cont: "contents w peerYa = ya" "contents w peerAda = ada" "contents w yb = ybb" "contents w (n_ad nc) = adb"
      "contents w (n_sid nc) = sid" "contents w k = kb" "contents w (n_initiatorID nc) = pid"
  defines "isk_b \<equiv> isk_bytes sid kb (ir_transcript ya ada ybb adb)"
  obtains core t w' where
    "run_state (responder_tail nc peerYa peerAda yb k) w = (Inr (length (rcores w), yb, Some t), w')"
    "kept w w'" "w' = w\<lparr>arrs := arrs w', rcores := rcores w @ [core]\<rparr>"
    "responder_core w' core isk_b ya ada ybb adb sid pid"
    "rc_isk core \<notin> insert (Some t) (insert (rc_sid core) (insert (rc_peerID core) (transcript_slices (rc_transcript core))))"
    "live w' (Some t)" "contents w' (Some t) = tag_bytes isk_b sid ybb adb"
    "\<forall>s \<in> insert (Some t) (core_slices core). fresh w s"
    "residue w w' {rc_isk core} (exchange_public sid ya ada ybb adb isk_b pid)"
proof -
  let ?P = "exchange_public sid ya ada ybb adb isk_b pid"
  obtain tr a w1 where t:
    "\<And>rest :: irTranscript \<Rightarrow> slice \<Rightarrow> (world, (nat \<times> slice \<times> slice) res) state.
       run_state (do { tr \<leftarrow> newIRTranscript peerYa peerAda yb (n_ad nc); isk \<leftarrow> irTranscript_deriveISK tr (n_sid nc) k; rest tr isk }) w =
       run_state (rest tr (Some a)) w1"
    "grows w w1" "is_transcript w1 tr ya ada ybb adb" "live w1 (Some a)" "fresh w (Some a)" "Some a \<notin> transcript_slices tr"
    "\<forall>s \<in> transcript_slices tr. fresh w s" "contents w1 (Some a) = isk_b"
    "residue w w1 (insert (Some a) (transcript_slices tr)) {lvCat [ya, ada], lvCat [ybb, adb]}"
    by (rule run_transcript_isk [OF live(1-6), unfolded cont]) (auto simp: isk_b_def)
  have t1: "contents w1 (t_yb tr) = ybb" "contents w1 (t_adb tr) = adb" "contents w1 (n_sid nc) = sid"
    using t(2,3) live cont by (simp_all add: is_transcript_def grows_contents)
  obtain b w2 where e: "run_state (confirmationTag (Some a) (n_sid nc) (t_yb tr) (t_adb tr)) w1 = (Some b, w2)" "grows w1 w2"
    "fresh w1 (Some b)" "live w2 (Some b)" "contents w2 (Some b) = tag_bytes isk_b sid ybb adb" "residue w1 w2 {} ?P"
    by (rule run_tag [OF t(8) [symmetric] t1(3,1,2) [symmetric], where P = ?P]) (auto simp: exchange_public_def)
  have g2: "grows w w2" using t(2) e(2) by (rule grows_trans)
  have "\<forall>s \<in> set [n_sid nc, n_initiatorID nc]. live w2 s" using live g2 by (simp add: grows_live)
  then obtain ts w3 where c: "run_state (clones [n_sid nc, n_initiatorID nc]) w2 = (ts, w3)" "grows w2 w3"
    "length ts = length [n_sid nc, n_initiatorID nc]"
    "map (contents w3) ts = map (contents w2) [n_sid nc, n_initiatorID nc]"
    "\<forall>t \<in> set ts. live w3 t \<and> fresh w2 t" "residue w2 w3 (set ts) {}"
    by (rule clones_spec)
  then obtain s1 s2 where ts: "ts = [s1, s2]" by (auto simp: length_Suc_conv)
  have c3: "contents w3 s1 = sid" "contents w3 s2 = pid"
    using c(4) g2 live cont unfolding ts by (simp_all add: grows_contents)
  let ?core = "\<lparr>rc_isk = Some a, rc_transcript = tr, rc_sid = s1, rc_peerID = s2\<rparr>"
  let ?w = "rcores_update (\<lambda>xs. xs @ [?core]) w3"
  have g3: "grows w w3" "grows w1 w3" using g2 e(2) c(2) grows_trans by blast+
  have run: "run_state (responder_tail nc peerYa peerAda yb k) w = (Inr (length (rcores w), yb, Some b), ?w)"
    using e(1) c(1) g3(1) unfolding responder_tail_def t(1) ts
    by (auto simp: responderConfirmationTag_def run_new_object grows_def split: prod.splits)
  have same: "live ?w x = live w3 x" "contents ?w x = contents w3 x" "kept w ?w = kept w w3" "residue w ?w S P = residue w w3 S P" for x S P
    by (rule live_cong contents_cong kept_cong residue_cong, simp)+
  have tr3: "is_transcript w3 tr ya ada ybb adb" using t(3) g3(2) is_transcript_grows by blast
  then have core: "responder_core ?w ?core isk_b ya ada ybb adb sid pid"
    using c(5) c3 t(4,8) g3(2) unfolding ts
    by (simp add: responder_core_def is_transcript_def same grows_facts del: live.simps contents.simps)
  have new: "Some a \<noteq> s" if "fresh w1 s \<or> fresh w2 s" for s
    using that t(4) grows_length [OF e(2)] by (cases s) auto
  have fr: "\<forall>s \<in> insert (Some b) (core_slices ?core). fresh w s"
    using t(5,7) c(5) fresh_mono [OF grows_length [OF t(2)] e(3)] fresh_mono [OF grows_length [OF g2]]
    unfolding ts by (auto simp: core_slices_def)
  have res: "residue w w3 {Some a} ?P"
  proof (rule residue_add_kept [OF _ grows_kept [OF c(2)] residue_publish_set [OF c(6), where S' = "{}" and T = "set ts"]])
    have "residue w w1 {Some a} ?P"
      by (rule residue_publish_set [OF t(9), where T = "transcript_slices tr"])
         (use t(3) in \<open>auto simp: is_transcript_def transcript_slices_def exchange_public_def\<close>)
    then show "residue w w2 {Some a} ?P"
      by (rule residue_add_kept [OF _ grows_kept [OF e(2)] e(6)]) auto
    show "\<forall>t \<in> set ts. contents w3 t \<in> ?P" using c3 by (auto simp: ts exchange_public_def)
  qed auto
  show ?thesis
  proof (rule that [OF run _ _ core])
    show "kept w ?w" "residue w ?w {rc_isk ?core} ?P" using grows_kept [OF g3(1)] res by (simp_all add: same)
    show "?w = w\<lparr>arrs := arrs ?w, rcores := rcores w @ [?core]\<rparr>" using g3(1) by (cases w) (auto simp: grows_def)
    show "rc_isk ?core \<notin> insert (Some b) (insert (rc_sid ?core) (insert (rc_peerID ?core) (transcript_slices (rc_transcript ?core))))"
      using new [of "Some b"] new [of s1] new [of s2] e(3) c(5) t(6) unfolding ts by auto
    show "live ?w (Some b)" "contents ?w (Some b) = tag_bytes isk_b sid ybb adb"
      using grows_live [OF c(2) e(4)] grows_contents [OF c(2) e(4)] e(5) by (simp_all add: same del: live.simps contents.simps)
  qed (rule fr)
qed

context field_lengths
begin

lemma run_newResponderCore_invalid:
  assumes "live w peerYa"
  shows "length (contents w peerYa) \<noteq> 32 \<Longrightarrow>
      run_state (newResponderCore F nc peerYa peerAda random) w = (Inl length_fault, w)"
    and "length (contents w peerYa) = 32 \<Longrightarrow> x25519 F peerShareValidationScalar (contents w peerYa) = zeros 32 \<Longrightarrow>
      run_state (newResponderCore F nc peerYa peerAda random) w =
        (Inl (identity_fault initiatorPeerShare), w\<lparr>arrs := arrs w @ [peerShareValidationScalar, zeros 32, zeros 32]\<rparr>)"
  by (simp_all add: newResponderCore_def run_validate [OF assms])

lemma run_newResponderCore_norandom:
  assumes "usable w nc" "live w peerYa" "valid_share F (contents w peerYa)" "\<not> has_scalar w random"
  shows "\<exists>L. run_state (newResponderCore F nc peerYa peerAda random) w =
    (Inl (Error (Errorf [W (Sentinel ErrRandomness), Lit '': scalar randomness: '',
                         W (LibError (read_error (readers w ! random_source random)))])),
     w\<lparr>readers := drain 32 (random_source random) (readers w),
       arrs := clear_at (n_password nc) (arrs w) @
         [peerShareValidationScalar, zeros 32, zeros 32, zeros L, zeros 64, zeros 32, zeros 32]\<rparr>)"
proof -
  have "clear_at (n_password nc) (arrs w @ B) = clear_at (n_password nc) (arrs w) @ B" for B
    using assms(1) by (intro clear_at_append_left) (simp add: usable_def)
  then show ?thesis
    using assms(3,4)
    by (auto simp: newResponderCore_def run_validate [OF assms(2)] valid_share_def run_simps Let_def has_scalar_def
        run_sampleScalar_fail clear_at_beyond)
qed

lemma run_newResponderCore_mid:
  assumes "usable w nc" "live w (n_ci nc)" "survives w (n_password nc) peerYa" "valid_share F (contents w peerYa)" "has_scalar w random"
  defines "n \<equiv> length (arrs w)" and "y \<equiv> next_scalar w random"
  shows "\<exists>L. run_state (newResponderCore F nc peerYa peerAda random) w =
    (let w6 = responder_mid F w nc (contents w peerYa) random L
     in if x25519 F y (contents w peerYa) = zeros 32
        then (Inl (identity_fault initiatorPeerShare),
              w6\<lparr>arrs := clear_at (Some (n + 5)) (clear_at (Some (n + 6)) (arrs w6))\<rparr>)
        else case run_state (responder_tail nc peerYa peerAda (Some (n + 8)) (Some (n + 10))) w6 of (r, w') \<Rightarrow>
          (r, w'\<lparr>arrs := clear_at (Some (n + 5)) (clear_at (Some (n + 6)) (clear_at (Some (n + 10)) (arrs w')))\<rparr>))"
proof -
  have clr: "clear_at (n_password nc) (arrs w @ B) = clear_at (n_password nc) (arrs w) @ B" for B
    using assms(1) by (intro clear_at_append_left) (simp add: usable_def)
  have l: "live w peerYa" "live w (n_password nc)" "live w (n_sid nc)" using assms(1,3) by (auto simp: usable_def survives_def)
  have old: "contents (w\<lparr>arrs := arrs w @ B\<rparr>) s = contents w s" if "live w s" for s B
    using that growsI grows_contents by blast
  have ya: "contents (w\<lparr>readers := R, arrs := clear_at (n_password nc) (arrs w) @ B\<rparr>) peerYa = contents w peerYa" for R B
    by (rule survives_contents [OF assms(3)]) simp
  have n: "n + 5 = Suc (Suc (Suc (Suc (Suc n))))" "n + 6 = Suc (Suc (Suc (Suc (Suc (Suc n)))))"
    "n + 8 = Suc (Suc (Suc (Suc (Suc (Suc (Suc (Suc n)))))))" "n + 10 = Suc (Suc (Suc (Suc (Suc (Suc (Suc (Suc (Suc (Suc n)))))))))"
    by simp_all
  show ?thesis
    using assms(4,5)
    by (intro exI [of _ "length (generatorString (bytes_of dsiX25519) (contents w (n_password nc)) (contents w (n_ci nc)) (contents w (n_sid nc)) 128)"])
       (simp add: newResponderCore_def run_validate [OF l(1)] valid_share_def run_simps Let_def has_scalar_def
        run_sampleScalar_ok scalarMult_def run_x25519ScalarMult run_sharedSecret nth_append old l assms(2) clr ya
        responder_mid_def responder_tail_def y_def next_scalar_def generator_of_def n_def [symmetric] n split: prod.split)
qed

end

lemma clear_all_keeps:
  assumes "arrs w' = clear_all ss (arrs w)" "live w t" "t = None \<or> t \<notin> set ss"
  shows "live w' t" "contents w' t = contents w t"
  using assms by (cases t; auto simp: nth_clear_all)+

lemma responder_core_clear_all:
  assumes "responder_core w c isk ya ada yb adb sid pid" "arrs w' = clear_all ss (arrs w)"
    and "\<forall>t \<in> core_slices c. t = None \<or> t \<notin> set ss"
  shows "responder_core w' c isk ya ada yb adb sid pid"
proof -
  have "live w t \<Longrightarrow> t \<in> core_slices c \<Longrightarrow> live w' t \<and> contents w' t = contents w t" for t
    using clear_all_keeps [OF assms(2)] assms(3) by blast
  with assms(1) show ?thesis
    by (simp add: responder_core_def is_transcript_def core_slices_def transcript_slices_def)
qed

context field_lengths
begin

lemma run_newResponderCore_ok:
  assumes nc: "usable w nc" "live w (n_ci nc)" and peer: "survives w (n_password nc) peerYa" "survives w (n_password nc) peerAda"
    and ya: "valid_share F (contents w peerYa)" and rnd: "has_scalar w random"
  defines "y \<equiv> next_scalar w random" and "wA \<equiv> wiped_password w nc"
    and "ybb \<equiv> x25519 F (next_scalar w random) (generator_of F w nc)"
    and "kb \<equiv> x25519 F (next_scalar w random) (contents w peerYa)"
  defines "isk_b \<equiv> isk_bytes (contents w (n_sid nc)) kb
      (ir_transcript (contents w peerYa) (contents w peerAda) ybb (contents w (n_ad nc)))"
  assumes k: "kb \<noteq> zeros 32"
  obtains core yb t w' where
    "run_state (newResponderCore F nc peerYa peerAda random) w = (Inr (length (rcores w), yb, Some t), w')"
    "w' = w\<lparr>readers := drain 32 (random_source random) (readers w), arrs := arrs w', rcores := rcores w @ [core]\<rparr>"
    "kept wA w'"
    "responder_core w' core isk_b (contents w peerYa) (contents w peerAda) ybb (contents w (n_ad nc)) (contents w (n_sid nc)) (contents w (n_initiatorID nc))"
    "rc_isk core \<notin> {yb, Some t, rc_sid core, rc_peerID core} \<union> transcript_slices (rc_transcript core)"
    "live w' yb" "contents w' yb = ybb" "live w' (Some t)" "contents w' (Some t) = tag_bytes isk_b (contents w (n_sid nc)) ybb (contents w (n_ad nc))"
    "\<forall>s \<in> {yb, Some t} \<union> core_slices core. fresh w s"
    "residue wA w' {rc_isk core}
       (insert peerShareValidationScalar (exchange_public (contents w (n_sid nc)) (contents w peerYa) (contents w peerAda) ybb
          (contents w (n_ad nc)) isk_b (contents w (n_initiatorID nc))))"
proof -
  let ?n = "length (arrs w)"
  obtain L where run: "run_state (newResponderCore F nc peerYa peerAda random) w =
    (let w6 = responder_mid F w nc (contents w peerYa) random L
     in if kb = zeros 32
        then (Inl (identity_fault initiatorPeerShare),
              w6\<lparr>arrs := clear_at (Some (?n + 5)) (clear_at (Some (?n + 6)) (arrs w6))\<rparr>)
        else case run_state (responder_tail nc peerYa peerAda (Some (?n + 8)) (Some (?n + 10))) w6 of (r, w') \<Rightarrow>
          (r, w'\<lparr>arrs := clear_at (Some (?n + 5)) (clear_at (Some (?n + 6)) (clear_at (Some (?n + 10)) (arrs w')))\<rparr>))"
    using run_newResponderCore_mid [OF nc peer(1) ya rnd] unfolding kb_def by blast
  define w6 where "w6 = responder_mid F w nc (contents w peerYa) random L"
  have a6: "arrs w6 = clear_at (n_password nc) (arrs w) @ [peerShareValidationScalar, zeros 32, zeros 32, zeros L, zeros 64,
      generator_of F w nc, y, zeros 32, ybb, zeros 32, kb]"
    by (simp add: w6_def responder_mid_def Let_def y_def ybb_def kb_def)
  have old: "live w6 s" "contents w6 s = contents w s" if "survives w (n_password nc) s" for s
    using survives_contents [OF that a6] by auto
  have new: "live w6 (Some (?n + 8))" "contents w6 (Some (?n + 8)) = ybb" "live w6 (Some (?n + 10))" "contents w6 (Some (?n + 10)) = kb"
    by (simp_all add: a6 nth_append)
  note u = nc(1) [unfolded usable_def]
  obtain core t w' where t:
    "run_state (responder_tail nc peerYa peerAda (Some (?n + 8)) (Some (?n + 10))) w6 = (Inr (length (rcores w6), Some (?n + 8), Some t), w')"
    "kept w6 w'" "w' = w6\<lparr>arrs := arrs w', rcores := rcores w6 @ [core]\<rparr>"
    "responder_core w' core isk_b (contents w peerYa) (contents w peerAda) ybb (contents w (n_ad nc)) (contents w (n_sid nc)) (contents w (n_initiatorID nc))"
    "rc_isk core \<notin> insert (Some t) (insert (rc_sid core) (insert (rc_peerID core) (transcript_slices (rc_transcript core))))"
    "live w' (Some t)" "contents w' (Some t) = tag_bytes isk_b (contents w (n_sid nc)) ybb (contents w (n_ad nc))"
    "\<forall>s \<in> insert (Some t) (core_slices core). fresh w6 s"
    "residue w6 w' {rc_isk core} (exchange_public (contents w (n_sid nc)) (contents w peerYa) (contents w peerAda) ybb
          (contents w (n_ad nc)) isk_b (contents w (n_initiatorID nc)))"
    unfolding isk_b_def
    by (rule run_responder_tail [of w6 peerYa peerAda "Some (?n + 8)" nc "Some (?n + 10)" "contents w peerYa" "contents w peerAda" ybb
          "contents w (n_ad nc)" "contents w (n_sid nc)" kb "contents w (n_initiatorID nc)"])
       (use u peer old new in \<open>auto simp del: contents.simps live.simps\<close>)
  let ?ss = "[Some (?n + 10), Some (?n + 6), Some (?n + 5)]" and ?yb = "Some (?n + 8)"
  define w'' where "w'' = w'\<lparr>arrs := clear_all ?ss (arrs w')\<rparr>"
  have a'': "arrs w'' = clear_all ?ss (arrs w')" by (simp add: w''_def)
  let ?P = "exchange_public (contents w (n_sid nc)) (contents w peerYa) (contents w peerAda) ybb (contents w (n_ad nc)) isk_b (contents w (n_initiatorID nc))"
  have r: "rcores w6 = rcores w" by (simp add: w6_def responder_mid_def Let_def)
  have run': "run_state (newResponderCore F nc peerYa peerAda random) w = (Inr (length (rcores w), ?yb, Some t), w'')"
    unfolding run Let_def w6_def [symmetric] t(1) r w''_def using k by (simp add: clear_all_def)
  have wA: "arrs wA = clear_at (n_password nc) (arrs w)" "length (arrs wA) = ?n" by (simp_all add: wA_def wiped_password_def)
  have k6: "kept wA w6" by (rule kept_append) (simp add: a6 wA)
  have res6: "residue wA w6 (set ?ss) (insert peerShareValidationScalar ?P)"
    by (rule residue_append [of _ _ "[peerShareValidationScalar, zeros 32, zeros 32, zeros L, zeros 64,
      generator_of F w nc, y, zeros 32, ybb, zeros 32, kb]"])
       (auto simp: a6 wA less_Suc_eq numeral_eq_Suc exchange_public_def)
  have res': "residue wA w' (insert (rc_isk core) (set ?ss)) (insert peerShareValidationScalar ?P)"
    by (rule residue_add_kept [OF res6 t(2) t(9)]) auto
  have fr: "s = None \<or> s \<notin> insert ?yb (set ?ss)" "fresh w s" if "s \<in> insert (Some t) (core_slices core)" for s
    using t(8) that by (cases s; force simp: a6)+
  show ?thesis
  proof (rule that [OF run'])
    show "w'' = w\<lparr>readers := drain 32 (random_source random) (readers w), arrs := arrs w'', rcores := rcores w @ [core]\<rparr>"
      using t(3) unfolding w''_def w6_def responder_mid_def Let_def by (cases w; cases w') simp
    show "kept wA w''"
      by (rule kept_clear_all [OF kept_trans [OF k6 t(2)] _ a'']) (simp add: wA)
    show "responder_core w'' core isk_b (contents w peerYa) (contents w peerAda) ybb (contents w (n_ad nc)) (contents w (n_sid nc)) (contents w (n_initiatorID nc))"
      using fr(1) by (intro responder_core_clear_all [OF t(4) a'']) blast
    show "rc_isk core \<notin> {?yb, Some t, rc_sid core, rc_peerID core} \<union> transcript_slices (rc_transcript core)"
      using t(4,5) fr(1) [of "rc_isk core"] by (auto simp: core_slices_def responder_core_def)
    show "live w'' ?yb" "contents w'' ?yb = ybb"
      using clear_all_keeps [OF a'', of ?yb] kept_contents [OF t(2) new(1)] new(2) by auto
    show "live w'' (Some t)" "contents w'' (Some t) = tag_bytes isk_b (contents w (n_sid nc)) ybb (contents w (n_ad nc))"
      using clear_all_keeps [OF a'' t(6)] fr(1) [of "Some t"] t(7) by auto
    show "\<forall>s \<in> {?yb, Some t} \<union> core_slices core. fresh w s" using fr(2) by auto
    show "residue wA w'' {rc_isk core} (insert peerShareValidationScalar ?P)"
      using residue_clear_all [OF res' a''] by (rule residue_mono) auto
  qed
qed

lemma run_newResponderCore_identity:
  assumes nc: "usable w nc" "live w (n_ci nc)" and peer: "survives w (n_password nc) peerYa"
    and ya: "valid_share F (contents w peerYa)" and rnd: "has_scalar w random"
    and k: "x25519 F (next_scalar w random) (contents w peerYa) = zeros 32"
  obtains w' where
    "run_state (newResponderCore F nc peerYa peerAda random) w = (Inl (identity_fault initiatorPeerShare), w')"
    "w' = w\<lparr>readers := drain 32 (random_source random) (readers w), arrs := arrs w'\<rparr>"
    "kept (wiped_password w nc) w'"
    "residue (wiped_password w nc) w' {} {peerShareValidationScalar, x25519 F (next_scalar w random) (generator_of F w nc)}"
proof -
  let ?n = "length (arrs w)" and ?y = "next_scalar w random" and ?g = "generator_of F w nc"
  have len: "length ?y = 32" "length ?g = 32" using rnd by (simp_all add: next_scalar_def has_scalar_def generator_of_def)
  obtain L where "run_state (newResponderCore F nc peerYa peerAda random) w =
    (let w6 = responder_mid F w nc (contents w peerYa) random L
     in (Inl (identity_fault initiatorPeerShare),
              w6\<lparr>arrs := clear_at (Some (?n + 5)) (clear_at (Some (?n + 6)) (arrs w6))\<rparr>))"
    using run_newResponderCore_mid [OF nc peer ya rnd] k by auto
  then have run: "run_state (newResponderCore F nc peerYa peerAda random) w = (Inl (identity_fault initiatorPeerShare),
      w\<lparr>readers := drain 32 (random_source random) (readers w),
        arrs := clear_at (n_password nc) (arrs w) @ [peerShareValidationScalar, zeros 32, zeros 32, zeros L, zeros 64, zeros 32, zeros 32,
          zeros 32, x25519 F ?y ?g, zeros 32, zeros 32]\<rparr>)"
    using len k by (simp add: responder_mid_def Let_def clear_at_beyond)
  show ?thesis
    by (rule that [OF run])
       (auto simp: wiped_password_def intro!: kept_append residue_append_public)
qed

end

section \<open>Finishing\<close>

lemma run_responder_finish:
  assumes core: "responder_core w c isk_b ya ada yb adb sid pid" "rcores w ! p = c"
    and tag: "live w peerTagC" "contents w peerTagC = tb"
  obtains (mismatch) w' where "tb \<noteq> tag_bytes isk_b sid ya ada"
    "run_state (responderCore_finish p peerTagC) w = (Inl (Error (Sentinel ErrConfirmationFailed)), w')"
    "grows w w'" "residue w w' {} (exchange_public sid ya ada yb adb isk_b pid)"
  | (match) s w' where "tb = tag_bytes isk_b sid ya ada"
    "run_state (responderCore_finish p peerTagC) w = (Inr s, w')"
    "kept w w'" "w' = w\<lparr>arrs := arrs w', sstates := sstates w'\<rparr>" "\<exists>x. sstates w' = sstates w @ [x]"
    "s_state s = Some (length (sstates w))"
    "open_session w' s isk_b (sid_output (ir_transcript ya ada yb adb)) ada pid"
    "\<forall>t \<in> {session_secret w' s, s_transcriptID s, s_peerAD s, s_peerID s}. fresh w t"
    "residue w w' {session_secret w' s} (exchange_public sid ya ada yb adb isk_b pid)"
proof -
  let ?P = "exchange_public sid ya ada yb adb isk_b pid" and ?tr = "rc_transcript c"
  note c = core(1) [unfolded responder_core_def is_transcript_def]
  obtain b w1 where e: "run_state (confirmationTag (rc_isk c) (rc_sid c) (t_ya ?tr) (t_ada ?tr)) w = (Some b, w1)" "grows w w1"
    "live w1 (Some b)" "contents w1 (Some b) = tag_bytes isk_b sid ya ada" "residue w w1 {} ?P"
    by (rule run_tag [where P = ?P and isk = "rc_isk c" and sid = "rc_sid c" and y = "t_ya ?tr" and ad = "t_ada ?tr" and w = w])
       (use c in \<open>auto simp: exchange_public_def\<close>)
  have tb: "contents w1 peerTagC = tb" using tag e(2) by (simp add: grows_contents)
  show ?thesis
  proof (cases "tb = tag_bytes isk_b sid ya ada")
    case False
    then have "run_state (responderCore_finish p peerTagC) w = (Inl (Error (Sentinel ErrConfirmationFailed)), w1)"
      using e(1,4) tb core(2) by (simp add: responderCore_finish_def run_rcore_at run_load initiatorConfirmationTag_def hmac_Equal_def)
    with False show ?thesis using e(2,5) by (intro mismatch)
  next
    case True
    define w2 where "w2 = w1\<lparr>arrs := arrs w1 @ [sid_output (ir_transcript ya ada yb adb)]\<rparr>"
    let ?tid = "Some (length (arrs w1))"
    have g: "grows w1 w2" "grows w w2" using growsI grows_trans [OF e(2)] by (auto simp: w2_def)
    have tid: "run_state (irTranscript_transcriptID ?tr) w1 = (?tid, w2)" "live w2 ?tid" "contents w2 ?tid = sid_output (ir_transcript ya ada yb adb)"
      using c e(2) by (simp_all add: irTranscript_transcriptID_def run_transcriptID grows_contents w2_def)
    have l2: "live w2 (t_ada ?tr)" using c g(2) by (simp add: grows_live)
    obtain ad w3 where ad: "run_state (clone (t_ada ?tr)) w2 = (ad, w3)" "grows w2 w3" "live w3 ad" "fresh w2 ad"
      "contents w3 ad = contents w2 (t_ada ?tr)" "residue w2 w3 {ad} {}"
      by (rule clone_spec [OF l2])
    have g3: "grows w w3" using g(2) ad(2) by (rule grows_trans)
    have c3: "contents w3 (rc_isk c) = isk_b" "contents w3 ?tid = sid_output (ir_transcript ya ada yb adb)" "contents w3 ad = ada"
      "contents w3 (rc_peerID c) = pid"
      using c g(2) g3 tid(2,3) ad(2,5) by (simp_all add: grows_contents del: contents.simps live.simps)
    have l3: "live w3 (rc_isk c)" "live w3 ?tid" "live w3 ad" "live w3 (rc_peerID c)"
      using c g3 grows_live [OF ad(2) tid(2)] ad(3) by (simp_all add: grows_live del: live.simps)
    obtain s w4 where s: "run_state (newSession (rc_isk c) ?tid ad (rc_peerID c)) w3 = (s, w4)" "kept w3 w4"
      "w4 = w3\<lparr>arrs := arrs w4, sstates := sstates w4\<rparr>" "\<exists>x. sstates w4 = sstates w3 @ [x]"
      "s_state s = Some (length (sstates w3))"
      "open_session w4 s isk_b (sid_output (ir_transcript ya ada yb adb)) ada pid"
      "\<forall>t \<in> {session_secret w4 s, s_transcriptID s, s_peerAD s, s_peerID s}. fresh w3 t"
      "residue w3 w4 {session_secret w4 s} {sid_output (ir_transcript ya ada yb adb), ada, pid}"
      by (rule run_newSession [OF l3, unfolded c3])
    have "run_state (responderCore_finish p peerTagC) w = (Inr s, w4)"
      using True e(1,4) tb core(2) tid(1) ad(1) s(1)
      by (simp add: responderCore_finish_def run_rcore_at run_load initiatorConfirmationTag_def hmac_Equal_def initiatorAD_def)
    moreover have "kept w w4" using grows_kept [OF g3] s(2) by (rule kept_trans)
    moreover have "w4 = w\<lparr>arrs := arrs w4, sstates := sstates w4\<rparr>" "sstates w3 = sstates w"
      using g3 s(3) by (cases w; cases w4; auto simp: grows_def)+
    moreover have "\<forall>t \<in> {session_secret w4 s, s_transcriptID s, s_peerAD s, s_peerID s}. fresh w t"
      using s(7) fresh_mono [OF grows_length [OF g3]] by blast
    moreover have "residue w w4 {session_secret w4 s} ?P"
    proof (rule residue_add_kept [OF _ s(2) s(8)])
      have "residue w w2 {} ?P"
        by (rule residue_add_kept [OF e(5) grows_kept [OF g(1)] residue_append_public [of w2 w1]]) (auto simp: w2_def exchange_public_def)
      then show "residue w w3 {} ?P"
        by (rule residue_add_kept [OF _ grows_kept [OF ad(2)] residue_publish_set [OF ad(6), where T = "{ad}" and S' = "{}" and P' = "{ada}"]])
           (use c3(3) in \<open>auto simp: exchange_public_def\<close>)
    qed (auto simp: exchange_public_def)
    ultimately show ?thesis using True s(4,5,6) by (intro match [of s w4]) simp_all
  qed
qed

end
