(* ===== verification/Protocol.thy ===== *)
theory Protocol
  imports Responder_Core
begin

text \<open>
  The exchange as functions on byte strings: what each party computes from its input, its scalar and
  the message it receives, without memory, objects or wiping. This is the contract that the
  operations of \<^verbatim>\<open>src/api.go\<close> refine; the agreement of the two parties is proved here.
\<close>

record party =
  pt_password :: bytes
  pt_selfID :: bytes
  pt_peerID :: bytes
  pt_context :: bytes
  pt_sid :: bytes
  pt_ad :: bytes

record initiator_view =
  iv_scalar :: bytes
  iv_sid :: bytes
  iv_ya :: bytes
  iv_ada :: bytes
  iv_peerID :: bytes

record responder_view =
  rv_isk :: bytes
  rv_ya :: bytes
  rv_ada :: bytes
  rv_yb :: bytes
  rv_adb :: bytes
  rv_sid :: bytes
  rv_peerID :: bytes

record session_view =
  sv_key :: bytes
  sv_transcriptID :: bytes
  sv_peerAD :: bytes
  sv_peerID :: bytes

text \<open>The generator of an exchange, from the identities in their roles.\<close>

definition spec_generator :: "'e field_ops \<Rightarrow> bytes \<Rightarrow> bytes \<Rightarrow> bytes \<Rightarrow> bytes \<Rightarrow> bytes \<Rightarrow> bytes" where
  "spec_generator F password initiatorID responderID ctx sid =
     generator_bytes F password (buildCI initiatorID responderID ctx) sid"

definition spec_start :: "'e field_ops \<Rightarrow> party \<Rightarrow> bytes \<Rightarrow> initiator_view \<times> bytes" where
  "spec_start F p y =
     (let ya = x25519 F y (spec_generator F (pt_password p) (pt_selfID p) (pt_peerID p) (pt_context p) (pt_sid p))
      in (\<lparr>iv_scalar = y, iv_sid = pt_sid p, iv_ya = ya, iv_ada = pt_ad p, iv_peerID = pt_peerID p\<rparr>,
          wireA \<lparr>a_sid = pt_sid p, a_ya = ya, a_ada = pt_ad p\<rparr>))"

definition randomness_fault :: "lib_error \<Rightarrow> fault" where
  "randomness_fault e = Error (Errorf [W (Sentinel ErrRandomness), Lit '': scalar randomness: '', W (LibError e)])"

text \<open>The responder's answer; the scalar (or the failure of the random source) is asked for last.\<close>

definition spec_respond :: "'e field_ops \<Rightarrow> party \<Rightarrow> bytes \<Rightarrow> lib_error + bytes \<Rightarrow> (responder_view \<times> bytes) res" where
  "spec_respond F p msgA random =
     (case decodeMessageA msgA of
        Inl f \<Rightarrow> Inl f
      | Inr a \<Rightarrow>
          if a_sid a \<noteq> pt_sid p then Inl (Error (wrapf ErrMessage '': session id mismatch''))
          else if \<not> valid_share F (a_ya a) then Inl (identity_fault initiatorPeerShare)
          else case random of
            Inl e \<Rightarrow> Inl (randomness_fault e)
          | Inr y \<Rightarrow>
              (let k = x25519 F y (a_ya a);
                   yb = x25519 F y (spec_generator F (pt_password p) (pt_peerID p) (pt_selfID p) (pt_context p) (pt_sid p));
                   isk = isk_bytes (pt_sid p) k (ir_transcript (a_ya a) (a_ada a) yb (pt_ad p))
               in if k = zeros 32 then Inl (identity_fault initiatorPeerShare)
                  else Inr (\<lparr>rv_isk = isk, rv_ya = a_ya a, rv_ada = a_ada a, rv_yb = yb, rv_adb = pt_ad p,
                             rv_sid = pt_sid p, rv_peerID = pt_peerID p\<rparr>,
                            wireB \<lparr>b_yb = yb, b_adb = pt_ad p, b_tag = tag_bytes isk (pt_sid p) yb (pt_ad p)\<rparr>)))"

definition spec_initiator_finish :: "'e field_ops \<Rightarrow> initiator_view \<Rightarrow> bytes \<Rightarrow> (bytes \<times> session_view) res" where
  "spec_initiator_finish F v msgB =
     (case decodeMessageB msgB of
        Inl f \<Rightarrow> Inl f
      | Inr b \<Rightarrow>
          (let k = x25519 F (iv_scalar v) (b_yb b);
               tr = ir_transcript (iv_ya v) (iv_ada v) (b_yb b) (b_adb b);
               isk = isk_bytes (iv_sid v) k tr
           in if k = zeros 32 then Inl (identity_fault responderPeerShare)
              else if b_tag b \<noteq> tag_bytes isk (iv_sid v) (b_yb b) (b_adb b) then Inl (Error (Sentinel ErrConfirmationFailed))
              else Inr (wireC \<lparr>c_tag = tag_bytes isk (iv_sid v) (iv_ya v) (iv_ada v)\<rparr>,
                        \<lparr>sv_key = isk, sv_transcriptID = sid_output tr, sv_peerAD = b_adb b, sv_peerID = iv_peerID v\<rparr>)))"

definition spec_responder_finish :: "responder_view \<Rightarrow> bytes \<Rightarrow> session_view res" where
  "spec_responder_finish v msgC =
     (case decodeMessageC msgC of
        Inl f \<Rightarrow> Inl f
      | Inr c \<Rightarrow>
          if c_tag c \<noteq> tag_bytes (rv_isk v) (rv_sid v) (rv_ya v) (rv_ada v) then Inl (Error (Sentinel ErrConfirmationFailed))
          else Inr \<lparr>sv_key = rv_isk v, sv_transcriptID = sid_output (ir_transcript (rv_ya v) (rv_ada v) (rv_yb v) (rv_adb v)),
                    sv_peerAD = rv_ada v, sv_peerID = rv_peerID v\<rparr>)"

text \<open>Inputs the package accepts, as byte strings, and two parties whose inputs mirror each other.\<close>

definition admissible :: "party \<Rightarrow> bool" where
  "admissible p \<longleftrightarrow> length (pt_sid p) \<le> 1024 \<and> length (pt_ad p) \<le> 65536"

definition mirrored :: "party \<Rightarrow> party \<Rightarrow> bool" where
  "mirrored a b \<longleftrightarrow> pt_password a = pt_password b \<and> pt_selfID a = pt_peerID b \<and> pt_peerID a = pt_selfID b \<and>
     pt_context a = pt_context b \<and> pt_sid a = pt_sid b"

lemma wire_ok:
  "length sid \<le> 1024 \<Longrightarrow> length y = 32 \<Longrightarrow> length ad \<le> 65536 \<Longrightarrow> okA \<lparr>a_sid = sid, a_ya = y, a_ada = ad\<rparr>"
  "length y = 32 \<Longrightarrow> length ad \<le> 65536 \<Longrightarrow> length t = 64 \<Longrightarrow> okB \<lparr>b_yb = y, b_adb = ad, b_tag = t\<rparr>"
  "length t = 64 \<Longrightarrow> okC \<lparr>c_tag = t\<rparr>"
  by (simp_all add: okA_def okB_def okC_def within_cap_def cap_defs)

lemma decoded_lengths:
  "decodeMessageA m = Inr a \<Longrightarrow> length (a_ya a) = 32"
  "decodeMessageB m = Inr b \<Longrightarrow> length (b_yb b) = 32 \<and> length (b_tag b) = 64"
  "decodeMessageC m = Inr c \<Longrightarrow> length (c_tag c) = 64"
  by (auto simp: msgA.dec_iff msgB.dec_iff msgC.dec_iff okA_def okB_def okC_def within_cap_def cap_defs)

context field_lengths
begin

lemma spec_exchange:
  fixes p q y x
  defines "g \<equiv> spec_generator F (pt_password p) (pt_selfID p) (pt_peerID p) (pt_context p) (pt_sid p)"
  assumes adm: "admissible p" "admissible q" and mir: "mirrored p q"
    and dh: "x25519 F x (x25519 F y g) = x25519 F y (x25519 F x g)" "x25519 F x (x25519 F y g) \<noteq> zeros 32"
    and share: "valid_share F (x25519 F x g)"
  obtains v msgA r msgB msgC key tid where
    "spec_start F p x = (v, msgA)" "spec_respond F q msgA (Inr y) = Inr (r, msgB)"
    "spec_initiator_finish F v msgB = Inr (msgC, \<lparr>sv_key = key, sv_transcriptID = tid, sv_peerAD = pt_ad q, sv_peerID = pt_selfID q\<rparr>)"
    "spec_responder_finish r msgC = Inr \<lparr>sv_key = key, sv_transcriptID = tid, sv_peerAD = pt_ad p, sv_peerID = pt_selfID p\<rparr>"
proof -
  let ?ya = "x25519 F x g" and ?yb = "x25519 F y g"
  have g: "spec_generator F (pt_password q) (pt_peerID q) (pt_selfID q) (pt_context q) (pt_sid q) = g"
    using mir by (simp add: g_def mirrored_def)
  have "okA \<lparr>a_sid = pt_sid p, a_ya = ?ya, a_ada = pt_ad p\<rparr>" "\<And>t. length t = 64 \<Longrightarrow> okB \<lparr>b_yb = ?yb, b_adb = pt_ad q, b_tag = t\<rparr>"
    using adm by (auto intro!: wire_ok simp: admissible_def)
  moreover have "decodeMessageB (wireB \<lparr>b_yb = ?yb, b_adb = pt_ad q, b_tag = tag_bytes i s u d\<rparr>) = Inr \<lparr>b_yb = ?yb, b_adb = pt_ad q, b_tag = tag_bytes i s u d\<rparr>"
    "decodeMessageC (wireC \<lparr>c_tag = tag_bytes i s u d\<rparr>) = Inr \<lparr>c_tag = tag_bytes i s u d\<rparr>" for i s u d
    using calculation(2) wire_ok(3) by (simp_all add: decodeMessageB_ok decodeMessageC_ok)
  note dec = decodeMessageA_ok [OF calculation(1)] this
  let ?k = "x25519 F x ?yb" and ?sid = "pt_sid p"
  let ?tr = "ir_transcript ?ya (pt_ad p) ?yb (pt_ad q)"
  let ?isk = "isk_bytes ?sid ?k ?tr"
  let ?r = "\<lparr>rv_isk = ?isk, rv_ya = ?ya, rv_ada = pt_ad p, rv_yb = ?yb, rv_adb = pt_ad q, rv_sid = ?sid, rv_peerID = pt_selfID p\<rparr>"
  have m: "pt_sid q = pt_sid p" "pt_peerID q = pt_selfID p" "pt_selfID q = pt_peerID p" using mir by (simp_all add: mirrored_def)
  note s = spec_start_def spec_respond_def spec_initiator_finish_def spec_responder_finish_def Let_def
  show ?thesis
  proof (rule that)
    show "spec_start F p x = (\<lparr>iv_scalar = x, iv_sid = ?sid, iv_ya = ?ya, iv_ada = pt_ad p, iv_peerID = pt_peerID p\<rparr>,
        wireA \<lparr>a_sid = ?sid, a_ya = ?ya, a_ada = pt_ad p\<rparr>)"
      by (simp add: s g_def)
    show "spec_respond F q (wireA \<lparr>a_sid = ?sid, a_ya = ?ya, a_ada = pt_ad p\<rparr>) (Inr y) =
        Inr (?r, wireB \<lparr>b_yb = ?yb, b_adb = pt_ad q, b_tag = tag_bytes ?isk ?sid ?yb (pt_ad q)\<rparr>)"
      using dh share by (simp add: s dec g [unfolded m] m)
    show "spec_initiator_finish F \<lparr>iv_scalar = x, iv_sid = ?sid, iv_ya = ?ya, iv_ada = pt_ad p, iv_peerID = pt_peerID p\<rparr>
        (wireB \<lparr>b_yb = ?yb, b_adb = pt_ad q, b_tag = tag_bytes ?isk ?sid ?yb (pt_ad q)\<rparr>) =
        Inr (wireC \<lparr>c_tag = tag_bytes ?isk ?sid ?ya (pt_ad p)\<rparr>,
          \<lparr>sv_key = ?isk, sv_transcriptID = sid_output ?tr, sv_peerAD = pt_ad q, sv_peerID = pt_selfID q\<rparr>)"
      using dh by (simp add: s dec m)
    show "spec_responder_finish ?r (wireC \<lparr>c_tag = tag_bytes ?isk ?sid ?ya (pt_ad p)\<rparr>) =
        Inr \<lparr>sv_key = ?isk, sv_transcriptID = sid_output ?tr, sv_peerAD = pt_ad p, sv_peerID = pt_selfID p\<rparr>"
      by (simp add: s dec m)
  qed
qed

end

end
