(* ===== verification/Api.thy ===== *)
theory Api
  imports Protocol "HOL-Library.Sublist"
begin

text \<open>
  The public operations (\<^verbatim>\<open>src/api.go\<close>): \<open>Start\<close>, \<open>Respond\<close>, \<open>Finish\<close> and \<open>Close\<close> of both roles. Messages are
  slices of the world's memory; a decoded field is a clone, so it is a new array. A nil
  \<^verbatim>\<open>*Initiator\<close> or \<^verbatim>\<open>*Responder\<close> is \<open>None\<close>.
\<close>

section \<open>Messages in memory\<close>

definition readMessageA :: "slice \<Rightarrow> (world, (slice \<times> slice \<times> slice) res) state" where
  "readMessageA msg = do {
     b \<leftarrow> load msg;
     case decodeMessageA b of
       Inl f \<Rightarrow> State_Monad.return (Inl f)
     | Inr a \<Rightarrow> do {
         sid \<leftarrow> alloc (a_sid a); ya \<leftarrow> alloc (a_ya a); ada \<leftarrow> alloc (a_ada a);
         State_Monad.return (Inr (sid, ya, ada)) } }"

definition readMessageB :: "slice \<Rightarrow> (world, (slice \<times> slice \<times> slice) res) state" where
  "readMessageB msg = do {
     b \<leftarrow> load msg;
     case decodeMessageB b of
       Inl f \<Rightarrow> State_Monad.return (Inl f)
     | Inr m \<Rightarrow> do {
         yb \<leftarrow> alloc (b_yb m); adb \<leftarrow> alloc (b_adb m); tag \<leftarrow> alloc (b_tag m);
         State_Monad.return (Inr (yb, adb, tag)) } }"

definition readMessageC :: "slice \<Rightarrow> (world, slice res) state" where
  "readMessageC msg = do {
     b \<leftarrow> load msg;
     case decodeMessageC b of
       Inl f \<Rightarrow> State_Monad.return (Inl f)
     | Inr m \<Rightarrow> do { tag \<leftarrow> alloc (c_tag m); State_Monad.return (Inr tag) } }"

text \<open>The message an encoder returns, as a new array.\<close>

definition emit :: "bytes res \<Rightarrow> (world, slice res) state" where
  "emit r = (case r of Inl f \<Rightarrow> State_Monad.return (Inl f) | Inr b \<Rightarrow> do { a \<leftarrow> alloc b; State_Monad.return (Inr a) })"

section \<open>Operations\<close>

definition startWithRandom :: "'e field_ops \<Rightarrow> Input \<Rightarrow> nat option \<Rightarrow> (world, (Initiator \<times> slice) res) state" where
  "startWithRandom F input random = do {
     nc \<leftarrow> normalizeStartInput input;
     case nc of
       Inl err \<Rightarrow> State_Monad.return (Inl err)
     | Inr nc \<Rightarrow> deferring (normalizedInput_wipe nc) (do {
         r \<leftarrow> newInitiatorCore F nc random;
         case r of
           Inl err \<Rightarrow> State_Monad.return (Inl err)
         | Inr (core, ya) \<Rightarrow> do {
             st \<leftarrow> new_object istates istates_update (newSingleUseState (Some core) ''uninitialized initiator'');
             sidb \<leftarrow> load (n_sid nc); yab \<leftarrow> load ya; adb \<leftarrow> load (n_ad nc);
             msg \<leftarrow> emit (encodeMessageA sidb yab adb);
             case msg of
               Inl f \<Rightarrow> State_Monad.return (Inl f)
             | Inr msg \<Rightarrow> State_Monad.return (Inr (\<lparr>i_state = Some st\<rparr>, msg)) } }) }"

definition Start :: "'e field_ops \<Rightarrow> Input \<Rightarrow> (world, (Initiator \<times> slice) res) state" where
  "Start F input = startWithRandom F input (Some rand_Reader)"

definition respondWithRandom :: "'e field_ops \<Rightarrow> Input \<Rightarrow> slice \<Rightarrow> nat option \<Rightarrow> (world, (Responder \<times> slice) res) state" where
  "respondWithRandom F input messageA random = do {
     nc \<leftarrow> normalizeRespondInput input;
     case nc of
       Inl err \<Rightarrow> State_Monad.return (Inl err)
     | Inr nc \<Rightarrow> deferring (normalizedInput_wipe nc) (do {
         a \<leftarrow> readMessageA messageA;
         case a of
           Inl err \<Rightarrow> State_Monad.return (Inl err)
         | Inr (sidA, yaA, adaA) \<Rightarrow> do {
             sa \<leftarrow> load sidA; sn \<leftarrow> load (n_sid nc);
             if \<not> bytes_Equal sa sn
             then State_Monad.return (Inl (Error (wrapf ErrMessage '': session id mismatch'')))
             else do {
               r \<leftarrow> newResponderCore F nc yaA adaA random;
               case r of
                 Inl err \<Rightarrow> State_Monad.return (Inl err)
               | Inr (core, yb, tagB) \<Rightarrow> do {
                   st \<leftarrow> new_object rstates rstates_update (newSingleUseState (Some core) ''uninitialized responder'');
                   ybb \<leftarrow> load yb; adb \<leftarrow> load (n_ad nc); tb \<leftarrow> load tagB;
                   msg \<leftarrow> emit (encodeMessageB ybb adb tb);
                   case msg of
                     Inl f \<Rightarrow> State_Monad.return (Inl f)
                   | Inr msg \<Rightarrow> State_Monad.return (Inr (\<lparr>r_state = Some st\<rparr>, msg)) } } } }) }"

definition Respond :: "'e field_ops \<Rightarrow> Input \<Rightarrow> slice \<Rightarrow> (world, (Responder \<times> slice) res) state" where
  "Respond F input messageA = respondWithRandom F input messageA (Some rand_Reader)"

definition Initiator_finishCore :: "Initiator option \<Rightarrow> (world, nat res) state" where
  "Initiator_finishCore i =
     (case (case i of None \<Rightarrow> None | Some i \<Rightarrow> i_state i) of
        None \<Rightarrow> State_Monad.return (Inl (Error (wrapf ErrInvalidInput '': uninitialized initiator'')))
      | Some p \<Rightarrow> through istates istates_update p claimFinish)"

definition Responder_finishCore :: "Responder option \<Rightarrow> (world, nat res) state" where
  "Responder_finishCore r =
     (case (case r of None \<Rightarrow> None | Some r \<Rightarrow> r_state r) of
        None \<Rightarrow> State_Monad.return (Inl (Error (wrapf ErrInvalidInput '': uninitialized responder'')))
      | Some p \<Rightarrow> through rstates rstates_update p claimFinish)"

definition Initiator_Finish :: "'e field_ops \<Rightarrow> Initiator option \<Rightarrow> slice \<Rightarrow> (world, (slice \<times> Session) res) state" where
  "Initiator_Finish F i messageB = do {
     core \<leftarrow> Initiator_finishCore i;
     case core of
       Inl err \<Rightarrow> State_Monad.return (Inl err)
     | Inr core \<Rightarrow> deferring (initiatorCore_clear (Some core)) (do {
         b \<leftarrow> readMessageB messageB;
         case b of
           Inl err \<Rightarrow> State_Monad.return (Inl err)
         | Inr (yb, adb, tag) \<Rightarrow> do {
             r \<leftarrow> initiatorCore_finish F core yb adb tag;
             case r of
               Inl err \<Rightarrow> State_Monad.return (Inl err)
             | Inr (tagA, sess) \<Rightarrow> do {
                 tb \<leftarrow> load tagA;
                 msg \<leftarrow> emit (encodeMessageC tb);
                 case msg of
                   Inl f \<Rightarrow> State_Monad.return (Inl f)
                 | Inr msg \<Rightarrow> State_Monad.return (Inr (msg, sess)) } } }) }"

definition Responder_Finish :: "Responder option \<Rightarrow> slice \<Rightarrow> (world, Session res) state" where
  "Responder_Finish r messageC = do {
     core \<leftarrow> Responder_finishCore r;
     case core of
       Inl err \<Rightarrow> State_Monad.return (Inl err)
     | Inr core \<Rightarrow> deferring (responderCore_clear (Some core)) (do {
         c \<leftarrow> readMessageC messageC;
         case c of
           Inl err \<Rightarrow> State_Monad.return (Inl err)
         | Inr tag \<Rightarrow> responderCore_finish core tag }) }"

definition Initiator_Close :: "Initiator option \<Rightarrow> (world, unit res) state" where
  "Initiator_Close i =
     (case i of
        None \<Rightarrow> State_Monad.return (Inr ())
      | Some i \<Rightarrow>
          (case i_state i of
             None \<Rightarrow> State_Monad.return (Inl (Error (wrapf ErrInvalidInput '': uninitialized initiator'')))
           | Some p \<Rightarrow> closeCore istates istates_update (\<lambda>c. initiatorCore_clear (Some c)) p))"

definition Responder_Close :: "Responder option \<Rightarrow> (world, unit res) state" where
  "Responder_Close r =
     (case r of
        None \<Rightarrow> State_Monad.return (Inr ())
      | Some r \<Rightarrow>
          (case r_state r of
             None \<Rightarrow> State_Monad.return (Inl (Error (wrapf ErrInvalidInput '': uninitialized responder'')))
           | Some p \<Rightarrow> closeCore rstates rstates_update (\<lambda>c. responderCore_clear (Some c)) p))"

section \<open>Running the message operations\<close>

lemma run_readMessageA:
  "run_state (readMessageA s) w =
    (case decodeMessageA (contents w s) of
       Inl f \<Rightarrow> (Inl f, w)
     | Inr a \<Rightarrow> (Inr (Some (length (arrs w)), Some (length (arrs w) + 1), Some (length (arrs w) + 2)),
                w\<lparr>arrs := arrs w @ [a_sid a, a_ya a, a_ada a]\<rparr>))"
  by (simp add: readMessageA_def run_simps split: sum.split)

lemma run_readMessageB:
  "run_state (readMessageB s) w =
    (case decodeMessageB (contents w s) of
       Inl f \<Rightarrow> (Inl f, w)
     | Inr b \<Rightarrow> (Inr (Some (length (arrs w)), Some (length (arrs w) + 1), Some (length (arrs w) + 2)),
                w\<lparr>arrs := arrs w @ [b_yb b, b_adb b, b_tag b]\<rparr>))"
  by (simp add: readMessageB_def run_simps split: sum.split)

lemma run_readMessageC:
  "run_state (readMessageC s) w =
    (case decodeMessageC (contents w s) of
       Inl f \<Rightarrow> (Inl f, w)
     | Inr c \<Rightarrow> (Inr (Some (length (arrs w))), w\<lparr>arrs := arrs w @ [c_tag c]\<rparr>))"
  by (simp add: readMessageC_def run_simps split: sum.split)

lemma run_emit [run_simps]:
  "run_state (emit (Inr b)) w = (Inr (Some (length (arrs w))), w\<lparr>arrs := arrs w @ [b]\<rparr>)"
  by (simp add: emit_def run_simps)

lemma encoded:
  "encodeMessageA sid ya ada = Inr (wireA \<lparr>a_sid = sid, a_ya = ya, a_ada = ada\<rparr>)"
  "encodeMessageB yb adb tag = Inr (wireB \<lparr>b_yb = yb, b_adb = adb, b_tag = tag\<rparr>)"
  "encodeMessageC tag = Inr (wireC \<lparr>c_tag = tag\<rparr>)"
  using encode_wire(1) [of "\<lparr>a_sid = sid, a_ya = ya, a_ada = ada\<rparr>"] encode_wire(2) [of "\<lparr>b_yb = yb, b_adb = adb, b_tag = tag\<rparr>"]
    encode_wire(3) [of "\<lparr>c_tag = tag\<rparr>"] by simp_all

section \<open>States of the parties\<close>

text \<open>The input of a party as byte strings.\<close>

definition party_of :: "world \<Rightarrow> Input \<Rightarrow> party" where
  "party_of w input = \<lparr>pt_password = contents w (Password input), pt_selfID = contents w (SelfID input),
     pt_peerID = contents w (PeerID input), pt_context = contents w (Context input),
     pt_sid = contents w (SessionID input), pt_ad = contents w (LocalAssociatedData input)\<rparr>"

lemma party_of_simps [simp]:
  "pt_password (party_of w input) = contents w (Password input)" "pt_selfID (party_of w input) = contents w (SelfID input)"
  "pt_peerID (party_of w input) = contents w (PeerID input)" "pt_context (party_of w input) = contents w (Context input)"
  "pt_sid (party_of w input) = contents w (SessionID input)" "pt_ad (party_of w input) = contents w (LocalAssociatedData input)"
  by (simp_all add: party_of_def)

lemma acceptable_admissible: "acceptable w input \<Longrightarrow> admissible (party_of w input)"
  by (simp add: acceptable_def admissible_def)

text \<open>
  \<open>i\<close> is an initiator that has not been used, its guard is entry \<open>p\<close> and its core entry \<open>q\<close>, with the
  values \<open>v\<close>; the array of its scalar is not shared with the other fields.
\<close>

definition initiator_ready :: "world \<Rightarrow> Initiator \<Rightarrow> nat \<Rightarrow> nat \<Rightarrow> initiator_view \<Rightarrow> bool" where
  "initiator_ready w i p q v \<longleftrightarrow>
     i_state i = Some p \<and> p < length (istates w) \<and> istates w ! p = newSingleUseState (Some q) ''uninitialized initiator'' \<and>
     q < length (icores w) \<and>
     initiator_core w (icores w ! q) (iv_scalar v) (iv_sid v) (iv_ya v) (iv_ada v) (iv_peerID v) \<and>
     ic_scalar (icores w ! q) \<noteq> None \<and>
     ic_scalar (icores w ! q) \<notin> {ic_sid (icores w ! q), ic_ya (icores w ! q), ic_ada (icores w ! q), ic_peerID (icores w ! q)}"

definition responder_ready :: "world \<Rightarrow> Responder \<Rightarrow> nat \<Rightarrow> nat \<Rightarrow> responder_view \<Rightarrow> bool" where
  "responder_ready w r p q v \<longleftrightarrow>
     r_state r = Some p \<and> p < length (rstates w) \<and> rstates w ! p = newSingleUseState (Some q) ''uninitialized responder'' \<and>
     q < length (rcores w) \<and>
     responder_core w (rcores w ! q) (rv_isk v) (rv_ya v) (rv_ada v) (rv_yb v) (rv_adb v) (rv_sid v) (rv_peerID v) \<and>
     rc_isk (rcores w ! q) \<notin> {rc_sid (rcores w ! q), rc_peerID (rcores w ! q)} \<union> transcript_slices (rc_transcript (rcores w ! q))"

definition session_of :: "world \<Rightarrow> Session \<Rightarrow> session_view \<Rightarrow> bool" where
  "session_of w s v \<longleftrightarrow> open_session w s (sv_key v) (sv_transcriptID v) (sv_peerAD v) (sv_peerID v)"

section \<open>The wiping of the input\<close>

lemma contents_tables [simp]:
  "contents (w\<lparr>readers := R\<rparr>) s = contents w s" "contents (icores_update f v) s = contents v s" "contents (rcores_update f' v) s = contents v s"
  "contents (istates_update g v) s = contents v s" "contents (rstates_update g v) s = contents v s" "contents (sstates_update h v) s = contents v s"
  by (rule contents_cong, simp)+

lemma live_tables [simp]:
  "live (w\<lparr>readers := R\<rparr>) s = live w s" "live (icores_update f v) s = live v s" "live (rcores_update f' v) s = live v s"
  "live (istates_update g v) s = live v s" "live (rstates_update g v) s = live v s" "live (sstates_update h v) s = live v s"
  by (rule live_cong, simp)+

text \<open>
  What is left after a call that normalizes its input (\<open>w1\<close>), copies public values (\<open>w1'\<close>), runs the
  constructor of a core (\<open>w2\<close>) and wipes the input (\<open>w3\<close>).
\<close>

lemma wiped_after:
  assumes norm: "normalized w w1 role input nc" and g: "grows w1 w1'" "residue w1 w1' {} P"
    and k: "kept (wiped_password w1' nc) w2" "residue (wiped_password w1' nc) w2 S P"
    and a3: "arrs w3 = clear_all (norm_slices nc) (arrs w2)"
  shows "kept w w3" "residue w w3 S P" "live w2 t \<Longrightarrow> fresh w1 t \<Longrightarrow> live w3 t \<and> contents w3 t = contents w2 t"
proof -
  note n = norm [unfolded normalized_def]
  have pw: "fresh w (n_password nc)" using n by (simp add: norm_slices_def)
  have "kept w w1'" using n grows_kept [OF g(1)] kept_trans by blast
  then have "kept w (wiped_password w1' nc)" by (rule kept_clear [OF _ pw]) (simp add: wiped_password_def)
  then have k2: "kept w w2" using k(1) by (rule kept_trans)
  then show "kept w w3" by (rule kept_clear_all [OF _ _ a3]) (use n in blast)
  have "residue w w1' (set (norm_slices nc)) P"
    using n by (intro residue_add_kept [OF _ grows_kept [OF g(1)] g(2)]) auto
  then have "residue w (wiped_password w1' nc) (set (norm_slices nc) - {n_password nc}) P"
    by (rule residue_clear) (simp add: wiped_password_def)
  then have "residue w w2 (set (norm_slices nc) \<union> S) P" by (rule residue_add_kept [OF _ k]) auto
  from residue_clear_all [OF this a3] show "residue w w3 S P" by (rule residue_mono) auto
  show "live w3 t \<and> contents w3 t = contents w2 t" if "live w2 t" "fresh w1 t"
    using clear_all_keeps [OF a3 that(1)] n fresh_not_live [OF that(2)] by blast
qed

lemma normalized_survives: "normalized w w1 role input nc \<Longrightarrow> grows w1 w1' \<Longrightarrow> usable w1' nc \<and> live w1' (n_ci nc)"
  using usable_normalized [of w w1 role input nc] grows_live [of w1 w1']
  by (auto simp: normalized_def usable_def survives_def norm_slices_def)

lemma same_tables_eqs: "same_tables w w1 \<Longrightarrow> readers w1 = readers w \<and> icores w1 = icores w \<and> rcores w1 = rcores w \<and>
    istates w1 = istates w \<and> rstates w1 = rstates w \<and> sstates w1 = sstates w"
  by (cases w; cases w1) (simp add: same_tables_def)

lemma scalar_same_tables: "same_tables w w1 \<Longrightarrow> has_scalar w1 r = has_scalar w r \<and> next_scalar w1 r = next_scalar w r"
  by (simp add: has_scalar_def next_scalar_def same_tables_eqs)

lemma party_generator_initiator:
  "normalized w w1 initiatorInputRole input nc \<Longrightarrow>
    generator_of F w1 nc = spec_generator F (contents w (Password input)) (contents w (SelfID input)) (contents w (PeerID input))
      (contents w (Context input)) (contents w (SessionID input))"
  by (simp add: normalized_def generator_of_def spec_generator_def initiator_of_def responder_of_def)

lemma party_generator_responder:
  "normalized w w1 responderInputRole input nc \<Longrightarrow>
    generator_of F w1 nc = spec_generator F (contents w (Password input)) (contents w (PeerID input)) (contents w (SelfID input))
      (contents w (Context input)) (contents w (SessionID input))"
  by (simp add: normalized_def generator_of_def spec_generator_def initiator_of_def responder_of_def
      initiatorInputRole_def responderInputRole_def)

lemma kept_clear_both:
  "kept m m' \<Longrightarrow> arrs n = clear_at s (arrs m) \<Longrightarrow> arrs n' = clear_at s (arrs m') \<Longrightarrow> kept n n'"
  by (auto simp: kept_def nth_clear_at)

end
