(* ===== verification/Initiator_Api.thy ===== *)
theory Initiator_Api
  imports Api
begin

text \<open>
  The initiator's side of \<^verbatim>\<open>src/api.go\<close>: \<open>Start\<close>, \<open>Finish\<close> and \<open>Close\<close> refine the functions of \<open>Protocol\<close> on
  every path, and what they leave in memory.
\<close>

section \<open>Starting\<close>

lemma run_startWithRandom_error: "input_error w input = Some f \<Longrightarrow> run_state (startWithRandom F input random) w = (Inl f, w)"
  by (simp add: startWithRandom_def normalizeStartInput_def run_normalizeInput_error)

context field_lengths
begin

lemma run_startWithRandom_norandom:
  assumes "acceptable w input" "live_input w input" "\<not> has_scalar w random"
  obtains w' where
    "run_state (startWithRandom F input random) w = (Inl (randomness_fault (read_error (readers w ! random_source random))), w')"
    "w' = w\<lparr>readers := drain 32 (random_source random) (readers w), arrs := arrs w'\<rparr>" "kept w w'" "residue w w' {} {}"
proof -
  obtain nc w1 where n: "run_state (normalizeInput input initiatorInputRole) w = (Inr nc, w1)" "normalized w w1 initiatorInputRole input nc"
    by (rule run_normalizeInput_ok [OF assms(1,2) disjI1 [OF refl]])
  have st: "same_tables w w1" using n(2) by (simp add: normalized_def)
  have hs: "\<not> has_scalar w1 random" using scalar_same_tables [OF st] assms(3) by simp
  obtain L where c: "run_state (newInitiatorCore F nc random) w1 =
    (Inl (randomness_fault (read_error (readers w ! random_source random))),
     w1\<lparr>readers := drain 32 (random_source random) (readers w1),
       arrs := clear_at (n_password nc) (arrs w1) @ [zeros L, zeros 64, zeros 32, zeros 32]\<rparr>)" (is "_ = (_, ?w2)")
    using run_newInitiatorCore_fail [OF usable_normalized [OF n(2)] hs] same_tables_eqs [OF st]
    by (auto simp: randomness_fault_def)
  let ?w3 = "?w2\<lparr>arrs := clear_all (norm_slices nc) (arrs ?w2)\<rparr>"
  have run: "run_state (startWithRandom F input random) w = (Inl (randomness_fault (read_error (readers w ! random_source random))), ?w3)"
    by (simp add: startWithRandom_def normalizeStartInput_def n(1) c run_simps)
  have k: "kept (wiped_password w1 nc) ?w2" "residue (wiped_password w1 nc) ?w2 {} {}"
    by (auto simp: wiped_password_def intro!: kept_append residue_append_public)
  show ?thesis
    by (rule that [OF run _ wiped_after(1) [OF n(2) grows_refl residue_refl k] wiped_after(2) [OF n(2) grows_refl residue_refl k]])
       (use st in \<open>simp_all add: same_tables_def, simp_all add: same_tables_eqs [OF st]\<close>)
qed

end

text \<open>What a started initiator leaves in memory: copies of what it sends and of the identity of its peer.\<close>

definition start_public :: "initiator_view \<Rightarrow> bytes \<Rightarrow> bytes set" where
  "start_public v msg = {iv_sid v, iv_ya v, iv_ada v, iv_peerID v, msg}"

context field_lengths
begin

lemma run_startWithRandom_ok:
  assumes "acceptable w input" "live_input w input" "has_scalar w random"
  obtains i v msg b w' core where
    "run_state (startWithRandom F input random) w = (Inr (i, Some msg), w')"
    "spec_start F (party_of w input) (next_scalar w random) = (v, b)"
    "w' = w\<lparr>readers := drain 32 (random_source random) (readers w), arrs := arrs w',
       icores := icores w @ [core], istates := istates w @ [newSingleUseState (Some (length (icores w))) ''uninitialized initiator'']\<rparr>"
    "initiator_ready w' i (length (istates w)) (length (icores w)) v" "live w' (Some msg)" "contents w' (Some msg) = b"
    "fresh w (Some msg)" "\<forall>t \<in> {ic_scalar core, ic_sid core, ic_ya core, ic_ada core, ic_peerID core}. fresh w t"
    "kept w w'" "residue w w' {ic_scalar core} (start_public v b)"
proof -
  obtain nc w1 where n: "run_state (normalizeInput input initiatorInputRole) w = (Inr nc, w1)" "normalized w w1 initiatorInputRole input nc"
    by (rule run_normalizeInput_ok [OF assms(1,2) disjI1 [OF refl]])
  have st: "same_tables w w1" using n(2) by (simp add: normalized_def)
  note tabs = same_tables_eqs [OF st] scalar_same_tables [OF st]
  have hs: "has_scalar w1 random" using tabs assms(3) by simp
  define y where "y = next_scalar w random"
  define ya where "ya = x25519 F y (generator_of F w1 nc)"
  note vals = n(2) [unfolded normalized_def, simplified initiator_of_def responder_of_def, simplified]
  let ?sid = "contents w (SessionID input)" and ?ad = "contents w (LocalAssociatedData input)" and ?pid = "contents w (PeerID input)"
  obtain L core B w2 where c:
    "run_state (newInitiatorCore F nc random) w1 = (Inr (length (icores w1), Some (length (arrs w1) + 5)), w2)"
    "w2 = w1\<lparr>readers := drain 32 (random_source random) (readers w1),
       arrs := clear_at (n_password nc) (arrs w1) @ [zeros L, zeros 64, zeros 32, y, zeros 32, ya] @ B, icores := icores w1 @ [core]\<rparr>"
    "ic_scalar core = Some (length (arrs w1) + 3)"
    "map (contents w2) [ic_sid core, ic_ya core, ic_ada core, ic_peerID core] = [?sid, ya, ?ad, ?pid]"
    "\<forall>t \<in> {ic_sid core, ic_ya core, ic_ada core, ic_peerID core}. live w2 t \<and> (\<forall>a. t = Some a \<longrightarrow> length (arrs w1) + 6 \<le> a)"
    "\<forall>b \<in> set B. wiped b \<or> b \<in> {?sid, ya, ?ad, ?pid}"
    by (rule run_newInitiatorCore_ok [OF usable_normalized [OF n(2)] hs]) (use vals in \<open>simp add: y_def ya_def tabs\<close>)
  define v where "v = \<lparr>iv_scalar = y, iv_sid = ?sid, iv_ya = ya, iv_ada = ?ad, iv_peerID = ?pid\<rparr>"
  define b where "b = wireA \<lparr>a_sid = ?sid, a_ya = ya, a_ada = ?ad\<rparr>"
  let ?sc = "Some (length (arrs w1) + 3)" and ?msg = "length (arrs w2)" and ?n = "length (arrs w1)"
  define w3 where "w3 = w2\<lparr>arrs := arrs w2 @ [b], istates := istates w2 @ [newSingleUseState (Some (length (icores w))) ''uninitialized initiator'']\<rparr>"
  define w4 where "w4 = w3\<lparr>arrs := clear_all (norm_slices nc) (arrs w3)\<rparr>"
  have a3: "arrs w3 = clear_at (n_password nc) (arrs w1) @ [zeros L, zeros 64, zeros 32, y, zeros 32, ya] @ B @ [b]" by (simp add: w3_def c(2))
  have sv: "contents w2 (n_sid nc) = ?sid" "contents w2 (n_ad nc) = ?ad"
    using survives_contents(1) [of w1 "n_password nc" _ w2] usable_normalized [OF n(2)] vals by (simp_all add: usable_def c(2))
  have yc: "contents w2 (Some (?n + 5)) = ya" by (simp add: c(2) nth_append)
  have run: "run_state (startWithRandom F input random) w = (Inr (\<lparr>i_state = Some (length (istates w))\<rparr>, Some ?msg), w4)"
    using sv yc by (simp add: startWithRandom_def normalizeStartInput_def n(1) c(1) run_simps encoded b_def [symmetric] w4_def w3_def tabs
        del: contents.simps) (simp add: c(2) tabs)
  have k: "kept (wiped_password w1 nc) w3" "residue (wiped_password w1 nc) w3 {?sc} (start_public v b)"
  proof -
    let ?T = "[zeros L, zeros 64, zeros 32, y, zeros 32, ya] @ B @ [b]"
    show "kept (wiped_password w1 nc) w3" by (rule kept_append [of _ _ ?T]) (simp add: wiped_password_def a3)
    show "residue (wiped_password w1 nc) w3 {?sc} (start_public v b)"
    proof (rule residue_append [of _ _ ?T], goal_cases)
      case (2 i)
      show ?case
      proof (cases "i = 3")
        case False
        have "?T ! i \<in> {zeros L, zeros 64, zeros 32, ya, b} \<union> set B"
          using 2 False by (auto simp: nth_Cons' nth_append)
        then show ?thesis using c(6) by (auto simp: start_public_def v_def)
      qed (simp add: wiped_password_def)
    qed (simp add: wiped_password_def a3)
  qed
  note after = wiped_after [OF n(2) grows_refl residue_refl k, of w4]
  have keep: "live w4 t" "contents w4 t = contents w2 t" if "live w2 t" "\<forall>a. t = Some a \<longrightarrow> ?n \<le> a" for t
  proof -
    have "live w3 t" "contents w3 t = contents w2 t" using that(1) by (cases t; simp add: w3_def nth_append)+
    moreover have "fresh w1 t" using that(2) by (cases t) auto
    ultimately show "live w4 t" "contents w4 t = contents w2 t" using after(3) [of t] by (simp_all add: w4_def)
  qed
  have y32: "length y = 32" using assms(3) by (simp add: y_def next_scalar_def has_scalar_def)
  have kc: "live w4 t \<and> contents w4 t = contents w2 t" if "t \<in> {ic_scalar core, ic_sid core, ic_ya core, ic_ada core, ic_peerID core}" for t
  proof (cases "t = ic_scalar core")
    case True
    then have t: "t = Some (?n + 3)" using c(3) by simp
    then have "live w2 t" by (simp add: c(2))
    with t show ?thesis using keep [of t] by simp
  next
    case False
    then have "t \<in> {ic_sid core, ic_ya core, ic_ada core, ic_peerID core}" using that by blast
    from bspec [OF c(5) this] have t: "live w2 t" "\<forall>a. t = Some a \<longrightarrow> ?n + 6 \<le> a" by blast+
    from t(2) have "\<forall>a. t = Some a \<longrightarrow> ?n \<le> a" using add_leD1 by blast
    with t(1) keep show ?thesis by (intro conjI)
  qed
  have "contents w2 (ic_scalar core) = y" by (simp add: c(2,3) nth_append)
  then have core: "initiator_core w4 core y ?sid ya ?ad ?pid"
    using c(4) y32 unfolding initiator_core_def by (simp add: kc del: live.simps contents.simps)
  show ?thesis
  proof (rule that [OF run])
    show "spec_start F (party_of w input) (next_scalar w random) = (v, b)"
      by (simp add: spec_start_def Let_def v_def b_def ya_def y_def party_generator_initiator [OF n(2)])
    show "w4 = w\<lparr>readers := drain 32 (random_source random) (readers w), arrs := arrs w4,
       icores := icores w @ [core], istates := istates w @ [newSingleUseState (Some (length (icores w))) ''uninitialized initiator'']\<rparr>"
      using st by (cases w; cases w1) (simp add: w4_def w3_def c(2) same_tables_def)
    have "ic_scalar core \<notin> {ic_sid core, ic_ya core, ic_ada core, ic_peerID core}"
    proof
      assume "ic_scalar core \<in> {ic_sid core, ic_ya core, ic_ada core, ic_peerID core}"
      from bspec [OF c(5) this] show False unfolding c(3) by simp
    qed
    then show "initiator_ready w4 \<lparr>i_state = Some (length (istates w))\<rparr> (length (istates w)) (length (icores w)) v"
      using core c(3) by (simp add: initiator_ready_def v_def, simp add: w4_def w3_def c(2) tabs nth_append)
    have "live w3 (Some ?msg)" "contents w3 (Some ?msg) = b" "fresh w1 (Some ?msg)" by (simp_all add: w3_def) (simp add: c(2))
    then show "live w4 (Some ?msg)" "contents w4 (Some ?msg) = b" using after(3) [of "Some ?msg"] by (simp_all add: w4_def)
    have nn: "length (arrs w) \<le> ?n" using n(2) by (simp add: normalized_def kept_def)
    then show "fresh w (Some ?msg)" by (simp add: c(2))
    have "fresh w t" if "t \<in> {ic_sid core, ic_ya core, ic_ada core, ic_peerID core}" for t
      using bspec [OF c(5) that] nn by (cases t) auto
    moreover have "fresh w (ic_scalar core)" using nn by (simp add: c(3))
    ultimately show "\<forall>t \<in> {ic_scalar core, ic_sid core, ic_ya core, ic_ada core, ic_peerID core}. fresh w t" by blast
    show "kept w w4" "residue w w4 {ic_scalar core} (start_public v b)" using after(1,2) by (simp_all add: w4_def c(3))
  qed
qed

end

section \<open>Finishing as initiator\<close>

text \<open>
  How a finished or closed initiator differs from the ready one: the guard is marked, the scalar is
  zeroed and forgotten, every other array is as it was.
\<close>

definition initiator_spent :: "world \<Rightarrow> world \<Rightarrow> nat \<Rightarrow> nat \<Rightarrow> bool" where
  "initiator_spent w w' p q \<longleftrightarrow>
     w' = w\<lparr>arrs := arrs w', sstates := sstates w', istates := (istates w)[p := (istates w ! p)\<lparr>su_used := True\<rparr>],
            icores := (icores w)[q := (icores w ! q)\<lparr>ic_scalar := None\<rparr>]\<rparr> \<and>
     kept (w\<lparr>arrs := clear_at (ic_scalar (icores w ! q)) (arrs w)\<rparr>) w'"

definition finish_public :: "'e field_ops \<Rightarrow> initiator_view \<Rightarrow> bytes \<Rightarrow> bytes set" where
  "finish_public F v msgB =
     (case decodeMessageB msgB of
        Inl _ \<Rightarrow> {}
      | Inr b \<Rightarrow>
          (let isk = isk_bytes (iv_sid v) (x25519 F (iv_scalar v) (b_yb b)) (ir_transcript (iv_ya v) (iv_ada v) (b_yb b) (b_adb b))
           in {b_tag b, wireC \<lparr>c_tag = tag_bytes isk (iv_sid v) (iv_ya v) (iv_ada v)\<rparr>} \<union>
              exchange_public (iv_sid v) (iv_ya v) (iv_ada v) (b_yb b) (b_adb b) isk (iv_peerID v)))"

lemma run_Initiator_finishCore:
  assumes "initiator_ready w i p q v"
  shows "run_state (Initiator_finishCore (Some i)) w =
    (Inr q, istates_update (\<lambda>xs. xs[p := (istates w ! p)\<lparr>su_used := True\<rparr>]) w)"
  using assms by (simp add: initiator_ready_def Initiator_finishCore_def run_simps claimFinish_def newSingleUseState_def)

lemma initiator_core_tables:
  "arrs w = arrs w' \<Longrightarrow> initiator_core w c y sid ya ada pid = initiator_core w' c y sid ya ada pid"
  by (simp add: initiator_core_def live_cong [of w w'] contents_cong [of w w'])

text \<open>The end of \<open>Finish\<close>: the deferred \<open>clear\<close> after a body that kept the older arrays.\<close>

lemma initiator_close_out:
  assumes "initiator_ready w i p q v" "kept w w2" "residue w w2 S P"
    and tabs: "w2 = w\<lparr>arrs := arrs w2, sstates := sstates w2, istates := (istates w)[p := (istates w ! p)\<lparr>su_used := True\<rparr>]\<rparr>"
    and w': "w' = w2\<lparr>arrs := clear_at (ic_scalar (icores w ! q)) (arrs w2), icores := (icores w)[q := (icores w ! q)\<lparr>ic_scalar := None\<rparr>]\<rparr>"
  shows "initiator_spent w w' p q" "residue w w' S P" "fresh w t \<Longrightarrow> live w2 t \<Longrightarrow> live w' t \<and> contents w' t = contents w2 t"
proof -
  have sc: "live w (ic_scalar (icores w ! q))" using assms(1) by (simp add: initiator_ready_def initiator_core_def)
  show "initiator_spent w w' p q"
    unfolding initiator_spent_def
  proof
    show "kept (w\<lparr>arrs := clear_at (ic_scalar (icores w ! q)) (arrs w)\<rparr>) w'"
      by (rule kept_clear_both [OF assms(2)]) (simp_all add: w')
  qed (use tabs in \<open>cases w; cases w2; simp add: w'\<close>)
  show "residue w w' S P" using residue_clear [OF assms(3), of w' "ic_scalar (icores w ! q)"] by (auto simp: w' elim: residue_mono)
  show "live w' t \<and> contents w' t = contents w2 t" if "fresh w t" "live w2 t"
    using fresh_not_live [OF that(1) sc] that(2) by (cases t) (auto simp: w' nth_clear_at)
qed

context field_lengths
begin

lemma run_Initiator_Finish_undecodable:
  assumes "initiator_ready w i p q v" "decodeMessageB (contents w msg) = Inl f"
  obtains w' where "run_state (Initiator_Finish F (Some i) msg) w = (Inl f, w')" "initiator_spent w w' p q" "sstates w' = sstates w"
    "residue w w' {} P"
proof -
  define w0 where "w0 = istates_update (\<lambda>xs. xs[p := (istates w ! p)\<lparr>su_used := True\<rparr>]) w"
  define w' where "w' = w0\<lparr>arrs := clear_at (ic_scalar (icores w ! q)) (arrs w0), icores := (icores w)[q := (icores w ! q)\<lparr>ic_scalar := None\<rparr>]\<rparr>"
  have 0: "kept w w0" "residue w w0 {} P"
    "w0 = w\<lparr>arrs := arrs w0, sstates := sstates w0, istates := (istates w)[p := (istates w ! p)\<lparr>su_used := True\<rparr>]\<rparr>"
    by (simp_all add: w0_def kept_def residue_def)
  have "run_state (Initiator_Finish F (Some i) msg) w = (Inl f, w')"
    using run_Initiator_finishCore [OF assms(1)] assms(2)
    by (simp add: Initiator_Finish_def run_simps run_readMessageB w'_def w0_def)
  then show ?thesis
    using initiator_close_out(1,2) [OF assms(1) 0 w'_def] by (intro that) (simp_all add: w'_def w0_def)
qed

text \<open>A decoded message, up to the call of the core's \<open>finish\<close>.\<close>

lemma run_Initiator_Finish_decoded:
  assumes ready: "initiator_ready w i p q v" and m: "decodeMessageB (contents w msg) = Inr m"
  defines "w1 \<equiv> w\<lparr>istates := (istates w)[p := (istates w ! p)\<lparr>su_used := True\<rparr>], arrs := arrs w @ [b_yb m, b_adb m, b_tag m]\<rparr>"
    and "n \<equiv> length (arrs w)"
  shows "run_state (Initiator_Finish F (Some i) msg) w =
      (case run_state (initiatorCore_finish F q (Some n) (Some (n + 1)) (Some (n + 2))) w1 of
         (Inl f, w2) \<Rightarrow> (Inl f, w2\<lparr>arrs := clear_at (ic_scalar (icores w2 ! q)) (arrs w2), icores := (icores w2)[q := (icores w2 ! q)\<lparr>ic_scalar := None\<rparr>]\<rparr>)
       | (Inr (t, s), w2) \<Rightarrow> (Inr (Some (length (arrs w2)), s),
           w2\<lparr>arrs := clear_at (ic_scalar (icores w2 ! q)) (arrs w2 @ [wireC \<lparr>c_tag = contents w2 t\<rparr>]),
              icores := (icores w2)[q := (icores w2 ! q)\<lparr>ic_scalar := None\<rparr>]\<rparr>))"
    and "live w1 (Some n)" "contents w1 (Some n) = b_yb m" "length (b_yb m) = 32" "live w1 (Some (n + 1))" "contents w1 (Some (n + 1)) = b_adb m"
      "live w1 (Some (n + 2))" "contents w1 (Some (n + 2)) = b_tag m"
    and "kept w w1" "residue w w1 {} (finish_public F v (contents w msg))"
    and "initiator_core w1 (icores w ! q) (iv_scalar v) (iv_sid v) (iv_ya v) (iv_ada v) (iv_peerID v)" "icores w1 ! q = icores w ! q"
proof -
  have up: "istates_update (\<lambda>xs. xs[p := x]) w = w\<lparr>istates := (istates w)[p := x]\<rparr>" for x by simp
  show "run_state (Initiator_Finish F (Some i) msg) w =
      (case run_state (initiatorCore_finish F q (Some n) (Some (n + 1)) (Some (n + 2))) w1 of
         (Inl f, w2) \<Rightarrow> (Inl f, w2\<lparr>arrs := clear_at (ic_scalar (icores w2 ! q)) (arrs w2), icores := (icores w2)[q := (icores w2 ! q)\<lparr>ic_scalar := None\<rparr>]\<rparr>)
       | (Inr (t, s), w2) \<Rightarrow> (Inr (Some (length (arrs w2)), s),
           w2\<lparr>arrs := clear_at (ic_scalar (icores w2 ! q)) (arrs w2 @ [wireC \<lparr>c_tag = contents w2 t\<rparr>]),
              icores := (icores w2)[q := (icores w2 ! q)\<lparr>ic_scalar := None\<rparr>]\<rparr>))"
    unfolding Initiator_Finish_def
    by (simp add: run_Initiator_finishCore [OF ready] run_simps run_readMessageB m encoded w1_def n_def up split: prod.split sum.split)
  show "live w1 (Some n)" "contents w1 (Some n) = b_yb m" "length (b_yb m) = 32" "live w1 (Some (n + 1))" "contents w1 (Some (n + 1)) = b_adb m"
      "live w1 (Some (n + 2))" "contents w1 (Some (n + 2)) = b_tag m"
    using decoded_lengths(2) [OF m] by (simp_all add: w1_def n_def nth_append)
  show k1: "kept w w1" by (rule kept_append) (simp add: w1_def)
  show "residue w w1 {} (finish_public F v (contents w msg))"
    by (rule residue_append_public [of _ _ "[b_yb m, b_adb m, b_tag m]"]) (auto simp: w1_def finish_public_def m Let_def exchange_public_def)
  show "initiator_core w1 (icores w ! q) (iv_scalar v) (iv_sid v) (iv_ya v) (iv_ada v) (iv_peerID v)" "icores w1 ! q = icores w ! q"
    using ready initiator_core_kept [OF k1] by (simp_all add: initiator_ready_def w1_def)
qed

lemma run_Initiator_Finish_refused:
  assumes ready: "initiator_ready w i p q v" and m: "decodeMessageB (contents w msg) = Inr m"
    and f: "spec_initiator_finish F v (contents w msg) = Inl f"
  obtains w' where "run_state (Initiator_Finish F (Some i) msg) w = (Inl f, w')" "initiator_spent w w' p q" "sstates w' = sstates w"
    "residue w w' {} (finish_public F v (contents w msg))"
proof -
  define n where "n = length (arrs w)"
  define w1 where "w1 = w\<lparr>istates := (istates w)[p := (istates w ! p)\<lparr>su_used := True\<rparr>], arrs := arrs w @ [b_yb m, b_adb m, b_tag m]\<rparr>"
  note d = run_Initiator_Finish_decoded [OF ready m, folded w1_def n_def]
  let ?P = "finish_public F v (contents w msg)"
  let ?isk = "isk_bytes (iv_sid v) (x25519 F (iv_scalar v) (b_yb m)) (ir_transcript (iv_ya v) (iv_ada v) (b_yb m) (b_adb m))"
  obtain w2 where 2: "run_state (initiatorCore_finish F q (Some n) (Some (n + 1)) (Some (n + 2))) w1 = (Inl f, w2)"
    "kept w1 w2" "same_tables w1 w2" "residue w1 w2 {} ?P"
  proof (cases "x25519 F (iv_scalar v) (b_yb m) = zeros 32")
    case True
    then have "f = identity_fault responderPeerShare" using f m by (simp add: spec_initiator_finish_def)
    then show ?thesis
      using run_finish_identity [OF d(11,12,3,4) True]
      by (intro that [of "w1\<lparr>arrs := arrs w1 @ [zeros 32, zeros 32]\<rparr>"] residue_append_public [of _ _ "[zeros 32, zeros 32]"])
         (simp_all add: kept_append)
  next
    case False
    then have bad: "f = Error (Sentinel ErrConfirmationFailed)" "b_tag m \<noteq> tag_bytes ?isk (iv_sid v) (b_yb m) (b_adb m)"
      using f m by (auto simp: spec_initiator_finish_def Let_def split: if_splits)
    obtain w2 where "run_state (initiatorCore_finish F q (Some n) (Some (n + 1)) (Some (n + 2))) w1 = (Inl (Error (Sentinel ErrConfirmationFailed)), w2)"
      "kept w1 w2" "same_tables w1 w2" "residue w1 w2 {} (exchange_public (iv_sid v) (iv_ya v) (iv_ada v) (b_yb m) (b_adb m) ?isk (iv_peerID v))"
      by (rule run_finish_mismatch [OF d(11,12) d(2-8) False bad(2)])
    with bad(1) show ?thesis by (intro that [of w2]) (auto simp: finish_public_def m Let_def elim: residue_mono)
  qed
  have t2: "icores w2 = icores w" "sstates w2 = sstates w" using same_tables_eqs [OF 2(3)] by (simp_all add: w1_def)
  define w' where "w' = w2\<lparr>arrs := clear_at (ic_scalar (icores w ! q)) (arrs w2), icores := (icores w)[q := (icores w ! q)\<lparr>ic_scalar := None\<rparr>]\<rparr>"
  have run: "run_state (Initiator_Finish F (Some i) msg) w = (Inl f, w')" unfolding d(1) 2(1) by (simp add: w'_def t2)
  have kr: "kept w w2" "residue w w2 {} ?P"
    using kept_trans [OF d(9) 2(2)] residue_add_kept [OF d(10) 2(2,4)] by auto
  have "w2 = w\<lparr>arrs := arrs w2, sstates := sstates w2, istates := (istates w)[p := (istates w ! p)\<lparr>su_used := True\<rparr>]\<rparr>"
    using 2(3) by (cases w; cases w2) (simp add: same_tables_def w1_def)
  from initiator_close_out(1,2) [OF ready kr this w'_def] show ?thesis
    by (intro that [OF run]) (simp_all add: w'_def t2)
qed

lemma run_Initiator_Finish_rejected:
  assumes ready: "initiator_ready w i p q v" and f: "spec_initiator_finish F v (contents w msg) = Inl f"
  obtains w' where "run_state (Initiator_Finish F (Some i) msg) w = (Inl f, w')" "initiator_spent w w' p q" "sstates w' = sstates w"
    "residue w w' {} (finish_public F v (contents w msg))"
proof (cases "decodeMessageB (contents w msg)")
  case (Inl g)
  then have "g = f" using f by (simp add: spec_initiator_finish_def)
  with Inl show ?thesis using run_Initiator_Finish_undecodable [OF ready] that by blast
next
  case (Inr m)
  then show ?thesis using run_Initiator_Finish_refused [OF ready _ f] that by blast
qed

lemma run_Initiator_Finish_accepted:
  assumes ready: "initiator_ready w i p q v"
    and ok: "spec_initiator_finish F v (contents w msg) = Inr (c, sv)"
  obtains b s w' where
    "run_state (Initiator_Finish F (Some i) msg) w = (Inr (Some b, s), w')" "initiator_spent w w' p q"
    "\<exists>x. sstates w' = sstates w @ [x]" "s_state s = Some (length (sstates w))"
    "live w' (Some b)" "contents w' (Some b) = c" "session_of w' s sv"
    "\<forall>t \<in> {Some b, session_secret w' s, s_transcriptID s, s_peerAD s, s_peerID s}. fresh w t"
    "residue w w' {session_secret w' s} (finish_public F v (contents w msg))"
proof -
  obtain m where m: "decodeMessageB (contents w msg) = Inr m" using ok by (auto simp: spec_initiator_finish_def split: sum.splits)
  define n where "n = length (arrs w)"
  define w1 where "w1 = w\<lparr>istates := (istates w)[p := (istates w ! p)\<lparr>su_used := True\<rparr>], arrs := arrs w @ [b_yb m, b_adb m, b_tag m]\<rparr>"
  note d = run_Initiator_Finish_decoded [OF ready m, folded w1_def n_def]
  let ?tr = "ir_transcript (iv_ya v) (iv_ada v) (b_yb m) (b_adb m)"
  define isk where "isk = isk_bytes (iv_sid v) (x25519 F (iv_scalar v) (b_yb m)) ?tr"
  let ?P = "finish_public F v (contents w msg)" and ?sc = "ic_scalar (icores w ! q)"
  have k: "x25519 F (iv_scalar v) (b_yb m) \<noteq> zeros 32" and t: "b_tag m = tag_bytes isk (iv_sid v) (b_yb m) (b_adb m)"
    and c: "c = wireC \<lparr>c_tag = tag_bytes isk (iv_sid v) (iv_ya v) (iv_ada v)\<rparr>"
    and sv: "sv = \<lparr>sv_key = isk, sv_transcriptID = sid_output ?tr, sv_peerAD = b_adb m, sv_peerID = iv_peerID v\<rparr>"
    using ok m by (auto simp: spec_initiator_finish_def Let_def isk_def split: if_splits)
  obtain b s w2 where 2:
    "run_state (initiatorCore_finish F q (Some n) (Some (n + 1)) (Some (n + 2))) w1 = (Inr (Some b, s), w2)"
    "kept w1 w2" "w2 = w1\<lparr>arrs := arrs w2, sstates := sstates w2\<rparr>" "\<exists>x. sstates w2 = sstates w1 @ [x]"
    "s_state s = Some (length (sstates w1))"
    "live w2 (Some b)" "contents w2 (Some b) = tag_bytes isk (iv_sid v) (iv_ya v) (iv_ada v)"
    "open_session w2 s isk (sid_output ?tr) (b_adb m) (iv_peerID v)"
    "\<forall>t \<in> {Some b, session_secret w2 s, s_transcriptID s, s_peerAD s, s_peerID s}. fresh w1 t"
    "residue w1 w2 {session_secret w2 s} (exchange_public (iv_sid v) (iv_ya v) (iv_ada v) (b_yb m) (b_adb m) isk (iv_peerID v))"
    unfolding isk_def by (rule run_finish_match [OF d(11,12) d(2-8) k t [unfolded isk_def]])
  have t1: "icores w1 = icores w" "sstates w1 = sstates w" "length (arrs w) \<le> length (arrs w1)" by (simp_all add: w1_def)
  have t2: "w2 = w\<lparr>arrs := arrs w2, sstates := sstates w2, istates := (istates w)[p := (istates w ! p)\<lparr>su_used := True\<rparr>]\<rparr>"
    using 2(3) by (cases w; cases w2) (simp add: w1_def)
  then have i2: "icores w2 = icores w" by (cases w; cases w2) simp
  define w3 where "w3 = w2\<lparr>arrs := arrs w2 @ [c]\<rparr>"
  define w' where "w' = w3\<lparr>arrs := clear_at ?sc (arrs w3), icores := (icores w)[q := (icores w ! q)\<lparr>ic_scalar := None\<rparr>]\<rparr>"
  let ?msg = "length (arrs w2)"
  have g: "grows w2 w3" by (auto simp: w3_def)
  have run: "run_state (Initiator_Finish F (Some i) msg) w = (Inr (Some ?msg, s), w')"
    unfolding d(1) 2(1) by (simp add: w'_def w3_def i2 c 2(7) [simplified])
  have kr: "kept w w3" "residue w w3 {session_secret w2 s} ?P"
  proof -
    have k2: "kept w w2" using d(9) 2(2) by (rule kept_trans)
    then show "kept w w3" using grows_kept [OF g] by (rule kept_trans)
    have "residue w w2 {session_secret w2 s} ?P"
      by (rule residue_add_kept [OF d(10) 2(2,10)]) (auto simp: finish_public_def m Let_def isk_def)
    then show "residue w w3 {session_secret w2 s} ?P"
      by (rule residue_add_kept [OF _ grows_kept [OF g] residue_append_public [of _ _ "[c]" ?P]])
         (auto simp: w3_def finish_public_def m Let_def isk_def c)
  qed
  have "w3 = w\<lparr>arrs := arrs w3, sstates := sstates w3, istates := (istates w)[p := (istates w ! p)\<lparr>su_used := True\<rparr>]\<rparr>"
    using t2 by (cases w; cases w2) (simp add: w3_def)
  note co = initiator_close_out [OF ready kr this w'_def]
  have sec: "session_secret w' s = session_secret w2 s" by (simp add: session_secret_def w'_def w3_def)
  have fr: "fresh w t" if "t \<in> {session_secret w2 s, s_transcriptID s, s_peerAD s, s_peerID s}" for t
    using 2(9) that fresh_mono [OF t1(3)] by blast
  have "open_session w3 s isk (sid_output ?tr) (b_adb m) (iv_peerID v)"
    by (rule open_session_kept [OF 2(8) grows_kept [OF g]]) (simp add: w3_def)
  then have "open_session (w3\<lparr>arrs := clear_at ?sc (arrs w3)\<rparr>) s isk (sid_output ?tr) (b_adb m) (iv_peerID v)"
  proof (rule open_session_clear, intro ballI)
    fix t assume "t \<in> {session_secret w3 s, s_transcriptID s, s_peerAD s, s_peerID s}"
    then have "fresh w t" using fr by (auto simp: session_secret_def w3_def)
    moreover have "live w ?sc" using ready by (simp add: initiator_ready_def initiator_core_def)
    ultimately show "t = None \<or> t \<noteq> ?sc" using fresh_not_live by blast
  qed
  then have sess: "session_of w' s sv"
    unfolding session_of_def sv session_view.simps by (rule open_session_kept) (simp_all add: w'_def kept_def)
  have msg: "fresh w (Some ?msg)" "live w3 (Some ?msg)" "contents w3 (Some ?msg) = c" using kr(1) t1(3) 2(2) by (auto simp: w3_def kept_def)
  show ?thesis
  proof (rule that [OF run co(1) _ _ _ _ sess])
    show "residue w w' {session_secret w' s} ?P" using co(2) by (simp add: sec)
    show "live w' (Some ?msg)" "contents w' (Some ?msg) = c" using co(3) [OF msg(1,2)] msg(3) by simp_all
    show "\<forall>t \<in> {Some ?msg, session_secret w' s, s_transcriptID s, s_peerAD s, s_peerID s}. fresh w t" using fr msg(1) by (simp add: sec)
  qed (use 2(4,5) t1 in \<open>simp_all add: w'_def w3_def\<close>)
qed

end

lemma Initiator_Finish_succeeds:
  assumes "field_lengths F" "initiator_ready w i p q v"
  shows "(\<exists>m s. fst (run_state (Initiator_Finish F (Some i) msg) w) = Inr (m, s)) \<longleftrightarrow> (\<exists>x. spec_initiator_finish F v (contents w msg) = Inr x)"
proof (cases "spec_initiator_finish F v (contents w msg)")
  case (Inl f)
  then show ?thesis by (rule field_lengths.run_Initiator_Finish_rejected [OF assms]) (simp add: Inl)
next
  case (Inr x)
  obtain c sv where x: "x = (c, sv)" by (cases x)
  show ?thesis by (rule field_lengths.run_Initiator_Finish_accepted [OF assms Inr [unfolded x]]) (simp add: Inr)
qed

lemma run_Initiator_Close:
  assumes "initiator_ready w i p q v"
  obtains w' where "run_state (Initiator_Close (Some i)) w = (Inr (), w')" "initiator_spent w w' p q"
    "arrs w' = clear_at (ic_scalar (icores w ! q)) (arrs w)" "sstates w' = sstates w"
proof -
  define w0 where "w0 = istates_update (\<lambda>xs. xs[p := (istates w ! p)\<lparr>su_used := True\<rparr>]) w"
  define w' where "w' = w0\<lparr>arrs := clear_at (ic_scalar (icores w ! q)) (arrs w0), icores := (icores w)[q := (icores w ! q)\<lparr>ic_scalar := None\<rparr>]\<rparr>"
  have 0: "kept w w0" "residue w w0 {} {}"
    "w0 = w\<lparr>arrs := arrs w0, sstates := sstates w0, istates := (istates w)[p := (istates w ! p)\<lparr>su_used := True\<rparr>]\<rparr>"
    by (simp_all add: w0_def kept_def residue_def)
  have "run_state (Initiator_Close (Some i)) w = (Inr (), w')"
    using assms by (simp add: initiator_ready_def Initiator_Close_def closeCore_def run_simps claimClose_def newSingleUseState_def w'_def w0_def)
  then show ?thesis
    by (rule that [OF _ initiator_close_out(1) [OF assms 0 w'_def]]) (simp_all add: w'_def w0_def)
qed

text \<open>A used initiator, whichever copy of it is called.\<close>

definition initiator_used :: "world \<Rightarrow> Initiator \<Rightarrow> bool" where
  "initiator_used w i \<longleftrightarrow> (case i_state i of None \<Rightarrow> False | Some p \<Rightarrow> p < length (istates w) \<and> su_used (istates w ! p))"

lemma initiator_used_calls:
  assumes "initiator_used w i"
  shows "run_state (Initiator_Finish F (Some i) msg) w = (Inl (Error (Sentinel ErrStateUsed)), w)"
    and "run_state (Initiator_Close (Some i)) w = (Inr (), w)"
  using assms initiator_guard.claim_again [of w "the (i_state i)"] initiator_guard.close_again [of w "the (i_state i)"]
  by (auto simp: initiator_used_def Initiator_Finish_def Initiator_finishCore_def Initiator_Close_def split: option.splits)

lemma initiator_spent_used:
  assumes "initiator_ready w i p q v" "initiator_spent w w' p q" "i_state j = i_state i"
  shows "initiator_used w' j" "istates w' ! p = (istates w ! p)\<lparr>su_used := True\<rparr>" "ic_scalar (icores w' ! q) = None"
    "wiped (contents w' (ic_scalar (icores w ! q)))"
proof -
  have t: "istates w' = (istates w)[p := (istates w ! p)\<lparr>su_used := True\<rparr>]" "icores w' = (icores w)[q := (icores w ! q)\<lparr>ic_scalar := None\<rparr>]"
    using assms(2) unfolding initiator_spent_def by (cases w; cases w'; simp)+
  show "initiator_used w' j" "istates w' ! p = (istates w ! p)\<lparr>su_used := True\<rparr>" "ic_scalar (icores w' ! q) = None"
    using assms by (simp_all add: initiator_used_def initiator_ready_def t)
  let ?sc = "ic_scalar (icores w ! q)"
  have "live w ?sc" using assms(1) by (simp add: initiator_ready_def initiator_core_def)
  then have "live (w\<lparr>arrs := clear_at ?sc (arrs w)\<rparr>) ?sc" "wiped (contents (w\<lparr>arrs := clear_at ?sc (arrs w)\<rparr>) ?sc)"
    by (cases ?sc; simp add: nth_clear_at)+
  moreover have "kept (w\<lparr>arrs := clear_at ?sc (arrs w)\<rparr>) w'" using assms(2) by (simp add: initiator_spent_def)
  ultimately show "wiped (contents w' ?sc)" using kept_contents [of "w\<lparr>arrs := clear_at ?sc (arrs w)\<rparr>" w' ?sc] by simp
qed

section \<open>Properties\<close>

text \<open>
  C4: \<open>Start\<close>. An input that is not admitted is refused with an \<open>ErrInvalidInput\<close> error and nothing
  changes. When the random source cannot deliver a scalar, the error wraps \<open>ErrRandomness\<close> and its
  cause, and every array the call allocated is zero. Otherwise the call returns a new initiator that
  holds the values of the protocol's first step and message A, which decodes to session id, public
  share and associated data; no existing array or object is changed, and the only secret among the
  new arrays is the scalar of the new core: password, identities, channel identifier and generator
  are zeroed.
\<close>

theorem startWithRandom_refines:
  assumes "field_lengths F" "live_input w input"
  shows "case input_error w input of
      Some f \<Rightarrow> run_state (startWithRandom F input random) w = (Inl f, w) \<and> fault_Is f ErrInvalidInput
    | None \<Rightarrow>
        if has_scalar w random
        then \<exists>i v msg b core w'. run_state (startWithRandom F input random) w = (Inr (i, Some msg), w') \<and>
          spec_start F (party_of w input) (next_scalar w random) = (v, b) \<and>
          contents w' (Some msg) = b \<and> decodeMessageA b = Inr \<lparr>a_sid = iv_sid v, a_ya = iv_ya v, a_ada = iv_ada v\<rparr> \<and>
          initiator_ready w' i (length (istates w)) (length (icores w)) v \<and> icores w' = icores w @ [core] \<and>
          kept w w' \<and> residue w w' {ic_scalar core} (start_public v b)
        else \<exists>w'. run_state (startWithRandom F input random) w =
            (Inl (randomness_fault (read_error (readers w ! random_source random))), w') \<and>
          icores w' = icores w \<and> istates w' = istates w \<and> kept w w' \<and> residue w w' {} {}"
proof (cases "input_error w input")
  case (Some f)
  then show ?thesis using run_startWithRandom_error [OF Some] input_error_Is [OF Some] by auto
next
  case None
  then have acc: "acceptable w input" by (simp add: input_error_None)
  show ?thesis
  proof (cases "has_scalar w random")
    case True
    obtain i v msg b w' core where r: "run_state (startWithRandom F input random) w = (Inr (i, Some msg), w')"
      "spec_start F (party_of w input) (next_scalar w random) = (v, b)"
      "w' = w\<lparr>readers := drain 32 (random_source random) (readers w), arrs := arrs w',
         icores := icores w @ [core], istates := istates w @ [newSingleUseState (Some (length (icores w))) ''uninitialized initiator'']\<rparr>"
      "initiator_ready w' i (length (istates w)) (length (icores w)) v" "contents w' (Some msg) = b"
      "kept w w'" "residue w w' {ic_scalar core} (start_public v b)"
      by (rule field_lengths.run_startWithRandom_ok [OF assms(1) acc assms(2) True])
    have "icores w' = icores w @ [core]" using r(3) by (cases w; cases w') simp
    moreover have "decodeMessageA b = Inr \<lparr>a_sid = iv_sid v, a_ya = iv_ya v, a_ada = iv_ada v\<rparr>"
      using r(2) acceptable_admissible [OF acc] field_lengths.length_x25519 [OF assms(1)]
      by (auto simp: spec_start_def Let_def admissible_def intro!: decodeMessageA_ok wire_ok)
    ultimately show ?thesis using None True r by auto
  next
    case False
    obtain w' where r: "run_state (startWithRandom F input random) w = (Inl (randomness_fault (read_error (readers w ! random_source random))), w')"
      "w' = w\<lparr>readers := drain 32 (random_source random) (readers w), arrs := arrs w'\<rparr>" "kept w w'" "residue w w' {} {}"
      by (rule field_lengths.run_startWithRandom_norandom [OF assms(1) acc assms(2) False])
    from r(2) have "icores w' = icores w" "istates w' = istates w" by (cases w; cases w'; simp)+
    with None False r show ?thesis by auto
  qed
qed

theorem startWithRandom_refines_witness:
  "let w = \<lparr>arrs = [[1], [2], [3], [4]], readers = [\<lparr>pending = zeros 40, failure = EOF\<rparr>],
         icores = [], rcores = [], istates = [], rstates = [], sstates = []\<rparr>;
       input = \<lparr>Password = Some 0, SelfID = Some 1, PeerID = Some 2, Context = None, SessionID = Some 3,
         LocalAssociatedData = None, AllowEmptySessionID = False\<rparr>
   in \<exists>i msg b w'. run_state (startWithRandom int_field input None) w = (Inr (i, Some msg), w') \<and>
        contents w' (Some msg) = b \<and> b = snd (spec_start int_field (party_of w input) (zeros 32)) \<and> arrs w' ! 0 = [1]"
proof -
  let ?w = "\<lparr>arrs = [[1], [2], [3], [4]], readers = [\<lparr>pending = zeros 40, failure = EOF\<rparr>],
         icores = [], rcores = [], istates = [], rstates = [], sstates = []\<rparr>"
  let ?i = "\<lparr>Password = Some 0, SelfID = Some 1, PeerID = Some 2, Context = None, SessionID = Some 3,
         LocalAssociatedData = None, AllowEmptySessionID = False\<rparr>"
  have "acceptable ?w ?i" by (simp add: acceptable_def)
  then have "input_error ?w ?i = None" by (simp only: input_error_None)
  moreover have "has_scalar ?w None" "next_scalar ?w None = zeros 32"
    by (simp_all add: has_scalar_def next_scalar_def random_source_def rand_Reader_def zeros_def)
  ultimately obtain i v msg b w' where "run_state (startWithRandom int_field ?i None) ?w = (Inr (i, Some msg), w')"
    "spec_start int_field (party_of ?w ?i) (zeros 32) = (v, b)" "contents w' (Some msg) = b" "kept ?w w'"
    using startWithRandom_refines [OF int_fe.field_lengths_axioms, of ?w ?i None] by (auto simp: live_input_def)
  then show ?thesis unfolding Let_def by (auto simp: kept_def)
qed

text \<open>
  C2: \<open>Initiator.Finish\<close> on an unused initiator is the second step of the protocol: the result is the
  error or the session and message C that the protocol computes from the message received (a message
  that does not decode, a share that leads to the identity, a tag that does not match, or
  acceptance). On each of these paths the guard is marked, the scalar is zeroed and forgotten, no other
  array that existed is changed, and the only secret among the new arrays is the key of the session
  that is returned.
\<close>

theorem Initiator_Finish_refines:
  assumes "field_lengths F" "initiator_ready w i p q v"
  shows "\<exists>w'. initiator_spent w w' p q \<and> ic_scalar (icores w' ! q) = None \<and> wiped (contents w' (ic_scalar (icores w ! q))) \<and>
    (case spec_initiator_finish F v (contents w msg) of
       Inl f \<Rightarrow> run_state (Initiator_Finish F (Some i) msg) w = (Inl f, w') \<and> sstates w' = sstates w \<and>
         residue w w' {} (finish_public F v (contents w msg))
     | Inr (c, sv) \<Rightarrow> \<exists>b s. run_state (Initiator_Finish F (Some i) msg) w = (Inr (Some b, s), w') \<and>
         contents w' (Some b) = c \<and> session_of w' s sv \<and> s_state s = Some (length (sstates w)) \<and>
         residue w w' {session_secret w' s} (finish_public F v (contents w msg)))"
proof (cases "spec_initiator_finish F v (contents w msg)")
  case (Inl f)
  obtain w' where r: "run_state (Initiator_Finish F (Some i) msg) w = (Inl f, w')" "initiator_spent w w' p q" "sstates w' = sstates w"
    "residue w w' {} (finish_public F v (contents w msg))"
    by (rule field_lengths.run_Initiator_Finish_rejected [OF assms Inl])
  then show ?thesis using Inl initiator_spent_used(3,4) [OF assms(2) r(2) refl] by (intro exI [of _ w']) simp
next
  case (Inr cs)
  obtain c sv where cs: "cs = (c, sv)" by (cases cs)
  obtain b s w' where r: "run_state (Initiator_Finish F (Some i) msg) w = (Inr (Some b, s), w')" "initiator_spent w w' p q"
    "s_state s = Some (length (sstates w))" "contents w' (Some b) = c" "session_of w' s sv"
    "residue w w' {session_secret w' s} (finish_public F v (contents w msg))"
    by (rule field_lengths.run_Initiator_Finish_accepted [OF assms Inr [unfolded cs]])
  then show ?thesis using initiator_spent_used(3,4) [OF assms(2) r(2) refl] by (intro exI [of _ w']) (auto simp: Inr cs)
qed

definition example_initiator_world :: world where
  "example_initiator_world = \<lparr>arrs = [replicate 32 7, [4], replicate 32 9, [2]], readers = [],
     icores = [\<lparr>ic_scalar = Some 0, ic_sid = Some 1, ic_ya = Some 2, ic_ada = None, ic_peerID = Some 3\<rparr>], rcores = [],
     istates = [newSingleUseState (Some 0) ''uninitialized initiator''], rstates = [], sstates = []\<rparr>"

lemma example_initiator_ready:
  "initiator_ready example_initiator_world \<lparr>i_state = Some 0\<rparr> 0 0
     \<lparr>iv_scalar = replicate 32 7, iv_sid = [4], iv_ya = replicate 32 9, iv_ada = [], iv_peerID = [2]\<rparr>"
  by (simp add: initiator_ready_def initiator_core_def example_initiator_world_def)

theorem Initiator_Finish_refines_witness:
  "\<exists>w'. run_state (Initiator_Finish int_field (Some \<lparr>i_state = Some 0\<rparr>) None) example_initiator_world =
       (Inl (Error (wrapf ErrMessage '': truncated header'')), w') \<and> wiped (contents w' (Some 0))"
proof -
  have "decodeMessageB [] = Inl (Error (wrapf ErrMessage '': truncated header''))"
    by (simp add: decodeMessageB_def decode_def newMessageReader_def)
  then show ?thesis
    using Initiator_Finish_refines [OF int_fe.field_lengths_axioms example_initiator_ready, of None]
    by (auto simp: spec_initiator_finish_def example_initiator_world_def)
qed

text \<open>
  C11: \<open>Initiator.Close\<close> on an unused initiator zeroes and forgets the scalar and changes no other
  array. From then on every copy of the initiator is used: \<open>Finish\<close> with any message returns
  \<open>ErrStateUsed\<close> and \<open>Close\<close> returns no error, and neither changes anything. On a nil pointer \<open>Close\<close> does
  nothing; on a zero \<open>Initiator\<close> both report an uninitialized state.
\<close>

theorem Initiator_Close_final:
  assumes "initiator_ready w i p q v" "i_state j = i_state i"
  shows "\<exists>w'. run_state (Initiator_Close (Some i)) w = (Inr (), w') \<and>
      arrs w' = clear_at (ic_scalar (icores w ! q)) (arrs w) \<and> wiped (contents w' (ic_scalar (icores w ! q))) \<and>
      ic_scalar (icores w' ! q) = None \<and> initiator_spent w w' p q \<and>
      run_state (Initiator_Finish F (Some j) msg) w' = (Inl (Error (Sentinel ErrStateUsed)), w') \<and>
      run_state (Initiator_Close (Some j)) w' = (Inr (), w') \<and>
      run_state (Initiator_Close None) w = (Inr (), w) \<and>
      run_state (Initiator_Close (Some \<lparr>i_state = None\<rparr>)) w = (Inl (Error (wrapf ErrInvalidInput '': uninitialized initiator'')), w) \<and>
      run_state (Initiator_Finish F None msg) w = (Inl (Error (wrapf ErrInvalidInput '': uninitialized initiator'')), w)"
proof -
  obtain w' where r: "run_state (Initiator_Close (Some i)) w = (Inr (), w')" "initiator_spent w w' p q"
    "arrs w' = clear_at (ic_scalar (icores w ! q)) (arrs w)"
    by (rule run_Initiator_Close [OF assms(1)])
  note u = initiator_spent_used [OF assms(1) r(2) assms(2)]
  show ?thesis
    using r u initiator_used_calls [OF u(1)]
    by (intro exI [of _ w']) (simp add: Initiator_Close_def Initiator_Finish_def Initiator_finishCore_def)
qed

theorem Initiator_Close_final_witness:
  "\<exists>w'. run_state (Initiator_Close (Some \<lparr>i_state = Some 0\<rparr>)) example_initiator_world = (Inr (), w') \<and>
     arrs w' = [zeros 32, [4], replicate 32 9, [2]] \<and>
     run_state (Initiator_Finish int_field (Some \<lparr>i_state = Some 0\<rparr>) (Some 2)) w' = (Inl (Error (Sentinel ErrStateUsed)), w')"
  using Initiator_Close_final [OF example_initiator_ready refl, of int_field "Some 2"]
  by (auto simp: example_initiator_world_def)

end
