(* ===== verification/Responder_Api.thy ===== *)
theory Responder_Api
  imports Api
begin

text \<open>
  The responder's side of \<^verbatim>\<open>src/api.go\<close>: \<open>Respond\<close>, \<open>Finish\<close> and \<open>Close\<close> refine the functions of \<open>Protocol\<close> on
  every path, and what they leave in memory.
\<close>

section \<open>Responding\<close>

text \<open>What the random source answers, and the readers after a call that asked it.\<close>

definition random_answer :: "world \<Rightarrow> nat option \<Rightarrow> lib_error + bytes" where
  "random_answer w random =
     (if has_scalar w random then Inr (next_scalar w random) else Inl (read_error (readers w ! random_source random)))"

text \<open>Whether \<open>Respond\<close> asks the random source: not before the share of the initiator is accepted.\<close>

definition asks_random :: "'e field_ops \<Rightarrow> party \<Rightarrow> bytes \<Rightarrow> bool" where
  "asks_random F p msgA = (case decodeMessageA msgA of Inl _ \<Rightarrow> False | Inr a \<Rightarrow> a_sid a = pt_sid p \<and> valid_share F (a_ya a))"

definition respond_public :: "'e field_ops \<Rightarrow> party \<Rightarrow> bytes \<Rightarrow> bytes \<Rightarrow> bytes set" where
  "respond_public F p msgA y =
     (case decodeMessageA msgA of
        Inl _ \<Rightarrow> {}
      | Inr a \<Rightarrow>
          (let yb = x25519 F y (spec_generator F (pt_password p) (pt_peerID p) (pt_selfID p) (pt_context p) (pt_sid p));
               isk = isk_bytes (pt_sid p) (x25519 F y (a_ya a)) (ir_transcript (a_ya a) (a_ada a) yb (pt_ad p))
           in {peerShareValidationScalar, a_sid a,
               wireB \<lparr>b_yb = yb, b_adb = pt_ad p, b_tag = tag_bytes isk (pt_sid p) yb (pt_ad p)\<rparr>} \<union>
              exchange_public (pt_sid p) (a_ya a) (a_ada a) yb (pt_ad p) isk (pt_peerID p)))"

lemma kept_residue_append:
  assumes "kept m m'" "residue m m' {} P"
  obtains T where "arrs m' = arrs m @ T" "\<forall>b \<in> set T. wiped b \<or> b \<in> P"
proof (rule that)
  let ?n = "length (arrs m)"
  have "take ?n (arrs m') = arrs m" using assms(1) by (intro nth_equalityI) (auto simp: kept_def)
  then show "arrs m' = arrs m @ drop ?n (arrs m')" by (metis append_take_drop_id)
  show "\<forall>b \<in> set (drop ?n (arrs m')). wiped b \<or> b \<in> P"
  proof
    fix b assume "b \<in> set (drop ?n (arrs m'))"
    then obtain i where "i < length (arrs m') - ?n" "b = arrs m' ! (?n + i)" by (auto simp: in_set_conv_nth)
    with assms(2) show "wiped b \<or> b \<in> P" unfolding residue_def by (auto dest: spec [of _ "?n + i"])
  qed
qed

lemma clear_all_absorb: "s \<in> set ss \<Longrightarrow> clear_all ss (clear_at s A @ T) = clear_all ss (A @ T)"
  by (rule nth_equalityI) (auto simp: nth_clear_all nth_append nth_clear_at)

lemma run_respondWithRandom_error: "input_error w input = Some f \<Longrightarrow> run_state (respondWithRandom F input msg random) w = (Inl f, w)"
  by (simp add: respondWithRandom_def normalizeRespondInput_def run_normalizeInput_error)

lemma run_respondWithRandom_undecodable:
  assumes n: "run_state (normalizeInput input responderInputRole) w = (Inr nc, w1)" "normalized w w1 responderInputRole input nc"
    and msg: "live w msg" "decodeMessageA (contents w msg) = Inl f"
  shows "run_state (respondWithRandom F input msg random) w = (Inl f, w1\<lparr>arrs := clear_all (norm_slices nc) (arrs w1)\<rparr>)"
  using n msg kept_contents [of w w1 msg]
  by (simp add: respondWithRandom_def normalizeRespondInput_def run_simps run_readMessageA normalized_def)

lemma run_respondWithRandom_mismatch:
  assumes n: "run_state (normalizeInput input responderInputRole) w = (Inr nc, w1)" "normalized w w1 responderInputRole input nc"
    and msg: "live w msg" "decodeMessageA (contents w msg) = Inr a" "a_sid a \<noteq> contents w (SessionID input)"
  shows "run_state (respondWithRandom F input msg random) w =
    (Inl (Error (wrapf ErrMessage '': session id mismatch'')),
     w1\<lparr>arrs := clear_all (norm_slices nc) (arrs w1 @ [a_sid a, a_ya a, a_ada a])\<rparr>)"
proof -
  have "contents w1 msg = contents w msg" using n(2) msg(1) kept_contents [of w w1 msg] by (simp add: normalized_def)
  moreover have "contents (w1\<lparr>arrs := arrs w1 @ B\<rparr>) (n_sid nc) = contents w (SessionID input)" for B
    using n(2) grows_contents [OF growsI, of w1 "n_sid nc" B] by (simp add: normalized_def norm_slices_def)
  ultimately show ?thesis
    using msg by (simp add: respondWithRandom_def normalizeRespondInput_def n(1) run_simps run_readMessageA bytes_Equal_def)
qed

lemma run_respondWithRandom_decoded:
  assumes n: "run_state (normalizeInput input responderInputRole) w = (Inr nc, w1)" "normalized w w1 responderInputRole input nc"
    and msg: "live w msg" "decodeMessageA (contents w msg) = Inr a" "a_sid a = contents w (SessionID input)"
  defines "w1' \<equiv> w1\<lparr>arrs := arrs w1 @ [a_sid a, a_ya a, a_ada a]\<rparr>" and "n \<equiv> length (arrs w1)"
  shows "run_state (respondWithRandom F input msg random) w =
    (case run_state (newResponderCore F nc (Some (n + 1)) (Some (n + 2)) random) w1' of
       (Inl f, w2) \<Rightarrow> (Inl f, w2\<lparr>arrs := clear_all (norm_slices nc) (arrs w2)\<rparr>)
     | (Inr (core, yb, tagB), w2) \<Rightarrow>
         (Inr (\<lparr>r_state = Some (length (rstates w2))\<rparr>, Some (length (arrs w2))),
          w2\<lparr>rstates := rstates w2 @ [newSingleUseState (Some core) ''uninitialized responder''],
             arrs := clear_all (norm_slices nc)
               (arrs w2 @ [wireB \<lparr>b_yb = contents w2 yb, b_adb = contents w2 (n_ad nc), b_tag = contents w2 tagB\<rparr>])\<rparr>))"
    and "grows w1 w1'" "usable w1' nc" "live w1' (n_ci nc)" "residue w1 w1' {} (respond_public F (party_of w input) (contents w msg) y)"
    and "survives w1' (n_password nc) (Some (n + 1))" "survives w1' (n_password nc) (Some (n + 2))"
    and "contents w1' (Some (n + 1)) = a_ya a" "contents w1' (Some (n + 2)) = a_ada a" "length (a_ya a) = 32"
proof -
  show g: "grows w1 w1'" by (auto simp: w1'_def)
  have u: "usable w1' nc \<and> live w1' (n_ci nc)" by (rule normalized_survives [OF n(2) g])
  then show "usable w1' nc" "live w1' (n_ci nc)" by simp_all
  have "contents w1 msg = contents w msg" using n(2) msg(1) kept_contents [of w w1 msg] by (simp add: normalized_def)
  moreover have sid: "contents w1' (n_sid nc) = contents w (SessionID input)"
    using n(2) grows_contents [OF g, of "n_sid nc"] by (simp add: normalized_def norm_slices_def)
  ultimately show "run_state (respondWithRandom F input msg random) w =
    (case run_state (newResponderCore F nc (Some (n + 1)) (Some (n + 2)) random) w1' of
       (Inl f, w2) \<Rightarrow> (Inl f, w2\<lparr>arrs := clear_all (norm_slices nc) (arrs w2)\<rparr>)
     | (Inr (core, yb, tagB), w2) \<Rightarrow>
         (Inr (\<lparr>r_state = Some (length (rstates w2))\<rparr>, Some (length (arrs w2))),
          w2\<lparr>rstates := rstates w2 @ [newSingleUseState (Some core) ''uninitialized responder''],
             arrs := clear_all (norm_slices nc)
               (arrs w2 @ [wireB \<lparr>b_yb = contents w2 yb, b_adb = contents w2 (n_ad nc), b_tag = contents w2 tagB\<rparr>])\<rparr>))"
    using msg(2,3) unfolding w1'_def n_def
    by (simp add: respondWithRandom_def normalizeRespondInput_def n(1) run_simps run_readMessageA bytes_Equal_def encoded nth_append
        split: prod.split sum.split)
  show "residue w1 w1' {} (respond_public F (party_of w input) (contents w msg) y)"
    by (rule residue_append_public [of _ _ "[a_sid a, a_ya a, a_ada a]"])
       (auto simp: w1'_def respond_public_def msg(2) Let_def exchange_public_def)
  have "live w1 (n_password nc)" using n(2) by (simp add: normalized_def norm_slices_def)
  then show "survives w1' (n_password nc) (Some (n + 1))" "survives w1' (n_password nc) (Some (n + 2))"
    by (cases "n_password nc"; auto simp: survives_def w1'_def n_def)+
  show "contents w1' (Some (n + 1)) = a_ya a" "contents w1' (Some (n + 2)) = a_ada a" "length (a_ya a) = 32"
    using decoded_lengths(1) [OF msg(2)] by (simp_all add: w1'_def n_def nth_append)
qed

context field_lengths
begin

text \<open>\<open>newResponderCore\<close> when it refuses: the arrays it adds are public or zero.\<close>

lemma run_newResponderCore_refused:
  fixes random
  assumes nc: "usable w nc" "live w (n_ci nc)" and peer: "survives w (n_password nc) peerYa" "length (contents w peerYa) = 32"
  defines "y \<equiv> next_scalar w random" and "valid \<equiv> valid_share F (contents w peerYa)"
  assumes bad: "\<not> valid \<or> \<not> has_scalar w random \<or> x25519 F (next_scalar w random) (contents w peerYa) = zeros 32"
  obtains A T where
    "run_state (newResponderCore F nc peerYa peerAda random) w =
      (Inl (if \<not> valid \<or> has_scalar w random then identity_fault initiatorPeerShare
            else randomness_fault (read_error (readers w ! random_source random))),
       w\<lparr>readers := (if valid then drain 32 (random_source random) (readers w) else readers w), arrs := A @ T\<rparr>)"
    "A = arrs w \<or> A = clear_at (n_password nc) (arrs w)"
    "\<forall>b \<in> set T. wiped b \<or> b \<in> {peerShareValidationScalar, x25519 F y (generator_of F w nc)}"
proof -
  have live: "live w peerYa" using peer(1) by (simp add: survives_def)
  consider "\<not> valid" | "valid" "\<not> has_scalar w random" | "valid" "has_scalar w random" "x25519 F y (contents w peerYa) = zeros 32"
    using bad by (auto simp: y_def)
  then show ?thesis
  proof cases
    case 1
    then have id: "x25519 F peerShareValidationScalar (contents w peerYa) = zeros 32" using peer(2) by (simp add: valid_def valid_share_def)
    show ?thesis
      by (rule that [of "arrs w" "[peerShareValidationScalar, zeros 32, zeros 32]"])
         (use 1 run_newResponderCore_invalid(2) [OF live peer(2) id] in simp_all)
  next
    case 2
    obtain L where "run_state (newResponderCore F nc peerYa peerAda random) w =
      (Inl (randomness_fault (read_error (readers w ! random_source random))),
       w\<lparr>readers := drain 32 (random_source random) (readers w),
         arrs := clear_at (n_password nc) (arrs w) @
           [peerShareValidationScalar, zeros 32, zeros 32, zeros L, zeros 64, zeros 32, zeros 32]\<rparr>)"
      using run_newResponderCore_norandom [OF nc(1) live 2(1) [unfolded valid_def] 2(2)] by (auto simp: randomness_fault_def)
    with 2 show ?thesis by (intro that) auto
  next
    case 3
    obtain w' where r: "run_state (newResponderCore F nc peerYa peerAda random) w = (Inl (identity_fault initiatorPeerShare), w')"
      "w' = w\<lparr>readers := drain 32 (random_source random) (readers w), arrs := arrs w'\<rparr>"
      "kept (wiped_password w nc) w'" "residue (wiped_password w nc) w' {} {peerShareValidationScalar, x25519 F y (generator_of F w nc)}"
      unfolding y_def
      by (rule run_newResponderCore_identity [OF nc peer(1) 3(1) [unfolded valid_def] 3(2) 3(3) [unfolded y_def]])
    obtain T where "arrs w' = clear_at (n_password nc) (arrs w) @ T" "\<forall>b \<in> set T. wiped b \<or> b \<in> {peerShareValidationScalar, x25519 F y (generator_of F w nc)}"
      by (rule kept_residue_append [OF r(3,4)]) (simp add: wiped_password_def)
    with 3 r(1,2) show ?thesis by (intro that) auto
  qed
qed

end

lemma responder_core_kept:
  "kept w w' \<Longrightarrow> responder_core w c isk ya ada yb adb sid pid \<Longrightarrow> responder_core w' c isk ya ada yb adb sid pid"
  using kept_contents [of w w'] is_transcript_kept [of w w'] by (auto simp: responder_core_def)

lemma wiped_after_refusal:
  fixes w :: world
  assumes norm: "normalized w w1 role input nc" and g: "grows w1 w1'" "residue w1 w1' {} P"
    and A: "A = arrs w1' \<or> A = clear_at (n_password nc) (arrs w1')" and T: "\<forall>b \<in> set T. wiped b \<or> b \<in> P"
    and w3: "arrs w3 = clear_all (norm_slices nc) (A @ T)"
  shows "kept w w3" "residue w w3 {} P"
proof -
  define w2 where "w2 = w1'\<lparr>arrs := clear_at (n_password nc) (arrs w1') @ T\<rparr>"
  have "n_password nc \<in> set (norm_slices nc)" by (simp add: norm_slices_def)
  then have a3: "arrs w3 = clear_all (norm_slices nc) (arrs w2)" using A by (auto simp: w3 w2_def clear_all_absorb)
  have k: "kept (wiped_password w1' nc) w2" "residue (wiped_password w1' nc) w2 {} P"
    using T by (auto simp: wiped_password_def w2_def intro!: kept_append residue_append_public)
  from wiped_after(1,2) [OF norm g k a3] show "kept w w3" "residue w w3 {} P" .
qed

lemma respond_spec_decoded:
  assumes "decodeMessageA b = Inr a" "a_sid a = pt_sid p"
  shows "spec_respond F p b (random_answer w random) = Inl f \<longleftrightarrow>
      (\<not> valid_share F (a_ya a) \<or> \<not> has_scalar w random \<or> x25519 F (next_scalar w random) (a_ya a) = zeros 32) \<and>
      f = (if \<not> valid_share F (a_ya a) \<or> has_scalar w random then identity_fault initiatorPeerShare
           else randomness_fault (read_error (readers w ! random_source random)))"
  using assms by (auto simp: spec_respond_def random_answer_def Let_def split: if_splits)

context field_lengths
begin

lemma run_respondWithRandom_refusal:
  assumes n: "run_state (normalizeInput input responderInputRole) w = (Inr nc, w1)" "normalized w w1 responderInputRole input nc"
    and msg: "live w msg"
  defines "p \<equiv> party_of w input" and "b \<equiv> contents w msg"
  assumes f: "spec_respond F p b (random_answer w random) = Inl f"
  obtains w1' A T where
    "run_state (respondWithRandom F input msg random) w = (Inl f,
       w1\<lparr>readers := (if asks_random F p b then drain 32 (random_source random) (readers w) else readers w),
          arrs := clear_all (norm_slices nc) (A @ T)\<rparr>)"
    "grows w1 w1'" "residue w1 w1' {} (respond_public F p b (next_scalar w random))"
    "A = arrs w1' \<or> A = clear_at (n_password nc) (arrs w1')"
    "\<forall>x \<in> set T. wiped x \<or> x \<in> respond_public F p b (next_scalar w random)"
proof (cases "decodeMessageA b")
  case (Inl g)
  then have "g = f" "\<not> asks_random F p b" using f by (simp_all add: spec_respond_def asks_random_def)
  moreover have "same_tables w w1" using n(2) by (simp add: normalized_def)
  then have "readers w = readers w1" using same_tables_eqs by metis
  ultimately show ?thesis
    using run_respondWithRandom_undecodable [OF n msg, of f F random] Inl by (intro that [of "arrs w1" "[]" w1]) (simp_all add: b_def)
next
  case (Inr a)
  have st: "same_tables w w1" using n(2) by (simp add: normalized_def)
  note tabs = same_tables_eqs [OF st] scalar_same_tables [OF st]
  define w1' where "w1' = w1\<lparr>arrs := arrs w1 @ [a_sid a, a_ya a, a_ada a]\<rparr>"
  have res: "residue w1 w1' {} (respond_public F p b (next_scalar w random))" "grows w1 w1'"
    by (auto simp: w1'_def respond_public_def Inr Let_def exchange_public_def intro!: residue_append_public [of _ _ "[a_sid a, a_ya a, a_ada a]"])
  show ?thesis
  proof (cases "a_sid a = pt_sid p")
    case False
    then have "f = Error (wrapf ErrMessage '': session id mismatch'')" "\<not> asks_random F p b"
      using f Inr by (simp_all add: spec_respond_def asks_random_def)
    moreover have "readers w = readers w1" using tabs by simp
    ultimately show ?thesis
      using False run_respondWithRandom_mismatch [OF n msg, of a F random] Inr
      by (intro that [of "arrs w1'" "[]" w1'] res) (simp_all add: b_def p_def w1'_def)
  next
    case True
    note d = run_respondWithRandom_decoded [OF n msg Inr [unfolded b_def] True [unfolded p_def party_of_simps], folded w1'_def]
    have w1t: "has_scalar w1' random = has_scalar w random" "next_scalar w1' random = next_scalar w random" "readers w1' = readers w"
      using tabs by (simp_all add: w1'_def has_scalar_def next_scalar_def)
    have gen: "generator_of F w1' nc = spec_generator F (pt_password p) (pt_peerID p) (pt_selfID p) (pt_context p) (pt_sid p)"
      using party_generator_responder [OF n(2), of F] grows_contents [OF res(2)] n(2)
      by (simp add: generator_of_def p_def normalized_def norm_slices_def)
    note sp = f [unfolded respond_spec_decoded [OF Inr True]]
    have bad: "\<not> valid_share F (contents w1' (Some (length (arrs w1) + 1))) \<or> \<not> has_scalar w1' random \<or>
        x25519 F (next_scalar w1' random) (contents w1' (Some (length (arrs w1) + 1))) = zeros 32"
      using sp by (simp only: d(8) w1t)
    obtain A T where c: "run_state (newResponderCore F nc (Some (length (arrs w1) + 1)) (Some (length (arrs w1) + 2)) random) w1' =
      (Inl f, w1'\<lparr>readers := (if valid_share F (a_ya a) then drain 32 (random_source random) (readers w) else readers w), arrs := A @ T\<rparr>)"
      "A = arrs w1' \<or> A = clear_at (n_password nc) (arrs w1')"
      "\<forall>x \<in> set T. wiped x \<or> x \<in> {peerShareValidationScalar, x25519 F (next_scalar w random) (generator_of F w1' nc)}"
      by (rule run_newResponderCore_refused [OF d(3,4,6) _ bad, unfolded d(8) w1t, folded conjunct2 [OF sp], OF d(10), of "Some (length (arrs w1) + 2)"])
    show ?thesis
    proof (rule that [OF _ res(2,1) c(2)])
      show "\<forall>x \<in> set T. wiped x \<or> x \<in> respond_public F p b (next_scalar w random)"
        using c(3) by (auto simp: gen respond_public_def Inr Let_def exchange_public_def)
      have "asks_random F p b = valid_share F (a_ya a)" using Inr True by (simp add: asks_random_def)
      then show "run_state (respondWithRandom F input msg random) w = (Inl f,
         w1\<lparr>readers := (if asks_random F p b then drain 32 (random_source random) (readers w) else readers w),
            arrs := clear_all (norm_slices nc) (A @ T)\<rparr>)"
        unfolding d(1) c(1) by (simp add: w1'_def)
    qed
  qed
qed

lemma run_respondWithRandom_refused:
  assumes acc: "acceptable w input" "live_input w input" and msg: "live w msg"
  defines "p \<equiv> party_of w input" and "b \<equiv> contents w msg"
  assumes f: "spec_respond F p b (random_answer w random) = Inl f"
  obtains w' where "run_state (respondWithRandom F input msg random) w = (Inl f, w')"
    "w' = w\<lparr>readers := (if asks_random F p b then drain 32 (random_source random) (readers w) else readers w), arrs := arrs w'\<rparr>"
    "kept w w'" "residue w w' {} (respond_public F p b (next_scalar w random))"
proof -
  obtain nc w1 where n: "run_state (normalizeInput input responderInputRole) w = (Inr nc, w1)" "normalized w w1 responderInputRole input nc"
    by (rule run_normalizeInput_ok [OF acc disjI2 [OF refl]])
  obtain w1' A T where r: "run_state (respondWithRandom F input msg random) w = (Inl f,
       w1\<lparr>readers := (if asks_random F p b then drain 32 (random_source random) (readers w) else readers w),
          arrs := clear_all (norm_slices nc) (A @ T)\<rparr>)" (is "_ = (_, ?w')")
    "grows w1 w1'" "residue w1 w1' {} (respond_public F p b (next_scalar w random))"
    "A = arrs w1' \<or> A = clear_at (n_password nc) (arrs w1')"
    "\<forall>x \<in> set T. wiped x \<or> x \<in> respond_public F p b (next_scalar w random)"
    unfolding p_def b_def by (rule run_respondWithRandom_refusal [OF n msg f [unfolded p_def b_def]])
  have "same_tables w w1" using n(2) by (simp add: normalized_def)
  then have "?w' = w\<lparr>readers := (if asks_random F p b then drain 32 (random_source random) (readers w) else readers w), arrs := arrs ?w'\<rparr>"
    by (cases w; cases w1) (simp add: same_tables_def)
  from that [OF r(1) this] wiped_after_refusal [OF n(2) r(2-5), of ?w'] show ?thesis by simp
qed

lemma respond_spec_accepts:
  assumes "spec_respond F p b (random_answer w random) = Inr (v, c)"
  obtains a where "decodeMessageA b = Inr a" "a_sid a = pt_sid p" "valid_share F (a_ya a)" "has_scalar w random"
    "x25519 F (next_scalar w random) (a_ya a) \<noteq> zeros 32"
  using assms that by (auto simp: spec_respond_def random_answer_def Let_def split: sum.splits if_splits)

lemma run_respondWithRandom_core:
  assumes acc: "acceptable w input" "live_input w input" and msg: "live w msg"
  defines "p \<equiv> party_of w input" and "b \<equiv> contents w msg"
  assumes ok: "spec_respond F p b (random_answer w random) = Inr (v, c)"
  obtains nc w1 w1' core ys t w2 where
    "run_state (respondWithRandom F input msg random) w = (Inr (\<lparr>r_state = Some (length (rstates w))\<rparr>, Some (length (arrs w2))),
       w2\<lparr>rstates := rstates w @ [newSingleUseState (Some (length (rcores w))) ''uninitialized responder''],
          arrs := clear_all (norm_slices nc) (arrs w2 @ [c])\<rparr>)"
    "normalized w w1 responderInputRole input nc" "grows w1 w1'" "residue w1 w1' {} (respond_public F p b (next_scalar w random))"
    "w2 = w\<lparr>readers := drain 32 (random_source random) (readers w), arrs := arrs w2, rcores := rcores w @ [core]\<rparr>"
    "kept (wiped_password w1' nc) w2" "residue (wiped_password w1' nc) w2 {rc_isk core} (respond_public F p b (next_scalar w random))"
    "responder_core w2 core (rv_isk v) (rv_ya v) (rv_ada v) (rv_yb v) (rv_adb v) (rv_sid v) (rv_peerID v)"
    "rc_isk core \<notin> {rc_sid core, rc_peerID core} \<union> transcript_slices (rc_transcript core)"
    "\<forall>s \<in> core_slices core. fresh w1' s" "c \<in> respond_public F p b (next_scalar w random)"
proof -
  obtain nc w1 where n: "run_state (normalizeInput input responderInputRole) w = (Inr nc, w1)" "normalized w w1 responderInputRole input nc"
    by (rule run_normalizeInput_ok [OF acc disjI2 [OF refl]])
  obtain a where a: "decodeMessageA b = Inr a" "a_sid a = pt_sid p" "valid_share F (a_ya a)" "has_scalar w random"
    "x25519 F (next_scalar w random) (a_ya a) \<noteq> zeros 32" by (rule respond_spec_accepts [OF ok])
  have st: "same_tables w w1" using n(2) by (simp add: normalized_def)
  note tabs = same_tables_eqs [OF st] scalar_same_tables [OF st]
  define w1' where "w1' = w1\<lparr>arrs := arrs w1 @ [a_sid a, a_ya a, a_ada a]\<rparr>"
  note d = run_respondWithRandom_decoded [OF n msg a(1) [unfolded b_def] a(2) [unfolded p_def party_of_simps], folded w1'_def]
  have w1t: "has_scalar w1' random = has_scalar w random" "next_scalar w1' random = next_scalar w random" "readers w1' = readers w"
    "rcores w1' = rcores w"
    using tabs by (simp_all add: w1'_def has_scalar_def next_scalar_def)
  define y where "y = next_scalar w random"
  define yb where "yb = x25519 F y (spec_generator F (pt_password p) (pt_peerID p) (pt_selfID p) (pt_context p) (pt_sid p))"
  define isk where "isk = isk_bytes (pt_sid p) (x25519 F y (a_ya a)) (ir_transcript (a_ya a) (a_ada a) yb (pt_ad p))"
  have gen: "generator_of F w1' nc = spec_generator F (pt_password p) (pt_peerID p) (pt_selfID p) (pt_context p) (pt_sid p)"
    and nv: "contents w1' (n_sid nc) = pt_sid p" "contents w1' (n_ad nc) = pt_ad p" "contents w1' (n_initiatorID nc) = pt_peerID p"
    using party_generator_responder [OF n(2), of F] grows_contents [OF d(2)] n(2)
    by (simp_all add: generator_of_def p_def normalized_def norm_slices_def initiator_of_def initiatorInputRole_def responderInputRole_def)
  have v: "v = \<lparr>rv_isk = isk, rv_ya = a_ya a, rv_ada = a_ada a, rv_yb = yb, rv_adb = pt_ad p, rv_sid = pt_sid p, rv_peerID = pt_peerID p\<rparr>"
    and c: "c = wireB \<lparr>b_yb = yb, b_adb = pt_ad p, b_tag = tag_bytes isk (pt_sid p) yb (pt_ad p)\<rparr>"
    using ok a by (simp_all add: spec_respond_def random_answer_def Let_def isk_def yb_def y_def)
  let ?n = "length (arrs w1)" and ?P = "respond_public F p b y"
  obtain core ys t w2 where r:
    "run_state (newResponderCore F nc (Some (?n + 1)) (Some (?n + 2)) random) w1' = (Inr (length (rcores w), ys, Some t), w2)"
    "w2 = w1'\<lparr>readers := drain 32 (random_source random) (readers w), arrs := arrs w2, rcores := rcores w @ [core]\<rparr>"
    "kept (wiped_password w1' nc) w2"
    "responder_core w2 core isk (a_ya a) (a_ada a) yb (pt_ad p) (pt_sid p) (pt_peerID p)"
    "rc_isk core \<notin> {ys, Some t, rc_sid core, rc_peerID core} \<union> transcript_slices (rc_transcript core)"
    "live w2 ys" "contents w2 ys = yb" "live w2 (Some t)" "contents w2 (Some t) = tag_bytes isk (pt_sid p) yb (pt_ad p)"
    "\<forall>s \<in> {ys, Some t} \<union> core_slices core. fresh w1' s"
    "residue (wiped_password w1' nc) w2 {rc_isk core}
       (insert peerShareValidationScalar (exchange_public (pt_sid p) (a_ya a) (a_ada a) yb (pt_ad p) isk (pt_peerID p)))"
    unfolding isk_def yb_def y_def
    by (rule run_newResponderCore_ok [where random = random, OF d(3,4,6,7), unfolded d(8,9) w1t gen nv, OF a(3,4,5)])
  have w2: "w2 = w\<lparr>readers := drain 32 (random_source random) (readers w), arrs := arrs w2, rcores := rcores w @ [core]\<rparr>"
    using r(2) st by (cases w; cases w1; cases w2) (simp add: w1'_def same_tables_def)
  then have "rstates w2 = rstates w" by (cases w; cases w2) simp
  moreover have "survives w1' (n_password nc) (n_ad nc)" using d(3) by (simp add: usable_def)
  then have "contents w2 (n_ad nc) = pt_ad p"
    using survives_contents [of w1' "n_password nc" "n_ad nc" "wiped_password w1' nc" "[]"] kept_contents [OF r(3), of "n_ad nc"] nv(2)
    by (simp add: wiped_password_def)
  ultimately have run: "run_state (respondWithRandom F input msg random) w = (Inr (\<lparr>r_state = Some (length (rstates w))\<rparr>, Some (length (arrs w2))),
       w2\<lparr>rstates := rstates w @ [newSingleUseState (Some (length (rcores w))) ''uninitialized responder''],
          arrs := clear_all (norm_slices nc) (arrs w2 @ [c])\<rparr>)"
    unfolding d(1) r(1) using r(7,9) by (simp add: c del: contents.simps)
  have P: "insert c (insert peerShareValidationScalar (exchange_public (pt_sid p) (a_ya a) (a_ada a) yb (pt_ad p) isk (pt_peerID p))) \<subseteq> ?P"
    unfolding respond_public_def a(1) sum.case Let_def yb_def [symmetric] isk_def [symmetric] c by blast
  show ?thesis
  proof (rule that [OF run n(2) d(2) _ w2 r(3)])
    show "residue w1 w1' {} (respond_public F p b (next_scalar w random))" unfolding p_def b_def by (rule d(5))
    show "residue (wiped_password w1' nc) w2 {rc_isk core} (respond_public F p b (next_scalar w random))"
      using r(11) P unfolding y_def by (auto elim: residue_mono)
  qed (use r(4,5,10) P in \<open>auto simp: v y_def\<close>)
qed

lemma run_respondWithRandom_ok:
  assumes acc: "acceptable w input" "live_input w input" and msg: "live w msg"
  defines "p \<equiv> party_of w input" and "b \<equiv> contents w msg"
  assumes ok: "spec_respond F p b (random_answer w random) = Inr (v, c)"
  obtains r m w' core where "run_state (respondWithRandom F input msg random) w = (Inr (r, Some m), w')"
    "w' = w\<lparr>readers := drain 32 (random_source random) (readers w), arrs := arrs w', rcores := rcores w @ [core],
       rstates := rstates w @ [newSingleUseState (Some (length (rcores w))) ''uninitialized responder'']\<rparr>"
    "responder_ready w' r (length (rstates w)) (length (rcores w)) v" "live w' (Some m)" "contents w' (Some m) = c" "fresh w (Some m)"
    "\<forall>s \<in> core_slices core. fresh w s" "kept w w'" "residue w w' {rc_isk core} (respond_public F p b (next_scalar w random))"
proof -
  obtain nc w1 w1' core ys t w2 where r:
    "run_state (respondWithRandom F input msg random) w = (Inr (\<lparr>r_state = Some (length (rstates w))\<rparr>, Some (length (arrs w2))),
       w2\<lparr>rstates := rstates w @ [newSingleUseState (Some (length (rcores w))) ''uninitialized responder''],
          arrs := clear_all (norm_slices nc) (arrs w2 @ [c])\<rparr>)" (is "_ = (_, ?w4)")
    "normalized w w1 responderInputRole input nc" "grows w1 w1'" "residue w1 w1' {} (respond_public F p b (next_scalar w random))"
    "w2 = w\<lparr>readers := drain 32 (random_source random) (readers w), arrs := arrs w2, rcores := rcores w @ [core]\<rparr>"
    "kept (wiped_password w1' nc) w2" "residue (wiped_password w1' nc) w2 {rc_isk core} (respond_public F p b (next_scalar w random))"
    "responder_core w2 core (rv_isk v) (rv_ya v) (rv_ada v) (rv_yb v) (rv_adb v) (rv_sid v) (rv_peerID v)"
    "rc_isk core \<notin> {rc_sid core, rc_peerID core} \<union> transcript_slices (rc_transcript core)"
    "\<forall>s \<in> core_slices core. fresh w1' s" "c \<in> respond_public F p b (next_scalar w random)"
    unfolding p_def b_def by (rule run_respondWithRandom_core [OF acc msg ok [unfolded p_def b_def]])
  let ?P = "respond_public F p b (next_scalar w random)"
  define w3 where "w3 = w2\<lparr>arrs := arrs w2 @ [c]\<rparr>"
  have g: "grows w2 w3" by (auto simp: w3_def)
  have k: "kept (wiped_password w1' nc) w3" "residue (wiped_password w1' nc) w3 {rc_isk core} ?P"
    using kept_trans [OF r(6) grows_kept [OF g]]
      residue_add_kept [OF r(7) grows_kept [OF g] residue_append_public [of _ _ "[c]" ?P]] r(11) by (auto simp: w3_def)
  have a4: "arrs ?w4 = clear_all (norm_slices nc) (arrs w3)" by (simp add: w3_def)
  note after = wiped_after [OF r(2,3,4) k a4]
  have new: "fresh w1 s" "fresh w s" if "fresh w1' s" for s
    using that fresh_mono [OF grows_length [OF r(3)]] r(2) fresh_mono [of w w1] by (auto simp: normalized_def kept_def)
  have old: "s = None \<or> s \<notin> set (norm_slices nc)" if "fresh w1' s" for s
    using r(2) fresh_not_live [OF new(1) [OF that]] unfolding normalized_def by blast
  have core: "responder_core ?w4 core (rv_isk v) (rv_ya v) (rv_ada v) (rv_yb v) (rv_adb v) (rv_sid v) (rv_peerID v)"
    by (rule responder_core_clear_all [OF responder_core_kept [OF grows_kept [OF g] r(8)] a4]) (use r(10) old in blast)
  have tab: "rcores w2 = rcores w @ [core]" "?w4 = w\<lparr>readers := drain 32 (random_source random) (readers w), arrs := arrs ?w4, rcores := rcores w @ [core],
       rstates := rstates w @ [newSingleUseState (Some (length (rcores w))) ''uninitialized responder'']\<rparr>"
    using r(5) by (cases w; cases w2; simp)+
  have m: "live w3 (Some (length (arrs w2)))" "contents w3 (Some (length (arrs w2))) = c" "fresh w1' (Some (length (arrs w2)))"
    using r(6) by (simp_all add: w3_def kept_def wiped_password_def)
  show ?thesis
  proof (rule that [OF r(1) tab(2)])
    show "responder_ready ?w4 \<lparr>r_state = Some (length (rstates w))\<rparr> (length (rstates w)) (length (rcores w)) v"
      using core r(9) tab(1) by (simp add: responder_ready_def)
  qed (use after(1,2) after(3) [OF m(1) new(1) [OF m(3)]] new(2) [OF m(3)] m(2) r(10) new(2) in auto)
qed

end

section \<open>Finishing as responder\<close>

text \<open>
  How a finished or closed responder differs from the ready one: the guard is marked, session key and
  transcript are zeroed and forgotten, every other array is as it was.
\<close>

definition core_secrets :: "responderCore \<Rightarrow> slice list" where
  "core_secrets c = rc_isk c # transcript_list (rc_transcript c)"

definition responder_spent :: "world \<Rightarrow> world \<Rightarrow> nat \<Rightarrow> nat \<Rightarrow> bool" where
  "responder_spent w w' p q \<longleftrightarrow>
     w' = w\<lparr>arrs := arrs w', sstates := sstates w', rstates := (rstates w)[p := (rstates w ! p)\<lparr>su_used := True\<rparr>],
            rcores := (rcores w)[q := (rcores w ! q)\<lparr>rc_isk := None, rc_transcript := cleared_transcript\<rparr>]\<rparr> \<and>
     kept (w\<lparr>arrs := clear_all (core_secrets (rcores w ! q)) (arrs w)\<rparr>) w'"

definition confirm_public :: "responder_view \<Rightarrow> bytes \<Rightarrow> bytes set" where
  "confirm_public v msgC =
     (case decodeMessageC msgC of
        Inl _ \<Rightarrow> {}
      | Inr c \<Rightarrow> insert (c_tag c) (exchange_public (rv_sid v) (rv_ya v) (rv_ada v) (rv_yb v) (rv_adb v) (rv_isk v) (rv_peerID v)))"

lemma kept_clear_all_both:
  "kept m m' \<Longrightarrow> arrs n = clear_all ss (arrs m) \<Longrightarrow> arrs n' = clear_all ss (arrs m') \<Longrightarrow> kept n n'"
  by (auto simp: kept_def nth_clear_all)

lemma run_Responder_finishCore:
  assumes "responder_ready w r p q v"
  shows "run_state (Responder_finishCore (Some r)) w =
    (Inr q, rstates_update (\<lambda>xs. xs[p := (rstates w ! p)\<lparr>su_used := True\<rparr>]) w)"
  using assms by (simp add: responder_ready_def Responder_finishCore_def run_simps claimFinish_def newSingleUseState_def)

lemma ready_secrets_live: "responder_ready w r p q v \<Longrightarrow> s \<in> set (core_secrets (rcores w ! q)) \<Longrightarrow> live w s"
  by (auto simp: responder_ready_def responder_core_def is_transcript_def core_secrets_def transcript_slices_def)

lemma responder_close_out:
  assumes "responder_ready w r p q v" "kept w w2" "residue w w2 S P"
    and tabs: "w2 = w\<lparr>arrs := arrs w2, sstates := sstates w2, rstates := (rstates w)[p := (rstates w ! p)\<lparr>su_used := True\<rparr>]\<rparr>"
    and w': "w' = w2\<lparr>arrs := clear_all (core_secrets (rcores w ! q)) (arrs w2),
        rcores := (rcores w)[q := (rcores w ! q)\<lparr>rc_isk := None, rc_transcript := cleared_transcript\<rparr>]\<rparr>"
  shows "responder_spent w w' p q" "residue w w' S P" "fresh w t \<Longrightarrow> live w2 t \<Longrightarrow> live w' t \<and> contents w' t = contents w2 t"
proof -
  let ?ss = "core_secrets (rcores w ! q)"
  have a: "arrs w' = clear_all ?ss (arrs w2)" by (simp add: w')
  show "responder_spent w w' p q"
    unfolding responder_spent_def
  proof
    show "kept (w\<lparr>arrs := clear_all ?ss (arrs w)\<rparr>) w'"
      by (rule kept_clear_all_both [OF assms(2)]) (simp_all add: a)
  qed (use tabs in \<open>cases w; cases w2; simp add: w'\<close>)
  show "residue w w' S P" using residue_clear_all [OF assms(3) a] by (auto elim: residue_mono)
  show "live w' t \<and> contents w' t = contents w2 t" if "fresh w t" "live w2 t"
    using clear_all_keeps [OF a that(2)] ready_secrets_live [OF assms(1)] fresh_not_live [OF that(1)] by blast
qed

lemma run_responder_clear:
  "rcores w2 = rcores w \<Longrightarrow> run_state (responderCore_clear (Some q)) w2 = ((), w2\<lparr>arrs := clear_all (core_secrets (rcores w ! q)) (arrs w2),
        rcores := (rcores w)[q := (rcores w ! q)\<lparr>rc_isk := None, rc_transcript := cleared_transcript\<rparr>]\<rparr>)"
  by (simp add: run_responderCore_clear core_secrets_def)

lemma run_Responder_Finish_undecodable:
  assumes ready: "responder_ready w r p q v" and f: "decodeMessageC (contents w msg) = Inl f"
  obtains w' where "run_state (Responder_Finish (Some r) msg) w = (Inl f, w')" "responder_spent w w' p q" "sstates w' = sstates w"
    "residue w w' {} P"
proof -
  define w0 where "w0 = rstates_update (\<lambda>xs. xs[p := (rstates w ! p)\<lparr>su_used := True\<rparr>]) w"
  define w' where "w' = w0\<lparr>arrs := clear_all (core_secrets (rcores w ! q)) (arrs w0),
      rcores := (rcores w)[q := (rcores w ! q)\<lparr>rc_isk := None, rc_transcript := cleared_transcript\<rparr>]\<rparr>"
  have 0: "kept w w0" "residue w w0 {} P"
    "w0 = w\<lparr>arrs := arrs w0, sstates := sstates w0, rstates := (rstates w)[p := (rstates w ! p)\<lparr>su_used := True\<rparr>]\<rparr>"
    by (simp_all add: w0_def kept_def residue_def)
  have "run_state (Responder_Finish (Some r) msg) w = (Inl f, w')"
    using run_Responder_finishCore [OF ready] f run_responder_clear [of w0 w q]
    by (simp add: Responder_Finish_def run_deferring run_readMessageC w'_def w0_def)
  then show ?thesis
    by (rule that [OF _ responder_close_out(1) [OF ready 0 w'_def] _ responder_close_out(2) [OF ready 0 w'_def]]) (simp add: w'_def w0_def)
qed

lemma run_Responder_Finish_decoded:
  assumes ready: "responder_ready w r p q v" and m: "decodeMessageC (contents w msg) = Inr c"
  defines "w1 \<equiv> w\<lparr>rstates := (rstates w)[p := (rstates w ! p)\<lparr>su_used := True\<rparr>], arrs := arrs w @ [c_tag c]\<rparr>"
  assumes fin: "run_state (responderCore_finish q (Some (length (arrs w)))) w1 = (res, w2)" "rcores w2 = rcores w"
  shows "run_state (Responder_Finish (Some r) msg) w = (res, w2\<lparr>arrs := clear_all (core_secrets (rcores w ! q)) (arrs w2),
        rcores := (rcores w)[q := (rcores w ! q)\<lparr>rc_isk := None, rc_transcript := cleared_transcript\<rparr>]\<rparr>)"
proof -
  have "w1 = rstates_update (\<lambda>xs. xs[p := (rstates w ! p)\<lparr>su_used := True\<rparr>]) w\<lparr>arrs := arrs w @ [c_tag c]\<rparr>"
    by (simp add: w1_def)
  then show ?thesis
    using fin run_Responder_finishCore [OF ready] m run_responder_clear [OF fin(2)]
    by (simp add: Responder_Finish_def run_deferring run_readMessageC split: prod.split)
qed

lemma open_session_clear_all:
  assumes "open_session w s key tid ad pid"
    and "\<forall>t \<in> {session_secret w s, s_transcriptID s, s_peerAD s, s_peerID s}. t = None \<or> t \<notin> set ss"
  shows "open_session (w\<lparr>arrs := clear_all ss (arrs w), rcores := C\<rparr>) s key tid ad pid"
proof -
  let ?w = "w\<lparr>arrs := clear_all ss (arrs w), rcores := C\<rparr>"
  have "live w t \<Longrightarrow> t \<in> {session_secret w s, s_transcriptID s, s_peerAD s, s_peerID s} \<Longrightarrow> live ?w t \<and> contents ?w t = contents w t" for t
    using clear_all_keeps [of ?w ss w t] assms(2) by auto
  then show ?thesis
    using assms(1) by (auto simp: open_session_def session_secret_def session_key_def split: option.splits simp del: live_tables contents_tables)
qed

lemma responder_claimed:
  assumes ready: "responder_ready w r p q v" and m: "decodeMessageC (contents w msg) = Inr c"
  defines "w1 \<equiv> w\<lparr>rstates := (rstates w)[p := (rstates w ! p)\<lparr>su_used := True\<rparr>], arrs := arrs w @ [c_tag c]\<rparr>"
  shows "kept w w1" "residue w w1 {} (confirm_public v (contents w msg))" "rcores w1 ! q = rcores w ! q"
    "responder_core w1 (rcores w ! q) (rv_isk v) (rv_ya v) (rv_ada v) (rv_yb v) (rv_adb v) (rv_sid v) (rv_peerID v)"
    "live w1 (Some (length (arrs w)))" "contents w1 (Some (length (arrs w))) = c_tag c"
proof -
  show k: "kept w w1" by (rule kept_append) (simp add: w1_def)
  show "residue w w1 {} (confirm_public v (contents w msg))"
    by (rule residue_append_public [of _ _ "[c_tag c]"]) (simp_all add: w1_def confirm_public_def m)
  show "responder_core w1 (rcores w ! q) (rv_isk v) (rv_ya v) (rv_ada v) (rv_yb v) (rv_adb v) (rv_sid v) (rv_peerID v)"
    using ready responder_core_kept [OF k] by (simp add: responder_ready_def)
qed (simp_all add: w1_def)

lemma run_Responder_Finish_refused:
  assumes ready: "responder_ready w r p q v" and f: "spec_responder_finish v (contents w msg) = Inl f"
  obtains w' where "run_state (Responder_Finish (Some r) msg) w = (Inl f, w')" "responder_spent w w' p q" "sstates w' = sstates w"
    "residue w w' {} (confirm_public v (contents w msg))"
proof (cases "decodeMessageC (contents w msg)")
  case (Inl g)
  then have "g = f" using f by (simp add: spec_responder_finish_def)
  with Inl show ?thesis using run_Responder_Finish_undecodable [OF ready] that by blast
next
  case (Inr c)
  let ?P = "confirm_public v (contents w msg)"
  define w1 where "w1 = w\<lparr>rstates := (rstates w)[p := (rstates w ! p)\<lparr>su_used := True\<rparr>], arrs := arrs w @ [c_tag c]\<rparr>"
  note c1 = responder_claimed [OF ready Inr, folded w1_def]
  have f': "f = Error (Sentinel ErrConfirmationFailed)" and bad: "c_tag c \<noteq> tag_bytes (rv_isk v) (rv_sid v) (rv_ya v) (rv_ada v)"
    using f Inr by (auto simp: spec_responder_finish_def split: if_splits)
  obtain w2 where 2: "run_state (responderCore_finish q (Some (length (arrs w)))) w1 = (Inl (Error (Sentinel ErrConfirmationFailed)), w2)"
    "grows w1 w2" "residue w1 w2 {} (exchange_public (rv_sid v) (rv_ya v) (rv_ada v) (rv_yb v) (rv_adb v) (rv_isk v) (rv_peerID v))"
    using run_responder_finish [OF c1(4,3,5,6)] bad by metis
  have tabs: "w2 = w\<lparr>arrs := arrs w2, sstates := sstates w2, rstates := (rstates w)[p := (rstates w ! p)\<lparr>su_used := True\<rparr>]\<rparr>"
    "rcores w2 = rcores w" "sstates w2 = sstates w"
    using 2(2) by (cases w; cases w2; auto simp: w1_def grows_def)+
  have kr: "kept w w2" "residue w w2 {} ?P"
    by (rule kept_trans [OF c1(1) grows_kept [OF 2(2)]])
       (rule residue_add_kept [OF c1(2) grows_kept [OF 2(2)] 2(3)], auto simp: confirm_public_def Inr)
  note run = run_Responder_Finish_decoded [OF ready Inr, folded w1_def, OF 2(1) tabs(2)]
  note co = responder_close_out [OF ready kr tabs(1) refl]
  show ?thesis by (rule that [OF run [folded f'] co(1) _ co(2)]) (simp add: tabs(3))
qed

lemma run_Responder_Finish_accepted:
  assumes ready: "responder_ready w r p q v" and ok: "spec_responder_finish v (contents w msg) = Inr sv"
  obtains s w' where "run_state (Responder_Finish (Some r) msg) w = (Inr s, w')" "responder_spent w w' p q"
    "\<exists>x. sstates w' = sstates w @ [x]" "s_state s = Some (length (sstates w))" "session_of w' s sv"
    "\<forall>t \<in> {session_secret w' s, s_transcriptID s, s_peerAD s, s_peerID s}. fresh w t"
    "residue w w' {session_secret w' s} (confirm_public v (contents w msg))"
proof -
  obtain c where c: "decodeMessageC (contents w msg) = Inr c" "c_tag c = tag_bytes (rv_isk v) (rv_sid v) (rv_ya v) (rv_ada v)"
    "sv = \<lparr>sv_key = rv_isk v, sv_transcriptID = sid_output (ir_transcript (rv_ya v) (rv_ada v) (rv_yb v) (rv_adb v)),
           sv_peerAD = rv_ada v, sv_peerID = rv_peerID v\<rparr>"
    using ok by (auto simp: spec_responder_finish_def split: sum.splits if_splits)
  let ?P = "confirm_public v (contents w msg)" and ?tid = "sid_output (ir_transcript (rv_ya v) (rv_ada v) (rv_yb v) (rv_adb v))"
  let ?Q = "exchange_public (rv_sid v) (rv_ya v) (rv_ada v) (rv_yb v) (rv_adb v) (rv_isk v) (rv_peerID v)"
  define w1 where "w1 = w\<lparr>rstates := (rstates w)[p := (rstates w ! p)\<lparr>su_used := True\<rparr>], arrs := arrs w @ [c_tag c]\<rparr>"
  note c1 = responder_claimed [OF ready c(1), folded w1_def]
  obtain s w2 where 2: "run_state (responderCore_finish q (Some (length (arrs w)))) w1 = (Inr s, w2)"
    "kept w1 w2" "w2 = w1\<lparr>arrs := arrs w2, sstates := sstates w2\<rparr>" "\<exists>x. sstates w2 = sstates w1 @ [x]"
    "s_state s = Some (length (sstates w1))" "open_session w2 s (rv_isk v) ?tid (rv_ada v) (rv_peerID v)"
    "\<forall>t \<in> {session_secret w2 s, s_transcriptID s, s_peerAD s, s_peerID s}. fresh w1 t"
    "residue w1 w2 {session_secret w2 s} ?Q"
    using run_responder_finish [OF c1(4,3,5,6)] c(2) by metis
  have tabs: "w2 = w\<lparr>arrs := arrs w2, sstates := sstates w2, rstates := (rstates w)[p := (rstates w ! p)\<lparr>su_used := True\<rparr>]\<rparr>"
    "rcores w2 = rcores w"
    using 2(3) by (cases w; cases w2; auto simp: w1_def)+
  have s1: "sstates w1 = sstates w" "length (arrs w) \<le> length (arrs w1)" by (simp_all add: w1_def)
  have kr: "kept w w2" "residue w w2 {session_secret w2 s} ?P"
    by (rule kept_trans [OF c1(1) 2(2)]) (rule residue_add_kept [OF c1(2) 2(2,8)], auto simp: confirm_public_def c(1))
  note run = run_Responder_Finish_decoded [OF ready c(1), folded w1_def, OF 2(1) tabs(2)]
  note co = responder_close_out [OF ready kr tabs(1) refl]
  have fr: "\<forall>t \<in> {session_secret w2 s, s_transcriptID s, s_peerAD s, s_peerID s}. fresh w t"
    using 2(7) fresh_mono [OF s1(2)] by blast
  have "\<forall>t \<in> {session_secret w2 s, s_transcriptID s, s_peerAD s, s_peerID s}. t = None \<or> t \<notin> set (core_secrets (rcores w ! q))"
    using fr ready_secrets_live [OF ready] fresh_not_live by blast
  from open_session_clear_all [OF 2(6) this] show ?thesis
    by (intro that [OF run co(1)])
       (use 2(4,5) s1 fr co(2) in \<open>auto simp: session_of_def session_secret_def c(3)\<close>)
qed

lemma Responder_Finish_succeeds:
  assumes "responder_ready w r p q v"
  shows "(\<exists>s. fst (run_state (Responder_Finish (Some r) msg) w) = Inr s) \<longleftrightarrow> (\<exists>x. spec_responder_finish v (contents w msg) = Inr x)"
proof (cases "spec_responder_finish v (contents w msg)")
  case (Inl f)
  then show ?thesis by (rule run_Responder_Finish_refused [OF assms]) (simp add: Inl)
next
  case (Inr x)
  then show ?thesis by (rule run_Responder_Finish_accepted [OF assms]) (simp add: Inr)
qed

lemma run_Responder_Close:
  assumes "responder_ready w r p q v"
  obtains w' where "run_state (Responder_Close (Some r)) w = (Inr (), w')" "responder_spent w w' p q"
    "arrs w' = clear_all (core_secrets (rcores w ! q)) (arrs w)" "sstates w' = sstates w"
proof -
  define w0 where "w0 = rstates_update (\<lambda>xs. xs[p := (rstates w ! p)\<lparr>su_used := True\<rparr>]) w"
  define w' where "w' = w0\<lparr>arrs := clear_all (core_secrets (rcores w ! q)) (arrs w0),
      rcores := (rcores w)[q := (rcores w ! q)\<lparr>rc_isk := None, rc_transcript := cleared_transcript\<rparr>]\<rparr>"
  have 0: "kept w w0" "residue w w0 {} {}"
    "w0 = w\<lparr>arrs := arrs w0, sstates := sstates w0, rstates := (rstates w)[p := (rstates w ! p)\<lparr>su_used := True\<rparr>]\<rparr>"
    by (simp_all add: w0_def kept_def residue_def)
  have "run_state (Responder_Close (Some r)) w = (Inr (), w')"
    using assms run_responder_clear [of w0 w q]
    by (simp add: responder_ready_def Responder_Close_def closeCore_def run_through claimClose_def newSingleUseState_def w'_def w0_def)
  then show ?thesis
    by (rule that [OF _ responder_close_out(1) [OF assms 0 w'_def]]) (simp_all add: w'_def w0_def)
qed

definition responder_used :: "world \<Rightarrow> Responder \<Rightarrow> bool" where
  "responder_used w r \<longleftrightarrow> (case r_state r of None \<Rightarrow> False | Some p \<Rightarrow> p < length (rstates w) \<and> su_used (rstates w ! p))"

lemma responder_used_calls:
  assumes "responder_used w r"
  shows "run_state (Responder_Finish (Some r) msg) w = (Inl (Error (Sentinel ErrStateUsed)), w)"
    and "run_state (Responder_Close (Some r)) w = (Inr (), w)"
  using assms responder_guard.claim_again [of w "the (r_state r)"] responder_guard.close_again [of w "the (r_state r)"]
  by (auto simp: responder_used_def Responder_Finish_def Responder_finishCore_def Responder_Close_def split: option.splits)

lemma responder_spent_used:
  assumes "responder_ready w r p q v" "responder_spent w w' p q" "r_state j = r_state r"
  shows "responder_used w' j" "rc_isk (rcores w' ! q) = None" "rc_transcript (rcores w' ! q) = cleared_transcript"
    "\<forall>s \<in> set (core_secrets (rcores w ! q)). wiped (contents w' s)"
proof -
  have t: "rstates w' = (rstates w)[p := (rstates w ! p)\<lparr>su_used := True\<rparr>]"
    "rcores w' = (rcores w)[q := (rcores w ! q)\<lparr>rc_isk := None, rc_transcript := cleared_transcript\<rparr>]"
    using assms(2) unfolding responder_spent_def by (cases w; cases w'; simp)+
  show "responder_used w' j" "rc_isk (rcores w' ! q) = None" "rc_transcript (rcores w' ! q) = cleared_transcript"
    using assms by (simp_all add: responder_used_def responder_ready_def t)
  let ?ss = "core_secrets (rcores w ! q)"
  let ?w = "w\<lparr>arrs := clear_all ?ss (arrs w)\<rparr>"
  show "\<forall>s \<in> set ?ss. wiped (contents w' s)"
  proof
    fix s assume s: "s \<in> set ?ss"
    then have l: "live w s" by (rule ready_secrets_live [OF assms(1)])
    then have "live ?w s" by (cases s) simp_all
    moreover have "wiped (contents ?w s)" using l s by (cases s) (auto simp: nth_clear_all)
    moreover have "kept ?w w'" using assms(2) by (simp add: responder_spent_def)
    ultimately show "wiped (contents w' s)" using kept_contents [of ?w w' s] by simp
  qed
qed

section \<open>Properties\<close>

text \<open>
  C3: \<open>Respond\<close> computes the responder's step of the protocol. A refused input changes nothing. A message
  that does not decode, a wrong session id or a share that maps to the identity is refused before the
  random source is asked: its readers are unchanged. After any refusal every new array is zero or holds
  public data. On success the call returns a new responder with the protocol's values and message B;
  no existing array or object is changed and the only secret among the new arrays is the session key
  of the new core: password, scalar, generator and shared point are zeroed.
\<close>

theorem respondWithRandom_refines:
  assumes "field_lengths F" "live_input w input" "live w msg"
  shows "case input_error w input of
      Some f \<Rightarrow> run_state (respondWithRandom F input msg random) w = (Inl f, w) \<and> fault_Is f ErrInvalidInput
    | None \<Rightarrow>
        (let p = party_of w input; b = contents w msg
         in \<exists>w'. kept w w' \<and>
              readers w' = (if asks_random F p b then drain 32 (random_source random) (readers w) else readers w) \<and>
              (case spec_respond F p b (random_answer w random) of
                 Inl f \<Rightarrow> run_state (respondWithRandom F input msg random) w = (Inl f, w') \<and>
                   rcores w' = rcores w \<and> rstates w' = rstates w \<and> residue w w' {} (respond_public F p b (next_scalar w random))
               | Inr (v, c) \<Rightarrow> \<exists>r m core. run_state (respondWithRandom F input msg random) w = (Inr (r, Some m), w') \<and>
                   contents w' (Some m) = c \<and> responder_ready w' r (length (rstates w)) (length (rcores w)) v \<and>
                   rcores w' = rcores w @ [core] \<and> residue w w' {rc_isk core} (respond_public F p b (next_scalar w random))))"
proof (cases "input_error w input")
  case (Some f)
  then show ?thesis using run_respondWithRandom_error [OF Some] input_error_Is [OF Some] by auto
next
  case None
  then have acc: "acceptable w input" by (simp add: input_error_None)
  let ?p = "party_of w input" and ?b = "contents w msg"
  let ?P = "respond_public F ?p ?b (next_scalar w random)"
  show ?thesis
  proof (cases "spec_respond F ?p ?b (random_answer w random)")
    case (Inl f)
    obtain w' where r: "run_state (respondWithRandom F input msg random) w = (Inl f, w')"
      "w' = w\<lparr>readers := (if asks_random F ?p ?b then drain 32 (random_source random) (readers w) else readers w), arrs := arrs w'\<rparr>"
      "kept w w'" "residue w w' {} ?P"
      by (rule field_lengths.run_respondWithRandom_refused [OF assms(1) acc assms(2,3) Inl])
    from r(2) have "rcores w' = rcores w" "rstates w' = rstates w"
      "readers w' = (if asks_random F ?p ?b then drain 32 (random_source random) (readers w) else readers w)"
      by (cases w; cases w'; simp)+
    with None Inl r(1,3,4) show ?thesis unfolding Let_def by (auto intro!: exI [of _ w'])
  next
    case (Inr vc)
    obtain v c where vc: "vc = (v, c)" by (cases vc)
    obtain r m w' core where r: "run_state (respondWithRandom F input msg random) w = (Inr (r, Some m), w')"
      "w' = w\<lparr>readers := drain 32 (random_source random) (readers w), arrs := arrs w', rcores := rcores w @ [core],
         rstates := rstates w @ [newSingleUseState (Some (length (rcores w))) ''uninitialized responder'']\<rparr>"
      "responder_ready w' r (length (rstates w)) (length (rcores w)) v" "contents w' (Some m) = c" "kept w w'" "residue w w' {rc_isk core} ?P"
      by (rule field_lengths.run_respondWithRandom_ok [OF assms(1) acc assms(2,3) Inr [unfolded vc]])
    from r(2) have "rcores w' = rcores w @ [core]" "readers w' = drain 32 (random_source random) (readers w)" by (cases w; cases w'; simp)+
    moreover have "asks_random F ?p ?b" using Inr [unfolded vc]
      by (rule field_lengths.respond_spec_accepts [OF assms(1)]) (simp add: asks_random_def)
    ultimately show ?thesis using None Inr vc r(1,3-6) unfolding Let_def by (auto intro!: exI [of _ w'])
  qed
qed

theorem respondWithRandom_refines_witness:
  "let w = \<lparr>arrs = [[1], [2], [3], [4], wireA \<lparr>a_sid = [5], a_ya = zeros 32, a_ada = []\<rparr>], readers = [\<lparr>pending = zeros 40, failure = EOF\<rparr>],
         icores = [], rcores = [], istates = [], rstates = [], sstates = []\<rparr>;
       input = \<lparr>Password = Some 0, SelfID = Some 1, PeerID = Some 2, Context = None, SessionID = Some 3,
         LocalAssociatedData = None, AllowEmptySessionID = False\<rparr>
   in \<exists>w'. run_state (respondWithRandom int_field input (Some 4) None) w =
        (Inl (Error (wrapf ErrMessage '': session id mismatch'')), w') \<and> readers w' = readers w"
proof -
  let ?m = "\<lparr>a_sid = [5], a_ya = zeros 32, a_ada = []\<rparr>"
  let ?w = "\<lparr>arrs = [[1], [2], [3], [4], wireA ?m], readers = [\<lparr>pending = zeros 40, failure = EOF\<rparr>],
         icores = [], rcores = [], istates = [], rstates = [], sstates = []\<rparr>"
  let ?i = "\<lparr>Password = Some 0, SelfID = Some 1, PeerID = Some 2, Context = None, SessionID = Some 3,
         LocalAssociatedData = None, AllowEmptySessionID = False\<rparr>"
  have "acceptable ?w ?i" by (simp add: acceptable_def)
  then have e: "input_error ?w ?i = None" by (simp only: input_error_None)
  have d: "decodeMessageA (wireA ?m) = Inr ?m" by (rule decodeMessageA_ok, rule wire_ok) simp_all
  have "spec_respond int_field (party_of ?w ?i) (wireA ?m) (random_answer ?w None) = Inl (Error (wrapf ErrMessage '': session id mismatch''))"
    "\<not> asks_random int_field (party_of ?w ?i) (wireA ?m)"
    unfolding spec_respond_def asks_random_def d by simp_all
  with e show ?thesis
    using respondWithRandom_refines [OF int_fe.field_lengths_axioms, of ?w ?i "Some 4" None]
    by (simp add: live_input_def Let_def numeral_eq_Suc) blast
qed

text \<open>
  C5: \<open>Responder.Finish\<close> on an unused responder is the last step of the protocol: the result is the error
  or the session the protocol computes from the message received. On each path the guard is marked,
  session key and transcript of the core are zeroed and forgotten, no other array that existed is
  changed, and the only secret among the new arrays is the key of the session that is returned.
\<close>

theorem Responder_Finish_refines:
  assumes "responder_ready w r p q v"
  shows "\<exists>w'. responder_spent w w' p q \<and> rc_isk (rcores w' ! q) = None \<and>
    list_all (\<lambda>s. wiped (contents w' s)) (core_secrets (rcores w ! q)) \<and>
    (case spec_responder_finish v (contents w msg) of
       Inl f \<Rightarrow> run_state (Responder_Finish (Some r) msg) w = (Inl f, w') \<and> sstates w' = sstates w \<and>
         residue w w' {} (confirm_public v (contents w msg))
     | Inr sv \<Rightarrow> \<exists>s. run_state (Responder_Finish (Some r) msg) w = (Inr s, w') \<and>
         session_of w' s sv \<and> s_state s = Some (length (sstates w)) \<and>
         residue w w' {session_secret w' s} (confirm_public v (contents w msg)))"
proof (cases "spec_responder_finish v (contents w msg)")
  case (Inl f)
  obtain w' where w': "run_state (Responder_Finish (Some r) msg) w = (Inl f, w')" "responder_spent w w' p q" "sstates w' = sstates w"
    "residue w w' {} (confirm_public v (contents w msg))"
    by (rule run_Responder_Finish_refused [OF assms Inl])
  then show ?thesis
    using Inl responder_spent_used(2,4) [OF assms w'(2) refl] by (intro exI [of _ w']) (simp add: list_all_iff)
next
  case (Inr sv)
  obtain s w' where w': "run_state (Responder_Finish (Some r) msg) w = (Inr s, w')" "responder_spent w w' p q"
    "s_state s = Some (length (sstates w))" "session_of w' s sv" "residue w w' {session_secret w' s} (confirm_public v (contents w msg))"
    by (rule run_Responder_Finish_accepted [OF assms Inr])
  then show ?thesis
    using Inr responder_spent_used(2,4) [OF assms w'(2) refl] by (intro exI [of _ w']) (simp add: list_all_iff)
qed

definition example_responder_world :: world where
  "example_responder_world = \<lparr>arrs = [replicate 64 7, ir_transcript [1] [2] [3] [], [1], [2], [3], [4], [5]], readers = [], icores = [],
     rcores = [\<lparr>rc_isk = Some 0, rc_transcript = \<lparr>t_transcript = Some 1, t_ya = Some 2, t_ada = Some 3, t_yb = Some 4, t_adb = None\<rparr>,
       rc_sid = Some 5, rc_peerID = Some 6\<rparr>],
     istates = [], rstates = [newSingleUseState (Some 0) ''uninitialized responder''], sstates = []\<rparr>"

lemma example_responder_ready:
  "responder_ready example_responder_world \<lparr>r_state = Some 0\<rparr> 0 0
     \<lparr>rv_isk = replicate 64 7, rv_ya = [1], rv_ada = [2], rv_yb = [3], rv_adb = [], rv_sid = [4], rv_peerID = [5]\<rparr>"
  by (simp add: responder_ready_def responder_core_def is_transcript_def transcript_slices_def example_responder_world_def numeral_eq_Suc)

theorem Responder_Finish_refines_witness:
  "\<exists>w'. run_state (Responder_Finish (Some \<lparr>r_state = Some 0\<rparr>) None) example_responder_world =
       (Inl (Error (wrapf ErrMessage '': truncated header'')), w') \<and> wiped (contents w' (Some 0))"
proof -
  have "decodeMessageC [] = Inl (Error (wrapf ErrMessage '': truncated header''))"
    by (simp add: decodeMessageC_def decode_def newMessageReader_def)
  then show ?thesis
    using Responder_Finish_refines [OF example_responder_ready, of None]
    by (auto simp: spec_responder_finish_def example_responder_world_def core_secrets_def)
qed

text \<open>
  C12: \<open>Responder.Close\<close> on an unused responder zeroes and forgets the session key and the transcript and
  changes no other array. From then on every copy of the responder is used: \<open>Finish\<close> with any message
  returns \<open>ErrStateUsed\<close> and \<open>Close\<close> returns no error, and neither changes anything. On a nil pointer
  \<open>Close\<close> does nothing; a zero \<open>Responder\<close> is reported as uninitialized.
\<close>

theorem Responder_Close_final:
  assumes "responder_ready w r p q v" "r_state j = r_state r"
  shows "\<exists>w'. run_state (Responder_Close (Some r)) w = (Inr (), w') \<and>
      arrs w' = clear_all (core_secrets (rcores w ! q)) (arrs w) \<and>
      list_all (\<lambda>s. wiped (contents w' s)) (core_secrets (rcores w ! q)) \<and>
      rc_isk (rcores w' ! q) = None \<and> rc_transcript (rcores w' ! q) = cleared_transcript \<and> responder_spent w w' p q \<and>
      run_state (Responder_Finish (Some j) msg) w' = (Inl (Error (Sentinel ErrStateUsed)), w') \<and>
      run_state (Responder_Close (Some j)) w' = (Inr (), w') \<and>
      run_state (Responder_Close None) w = (Inr (), w) \<and>
      run_state (Responder_Close (Some \<lparr>r_state = None\<rparr>)) w = (Inl (Error (wrapf ErrInvalidInput '': uninitialized responder'')), w) \<and>
      run_state (Responder_Finish None msg) w = (Inl (Error (wrapf ErrInvalidInput '': uninitialized responder'')), w)"
proof -
  obtain w' where c: "run_state (Responder_Close (Some r)) w = (Inr (), w')" "responder_spent w w' p q"
    "arrs w' = clear_all (core_secrets (rcores w ! q)) (arrs w)"
    by (rule run_Responder_Close [OF assms(1)])
  note u = responder_spent_used [OF assms(1) c(2) assms(2)]
  show ?thesis
    using c u responder_used_calls [OF u(1)]
    by (intro exI [of _ w']) (simp add: list_all_iff Responder_Close_def Responder_Finish_def Responder_finishCore_def)
qed

theorem Responder_Close_final_witness:
  "\<exists>w'. run_state (Responder_Close (Some \<lparr>r_state = Some 0\<rparr>)) example_responder_world = (Inr (), w') \<and>
     wiped (arrs w' ! 0) \<and>
     run_state (Responder_Finish (Some \<lparr>r_state = Some 0\<rparr>) (Some 2)) w' = (Inl (Error (Sentinel ErrStateUsed)), w')"
  using Responder_Close_final [OF example_responder_ready refl, of "Some 2"]
  by (auto simp: example_responder_world_def core_secrets_def)

end
