(* ===== verification/Exchange.thy ===== *)
theory Exchange
  imports Initiator_Api Responder_Api
begin

text \<open>
  The four calls of an exchange, each party in a world of its own: a message is delivered as a new
  array of the receiver with the bytes the sender returned. The byte-level agreement of \<open>Protocol\<close> is
  carried to the API by the refinement lemmas of both roles.
\<close>

section \<open>Delivering a message\<close>

definition delivered :: "bytes \<Rightarrow> world \<Rightarrow> world" where
  "delivered b w = w\<lparr>arrs := arrs w @ [b]\<rparr>"

abbreviation incoming :: "world \<Rightarrow> slice" where
  "incoming w \<equiv> Some (length (arrs w))"

lemma delivered_facts:
  "grows w (delivered b w)" "kept w (delivered b w)" "live (delivered b w) (incoming w)" "contents (delivered b w) (incoming w) = b"
  "istates (delivered b w) = istates w" "icores (delivered b w) = icores w" "rstates (delivered b w) = rstates w"
  "rcores (delivered b w) = rcores w" "sstates (delivered b w) = sstates w" "readers (delivered b w) = readers w"
  by (auto simp: delivered_def intro: grows_kept)

lemma run_delivery: "run_state (do { m \<leftarrow> alloc b; f m }) w = run_state (f (incoming w)) (delivered b w)"
  by (simp add: run_simps delivered_def)

lemma initiator_ready_delivered: "initiator_ready w i p q v \<Longrightarrow> initiator_ready (delivered b w) i p q v"
  using initiator_core_kept [OF delivered_facts(2)] by (auto simp: initiator_ready_def delivered_facts)

lemma responder_ready_delivered: "responder_ready w r p q v \<Longrightarrow> responder_ready (delivered b w) r p q v"
  using responder_core_kept [OF delivered_facts(2)] by (auto simp: responder_ready_def delivered_facts)

lemma input_delivered:
  assumes "live_input w input"
  shows "live_input (delivered b w) input" "party_of (delivered b w) input = party_of w input"
    "acceptable (delivered b w) input = acceptable w input"
  using assms grows_live [OF delivered_facts(1)] grows_contents [OF delivered_facts(1)]
  by (auto simp: live_input_def party_of_def acceptable_def)

lemma random_delivered:
  "has_scalar (delivered b w) r = has_scalar w r" "next_scalar (delivered b w) r = next_scalar w r"
  by (simp_all add: has_scalar_def next_scalar_def delivered_facts)

lemma run_exporter:
  assumes "open_session w s key tid ad pid" "0 \<le> n" "n \<le> maxHKDFOutput"
  obtains e w' where "run_state (do { l \<leftarrow> alloc lab; c \<leftarrow> alloc ctx; Export (Some s) l c n }) w = (Inr (Some e), w')"
    "contents w' (Some e) = exported key lab ctx (nat n)"
proof -
  define w2 where "w2 = delivered ctx (delivered lab w)"
  have o: "open_session w2 s key tid ad pid"
    unfolding w2_def
    by (rule open_session_kept [OF open_session_kept [OF assms(1) delivered_facts(2,9)] delivered_facts(2,9)])
  then obtain p where p: "s_state s = Some p" "\<not> ss_closed (sstates w2 ! p)" "live w2 (ss_isk (sstates w2 ! p))" "session_key w2 p = key"
    by (auto simp: open_session_def split: option.splits)
  have c: "contents w2 (incoming w) = lab" "contents w2 (incoming (delivered lab w)) = ctx"
    by (simp_all add: w2_def delivered_def nth_append)
  let ?w' = "w2\<lparr>arrs := arrs w2 @ [export_info lab ctx, exported key lab ctx (nat n)]\<rparr>"
  have "run_state (do { l \<leftarrow> alloc lab; c \<leftarrow> alloc ctx; Export (Some s) l c n }) w = (Inr (Some (length (arrs w2) + 1)), ?w')"
    unfolding run_delivery w2_def [symmetric] run_Export [OF p(1-3) assms(2,3)] c p(4) by simp
  then show ?thesis by (rule that) (simp add: nth_append)
qed

section \<open>Agreement\<close>

text \<open>The hypotheses of an honest exchange: generator, scalars, and what X25519 guarantees for them.\<close>

definition exchange_generator :: "'e field_ops \<Rightarrow> world \<Rightarrow> Input \<Rightarrow> bytes" where
  "exchange_generator F w input = spec_generator F (contents w (Password input)) (contents w (SelfID input)) (contents w (PeerID input))
     (contents w (Context input)) (contents w (SessionID input))"


text \<open>For the witness: the integer field with an encoder that makes every share the same non-zero string.\<close>

definition one_share_field :: "int field_ops" where
  "one_share_field = int_field\<lparr>fe_Bytes := \<lambda>_. replicate 32 9\<rparr>"

lemma one_share_lengths: "field_lengths one_share_field"
  using int_fe.SetBytes_ok int_fe.SetBytes_bad by unfold_locales (auto simp: one_share_field_def)

lemma x25519_one_share: "x25519 one_share_field s p = replicate 32 9"
  by (simp add: x25519_def ladder_output_def one_share_field_def split: prod.split)


section \<open>What is accepted\<close>

lemma spec_initiator_accepts:
  "(\<exists>x. spec_initiator_finish F v msg = Inr x) \<longleftrightarrow>
    (\<exists>yb adb. length yb = 32 \<and> length adb \<le> 65536 \<and> x25519 F (iv_scalar v) yb \<noteq> zeros 32 \<and>
       (let isk = isk_bytes (iv_sid v) (x25519 F (iv_scalar v) yb) (ir_transcript (iv_ya v) (iv_ada v) yb adb)
        in encodeMessageB yb adb (tag_bytes isk (iv_sid v) yb adb) = Inr msg))"
  (is "?L \<longleftrightarrow> (\<exists>yb adb. ?R yb adb)")
proof
  assume ?L
  then obtain b where b: "decodeMessageB msg = Inr b" and k: "x25519 F (iv_scalar v) (b_yb b) \<noteq> zeros 32"
    "b_tag b = tag_bytes (isk_bytes (iv_sid v) (x25519 F (iv_scalar v) (b_yb b)) (ir_transcript (iv_ya v) (iv_ada v) (b_yb b) (b_adb b))) (iv_sid v) (b_yb b) (b_adb b)"
    by (auto simp: spec_initiator_finish_def Let_def split: sum.splits if_splits)
  from b have "okB b" "msg = wireB b" by (simp_all add: msgB.dec_iff)
  then have "?R (b_yb b) (b_adb b)" using k
    by (simp add: encoded Let_def okB_def within_cap_def cap_defs) (metis messageB.surjective old.unit.exhaust)
  then show "\<exists>yb adb. ?R yb adb" by blast
next
  assume "\<exists>yb adb. ?R yb adb"
  then obtain yb adb where r: "?R yb adb" by blast
  let ?t = "tag_bytes (isk_bytes (iv_sid v) (x25519 F (iv_scalar v) yb) (ir_transcript (iv_ya v) (iv_ada v) yb adb)) (iv_sid v) yb adb"
  have "decodeMessageB msg = Inr \<lparr>b_yb = yb, b_adb = adb, b_tag = ?t\<rparr>"
    using r by (auto simp: encoded Let_def intro!: decodeMessageB_ok wire_ok)
  with r show ?L by (simp add: spec_initiator_finish_def Let_def)
qed

lemma spec_responder_accepts:
  "(\<exists>x. spec_responder_finish v msg = Inr x) \<longleftrightarrow> encodeMessageC (tag_bytes (rv_isk v) (rv_sid v) (rv_ya v) (rv_ada v)) = Inr msg"
  (is "?L \<longleftrightarrow> ?R")
proof
  assume ?L
  then obtain c where "decodeMessageC msg = Inr c" "c_tag c = tag_bytes (rv_isk v) (rv_sid v) (rv_ya v) (rv_ada v)"
    by (auto simp: spec_responder_finish_def split: sum.splits if_splits)
  then show ?R by (simp add: msgC.dec_iff encoded) (metis messageC.surjective old.unit.exhaust)
next
  assume ?R
  then have "decodeMessageC msg = Inr \<lparr>c_tag = tag_bytes (rv_isk v) (rv_sid v) (rv_ya v) (rv_ada v)\<rparr>"
    by (auto simp: encoded intro!: decodeMessageC_ok wire_ok)
  then show ?L by (simp add: spec_responder_finish_def)
qed

text \<open>
  C6: explicit key confirmation. The initiator's \<open>Finish\<close> returns a session exactly for the messages that
  are the encoding of a share, associated data within the cap and the confirmation tag computed
  from the key both would share, the share not leading to the identity; the responder's \<open>Finish\<close>
  exactly for the one message that encodes the initiator's tag over the key and transcript it holds.
  Nothing else, not even a message that differs in one bit, makes either call succeed.
\<close>

theorem finish_accepts_exactly:
  assumes "field_lengths F" "initiator_ready wa i p q v" "responder_ready wb r p' q' u"
  shows "((\<exists>m s. fst (run_state (Initiator_Finish F (Some i) ma) wa) = Inr (m, s)) \<longleftrightarrow>
      (\<exists>yb adb. length yb = 32 \<and> length adb \<le> 65536 \<and> x25519 F (iv_scalar v) yb \<noteq> zeros 32 \<and>
         (let isk = isk_bytes (iv_sid v) (x25519 F (iv_scalar v) yb) (ir_transcript (iv_ya v) (iv_ada v) yb adb)
          in encodeMessageB yb adb (tag_bytes isk (iv_sid v) yb adb) = Inr (contents wa ma)))) \<and>
    ((\<exists>s. fst (run_state (Responder_Finish (Some r) mb) wb) = Inr s) \<longleftrightarrow>
      encodeMessageC (tag_bytes (rv_isk u) (rv_sid u) (rv_ya u) (rv_ada u)) = Inr (contents wb mb))"
  unfolding Initiator_Finish_succeeds [OF assms(1,2)] Responder_Finish_succeeds [OF assms(3)]
    spec_initiator_accepts spec_responder_accepts by blast

theorem finish_accepts_exactly_witness:
  "(\<exists>s. fst (run_state (Responder_Finish (Some \<lparr>r_state = Some 0\<rparr>) (incoming example_responder_world))
      (delivered (wireC \<lparr>c_tag = tag_bytes (replicate 64 7) [4] [1] [2]\<rparr>) example_responder_world)) = Inr s) \<and>
   \<not> (\<exists>m s. fst (run_state (Initiator_Finish int_field (Some \<lparr>i_state = Some 0\<rparr>) None) example_initiator_world) = Inr (m, s))"
proof -
  let ?c = "wireC \<lparr>c_tag = tag_bytes (replicate 64 7) [4] [1] [2]\<rparr>"
  note e = finish_accepts_exactly [OF int_fe.field_lengths_axioms example_initiator_ready responder_ready_delivered [where b = ?c, OF example_responder_ready],
      of None "incoming example_responder_world"]
  have "\<not> (encodeMessageB yb adb t = Inr [])" for yb adb t
    by (simp add: encoded wireB_def frame_def)
  then show ?thesis using e by (simp add: encoded delivered_facts Let_def del: contents.simps(2))
qed

end
