(* ===== verification/History.thy ===== *)
theory History
  imports Exchange
begin

text \<open>
  Any history of calls. A world is well formed when every pointer of every object is valid, no two
  objects share an array, an unused guard has an intact core and a used one a core without secrets,
  and a closed session has no key. Every call of the package keeps this, whatever its result, and so
  does whatever the callers do with arrays of their own.
\<close>

section \<open>Well-formed worlds\<close>

datatype obj = IC nat | RC nat | SS nat

definition icore_slices :: "initiatorCore \<Rightarrow> slice set" where
  "icore_slices c = {ic_scalar c, ic_sid c, ic_ya c, ic_ada c, ic_peerID c}"

fun slices_of :: "world \<Rightarrow> obj \<Rightarrow> slice set" where
  "slices_of w (IC q) = (if q < length (icores w) then icore_slices (icores w ! q) else {})"
| "slices_of w (RC q) = (if q < length (rcores w) then core_slices (rcores w ! q) else {})"
| "slices_of w (SS q) = (if q < length (sstates w) then {ss_isk (sstates w ! q)} else {})"

definition owned :: "world \<Rightarrow> slice set" where
  "owned w = (\<Union>x. slices_of w x)"

definition intact_i :: "world \<Rightarrow> initiatorCore \<Rightarrow> bool" where
  "intact_i w c \<longleftrightarrow> length (contents w (ic_scalar c)) = 32 \<and> ic_scalar c \<notin> {ic_sid c, ic_ya c, ic_ada c, ic_peerID c}"

definition intact_r :: "world \<Rightarrow> responderCore \<Rightarrow> bool" where
  "intact_r w c \<longleftrightarrow> rc_isk c \<noteq> None \<and> rc_isk c \<notin> {rc_sid c, rc_peerID c} \<union> transcript_slices (rc_transcript c) \<and>
     contents w (t_transcript (rc_transcript c)) =
       ir_transcript (contents w (t_ya (rc_transcript c))) (contents w (t_ada (rc_transcript c)))
         (contents w (t_yb (rc_transcript c))) (contents w (t_adb (rc_transcript c)))"

text \<open>A guard table over a core table: its own core for each guard, intact until used, without secrets after.\<close>

definition guards_ok :: "singleUseState list \<Rightarrow> 'c list \<Rightarrow> string \<Rightarrow> ('c \<Rightarrow> bool) \<Rightarrow> ('c \<Rightarrow> bool) \<Rightarrow> bool" where
  "guards_ok gs cs u intact cleared \<longleftrightarrow>
     (\<forall>p < length gs. \<exists>q < length cs. gs ! p = (newSingleUseState (Some q) u)\<lparr>su_used := su_used (gs ! p)\<rparr> \<and>
        (if su_used (gs ! p) then cleared (cs ! q) else intact (cs ! q))) \<and>
     (\<forall>p < length gs. \<forall>p' < length gs. su_core (gs ! p) = su_core (gs ! p') \<longrightarrow> p = p')"

definition cleared_i :: "initiatorCore \<Rightarrow> bool" where
  "cleared_i c \<longleftrightarrow> ic_scalar c = None"

definition cleared_r :: "responderCore \<Rightarrow> bool" where
  "cleared_r c \<longleftrightarrow> rc_isk c = None \<and> rc_transcript c = cleared_transcript"

definition wf_world :: "world \<Rightarrow> bool" where
  "wf_world w \<longleftrightarrow>
     (\<forall>s \<in> owned w. live w s) \<and>
     (\<forall>x y. x \<noteq> y \<longrightarrow> slices_of w x \<inter> slices_of w y \<subseteq> {None}) \<and>
     guards_ok (istates w) (icores w) ''uninitialized initiator'' (intact_i w) cleared_i \<and>
     guards_ok (rstates w) (rcores w) ''uninitialized responder'' (intact_r w) cleared_r \<and>
     (\<forall>st \<in> set (sstates w). ss_closed st \<longrightarrow> ss_isk st = None)"

section \<open>Guard tables\<close>

lemma guards_ok_mono:
  assumes "guards_ok gs cs u intact cleared" "\<And>q. q < length cs \<Longrightarrow> intact (cs ! q) \<Longrightarrow> intact' (cs ! q)"
  shows "guards_ok gs cs u intact' cleared"
  using assms unfolding guards_ok_def by metis

lemma guards_ok_new:
  assumes "guards_ok gs cs u intact cleared" "intact c"
  shows "guards_ok (gs @ [newSingleUseState (Some (length cs)) u]) (cs @ [c]) u intact cleared"
  unfolding guards_ok_def
proof (intro conjI allI impI, goal_cases)
  case (1 p)
  show ?case
  proof (cases "p < length gs")
    case True
    then obtain q where q: "q < length cs" "gs ! p = (newSingleUseState (Some q) u)\<lparr>su_used := su_used (gs ! p)\<rparr>"
      "if su_used (gs ! p) then cleared (cs ! q) else intact (cs ! q)"
      using assms(1) unfolding guards_ok_def by blast
    then show ?thesis using True by (intro exI [of _ q]) (simp add: nth_append)
  next
    case False
    then show ?thesis using 1 assms(2) by (intro exI [of _ "length cs"]) (simp add: nth_append newSingleUseState_def)
  qed
next
  case (2 p p')
  have old: "su_core (gs ! x) \<noteq> Some (length cs)" if "x < length gs" for x
  proof -
    from that assms(1) obtain q where "q < length cs" "gs ! x = (newSingleUseState (Some q) u)\<lparr>su_used := su_used (gs ! x)\<rparr>"
      unfolding guards_ok_def by blast
    then have "su_core (gs ! x) = Some q" by (metis newSingleUseState_def singleUseState.select_convs(2) singleUseState.update_convs(1))
    then show ?thesis using \<open>q < length cs\<close> by simp
  qed
  show ?case
    using 2 old [of p] old [of p'] assms(1) unfolding guards_ok_def
    by (auto simp: nth_append newSingleUseState_def less_Suc_eq split: if_splits)
qed

lemma guards_ok_spent:
  assumes "guards_ok gs cs u intact cleared" "p < length gs" "gs ! p = newSingleUseState (Some q) u" "cleared c"
    and "\<And>r. r < length cs \<Longrightarrow> r \<noteq> q \<Longrightarrow> intact (cs ! r) \<Longrightarrow> intact' (cs ! r)"
  shows "guards_ok (gs[p := (gs ! p)\<lparr>su_used := True\<rparr>]) (cs[q := c]) u intact' cleared"
  unfolding guards_ok_def
proof (intro conjI allI impI, goal_cases)
  case (1 x)
  obtain r where r: "r < length cs" "gs ! x = (newSingleUseState (Some r) u)\<lparr>su_used := su_used (gs ! x)\<rparr>"
      "if su_used (gs ! x) then cleared (cs ! r) else intact (cs ! r)"
    using assms(1) 1 unfolding guards_ok_def by auto
  show ?case
  proof (cases "x = p")
    case True
    with r(2) assms(3) have "r = q" by (simp add: newSingleUseState_def)
    then show ?thesis using r True assms(2-4) by (intro exI [of _ q]) (simp add: newSingleUseState_def)
  next
    case False
    have "su_core (gs ! x) \<noteq> su_core (gs ! p)" using assms(1,2) 1 False unfolding guards_ok_def by auto
    moreover have "su_core (gs ! x) = Some r" by (subst r(2)) (simp add: newSingleUseState_def)
    ultimately have "r \<noteq> q" using assms(3) by (auto simp: newSingleUseState_def)
    then show ?thesis using r False assms(5) [OF r(1)] by (intro exI [of _ r]) (simp split: if_splits)
  qed
next
  case (2 x y)
  have "su_core (gs[p := (gs ! p)\<lparr>su_used := True\<rparr>] ! z) = su_core (gs ! z)" if "z < length gs" for z
    using that by (cases "z = p") simp_all
  with 2 assms(1) show ?case unfolding guards_ok_def by simp
qed

section \<open>How a world may change\<close>

lemma wf_worldD:
  assumes "wf_world w"
  shows "s \<in> slices_of w x \<Longrightarrow> live w s" "x \<noteq> y \<Longrightarrow> s \<in> slices_of w x \<Longrightarrow> s \<in> slices_of w y \<Longrightarrow> s = None"
    "guards_ok (istates w) (icores w) ''uninitialized initiator'' (intact_i w) cleared_i"
    "guards_ok (rstates w) (rcores w) ''uninitialized responder'' (intact_r w) cleared_r"
  using assms unfolding wf_world_def owned_def by blast+

lemma wf_change:
  assumes wf: "wf_world w"
    and sl: "\<And>x. slices_of w' x \<subseteq> insert None (slices_of w x) \<union> (if Some x = new then {s. fresh w s \<and> live w' s} else {})"
    and new: "\<And>x. new = Some x \<Longrightarrow> slices_of w x = {}"
    and live: "\<And>s. s \<in> owned w \<Longrightarrow> live w' s"
    and rest: "guards_ok (istates w') (icores w') ''uninitialized initiator'' (intact_i w') cleared_i"
      "guards_ok (rstates w') (rcores w') ''uninitialized responder'' (intact_r w') cleared_r"
      "\<forall>st \<in> set (sstates w'). ss_closed st \<longrightarrow> ss_isk st = None"
  shows "wf_world w'"
  unfolding wf_world_def
proof (intro conjI rest ballI allI impI)
  fix s assume "s \<in> owned w'"
  then obtain x where "s \<in> slices_of w' x" by (auto simp: owned_def)
  then have "s \<in> insert None (slices_of w x) \<union> (if Some x = new then {s. fresh w s \<and> live w' s} else {})" using sl by blast
  then show "live w' s" using live by (auto simp: owned_def split: if_splits)
next
  fix x y :: obj assume xy: "x \<noteq> y"
  have "s = None" if "s \<in> slices_of w' x" "s \<in> slices_of w' y" for s
  proof (rule ccontr)
    assume s: "s \<noteq> None"
    have c: "s \<in> slices_of w z \<or> Some z = new \<and> fresh w s" if "s \<in> slices_of w' z" for z
      using sl [of z] that s by (auto split: if_splits)
    have "s \<in> slices_of w z \<Longrightarrow> fresh w s \<Longrightarrow> False" for z
      using wf_worldD(1) [OF wf, of s z] fresh_not_live s by blast
    then show False using c [OF that(1)] c [OF that(2)] wf_worldD(2) [OF wf xy] xy s by blast
  qed
  then show "slices_of w' x \<inter> slices_of w' y \<subseteq> {None}" by blast
qed

lemma intact_i_cong: "\<forall>s \<in> icore_slices c. contents w' s = contents w s \<Longrightarrow> intact_i w' c = intact_i w c"
  by (simp add: intact_i_def icore_slices_def)

lemma intact_r_cong: "\<forall>s \<in> core_slices c. contents w' s = contents w s \<Longrightarrow> intact_r w' c = intact_r w c"
  by (simp add: intact_r_def core_slices_def transcript_slices_def)

lemma guards_frame:
  assumes "wf_world w" "\<And>s. s \<in> owned w \<Longrightarrow> contents w' s = contents w s"
  shows "guards_ok (istates w) (icores w) ''uninitialized initiator'' (intact_i w') cleared_i"
    "guards_ok (rstates w) (rcores w) ''uninitialized responder'' (intact_r w') cleared_r"
proof -
  have "\<forall>s \<in> icore_slices (icores w ! q). contents w' s = contents w s" if "q < length (icores w)" for q
    using assms(2) that by (force simp: owned_def intro: exI [of _ "IC q"])
  then show "guards_ok (istates w) (icores w) ''uninitialized initiator'' (intact_i w') cleared_i"
    using wf_worldD(3) [OF assms(1)] intact_i_cong [of _ w' w] by (blast intro: guards_ok_mono)
  have "\<forall>s \<in> core_slices (rcores w ! q). contents w' s = contents w s" if "q < length (rcores w)" for q
    using assms(2) that by (force simp: owned_def intro: exI [of _ "RC q"])
  then show "guards_ok (rstates w) (rcores w) ''uninitialized responder'' (intact_r w') cleared_r"
    using wf_worldD(4) [OF assms(1)] intact_r_cong [of _ w' w] by (blast intro: guards_ok_mono)
qed

lemma wf_frame:
  assumes "wf_world w" "\<And>s. s \<in> owned w \<Longrightarrow> live w' s \<and> contents w' s = contents w s"
    and t: "icores w' = icores w" "rcores w' = rcores w" "istates w' = istates w" "rstates w' = rstates w" "sstates w' = sstates w"
  shows "wf_world w'"
proof (rule wf_change [OF assms(1), where new = None])
  fix x show "slices_of w' x \<subseteq> insert None (slices_of w x) \<union> (if Some x = None then {s. fresh w s \<and> live w' s} else {})"
    by (cases x) (auto simp: t)
  show "\<forall>st \<in> set (sstates w'). ss_closed st \<longrightarrow> ss_isk st = None" using assms(1) by (simp add: wf_world_def t)
qed (use assms guards_frame [OF assms(1), of w'] in \<open>auto simp: t\<close>)

lemma wf_kept:
  assumes "wf_world w" "kept w w'"
    and "icores w' = icores w" "rcores w' = rcores w" "istates w' = istates w" "rstates w' = rstates w" "sstates w' = sstates w"
  shows "wf_world w'"
proof (rule wf_frame [OF assms(1) _ assms(3-7)])
  fix s assume "s \<in> owned w"
  then have "live w s" using assms(1) by (simp add: wf_world_def)
  then show "live w' s \<and> contents w' s = contents w s" using kept_contents [OF assms(2)] by blast
qed

section \<open>New objects\<close>

lemma kept_owned: "wf_world w \<Longrightarrow> kept w w' \<Longrightarrow> s \<in> owned w \<Longrightarrow> live w' s \<and> contents w' s = contents w s"
  using kept_contents [of w w' s] by (simp add: wf_world_def)

lemma wf_new_initiator:
  assumes wf: "wf_world w" and k: "kept w w'"
    and t: "icores w' = icores w @ [c]" "rcores w' = rcores w" "rstates w' = rstates w" "sstates w' = sstates w"
      "istates w' = istates w @ [newSingleUseState (Some (length (icores w))) ''uninitialized initiator'']"
    and c: "\<forall>s \<in> icore_slices c. fresh w s \<and> live w' s" "intact_i w' c"
  shows "wf_world w'"
proof (rule wf_change [OF wf, where new = "Some (IC (length (icores w)))"])
  note own = kept_owned [OF wf k]
  show "guards_ok (istates w') (icores w') ''uninitialized initiator'' (intact_i w') cleared_i"
    "guards_ok (rstates w') (rcores w') ''uninitialized responder'' (intact_r w') cleared_r"
    using guards_frame [OF wf, of w'] own guards_ok_new [where intact = "intact_i w'", OF _ c(2)] by (simp_all add: t)
  fix x show "slices_of w' x \<subseteq> insert None (slices_of w x) \<union>
      (if Some x = Some (IC (length (icores w))) then {s. fresh w s \<and> live w' s} else {})"
    using c(1) by (cases x) (auto simp: t nth_append)
qed (use kept_owned [OF wf k] wf in \<open>auto simp: wf_world_def t\<close>)

lemma wf_new_responder:
  assumes wf: "wf_world w" and k: "kept w w'"
    and t: "rcores w' = rcores w @ [c]" "icores w' = icores w" "istates w' = istates w" "sstates w' = sstates w"
      "rstates w' = rstates w @ [newSingleUseState (Some (length (rcores w))) ''uninitialized responder'']"
    and c: "\<forall>s \<in> core_slices c. fresh w s \<and> live w' s" "intact_r w' c"
  shows "wf_world w'"
proof (rule wf_change [OF wf, where new = "Some (RC (length (rcores w)))"])
  note own = kept_owned [OF wf k]
  show "guards_ok (istates w') (icores w') ''uninitialized initiator'' (intact_i w') cleared_i"
    "guards_ok (rstates w') (rcores w') ''uninitialized responder'' (intact_r w') cleared_r"
    using guards_frame [OF wf, of w'] own guards_ok_new [where intact = "intact_r w'", OF _ c(2)] by (simp_all add: t)
  fix x show "slices_of w' x \<subseteq> insert None (slices_of w x) \<union>
      (if Some x = Some (RC (length (rcores w))) then {s. fresh w s \<and> live w' s} else {})"
    using c(1) by (cases x) (auto simp: t nth_append)
qed (use kept_owned [OF wf k] wf in \<open>auto simp: wf_world_def t\<close>)

section \<open>Spent objects and new sessions\<close>

lemma spent_frame:
  assumes wf: "wf_world w" and k: "kept (w\<lparr>arrs := clear_all ss (arrs w)\<rparr>) w'" and ss: "set ss \<subseteq> slices_of w X"
  shows "s \<in> slices_of w x \<Longrightarrow> live w' s" "x \<noteq> X \<Longrightarrow> s \<in> slices_of w x \<Longrightarrow> contents w' s = contents w s"
proof -
  let ?w = "w\<lparr>arrs := clear_all ss (arrs w)\<rparr>"
  have l: "live ?w s" if "s \<in> slices_of w x" using wf_worldD(1) [OF wf that] by (cases s) simp_all
  then show "s \<in> slices_of w x \<Longrightarrow> live w' s" using kept_contents [OF k] by blast
  show "contents w' s = contents w s" if "x \<noteq> X" "s \<in> slices_of w x"
  proof -
    have "s = None \<or> s \<notin> set ss" using wf_worldD(2) [OF wf that(1)] that(2) ss by blast
    then have "contents ?w s = contents w s" by (intro contents_clear_all wf_worldD(1) [OF wf that(2)])
    then show ?thesis using kept_contents [OF k l [OF that(2)]] by simp
  qed
qed

text \<open>The sessions after a call: the same, or one more with a key in a new array.\<close>

definition sessions_grow :: "world \<Rightarrow> world \<Rightarrow> bool" where
  "sessions_grow w w' \<longleftrightarrow> sstates w' = sstates w \<or>
     (\<exists>x. sstates w' = sstates w @ [x] \<and> fresh w (ss_isk x) \<and> live w' (ss_isk x) \<and> \<not> ss_closed x)"

lemma sessions_grow_open:
  assumes "\<exists>x. sstates w' = sstates w @ [x]" "s_state s = Some (length (sstates w))" "session_of w' s v" "fresh w (session_secret w' s)"
  shows "sessions_grow w w'"
  using assms by (auto simp: sessions_grow_def session_of_def open_session_def session_secret_def)

lemma wf_spent_initiator:
  assumes wf: "wf_world w" and ready: "initiator_ready w i p q v" and spent: "initiator_spent w w' p q" and ss: "sessions_grow w w'"
  shows "wf_world w'"
proof -
  let ?c = "icores w ! q"
  have t: "istates w' = (istates w)[p := (istates w ! p)\<lparr>su_used := True\<rparr>]" "icores w' = (icores w)[q := ?c\<lparr>ic_scalar := None\<rparr>]"
    "rstates w' = rstates w" "rcores w' = rcores w"
    using spent unfolding initiator_spent_def by (cases w; cases w'; simp)+
  have r: "p < length (istates w)" "istates w ! p = newSingleUseState (Some q) ''uninitialized initiator''" "q < length (icores w)"
    using ready by (simp_all add: initiator_ready_def)
  have k: "kept (w\<lparr>arrs := clear_all [ic_scalar ?c] (arrs w)\<rparr>) w'" using spent by (simp add: initiator_spent_def clear_all_def)
  have sub: "set [ic_scalar ?c] \<subseteq> slices_of w (IC q)" using r(3) by (simp add: icore_slices_def)
  note fr = spent_frame [OF wf k sub]
  show ?thesis
  proof (rule wf_change [OF wf, where new = "if sstates w' = sstates w then None else Some (SS (length (sstates w)))"])
    fix x show "slices_of w' x \<subseteq> insert None (slices_of w x) \<union>
        (if Some x = (if sstates w' = sstates w then None else Some (SS (length (sstates w)))) then {s. fresh w s \<and> live w' s} else {})"
      using ss by (cases x) (auto simp: t r icore_slices_def nth_list_update sessions_grow_def nth_append split: if_splits)
    have "intact_i w' (icores w ! z)" if "z < length (icores w)" "z \<noteq> q" "intact_i w (icores w ! z)" for z
      using intact_i_cong [of "icores w ! z" w' w] fr(2) [of "IC z"] that by auto
    then show "guards_ok (istates w') (icores w') ''uninitialized initiator'' (intact_i w') cleared_i"
      unfolding t by (intro guards_ok_spent [OF wf_worldD(3) [OF wf] r(1,2)]) (simp_all add: cleared_i_def)
    have "intact_r w' (rcores w ! z)" if "z < length (rcores w)" "intact_r w (rcores w ! z)" for z
      using intact_r_cong [of "rcores w ! z" w' w] fr(2) [of "RC z"] that by auto
    then show "guards_ok (rstates w') (rcores w') ''uninitialized responder'' (intact_r w') cleared_r"
      unfolding t by (rule guards_ok_mono [OF wf_worldD(4) [OF wf]])
  qed (use ss wf fr(1) in \<open>auto simp: owned_def sessions_grow_def wf_world_def split: if_splits\<close>)
qed

lemma wf_spent_responder:
  assumes wf: "wf_world w" and ready: "responder_ready w i p q v" and spent: "responder_spent w w' p q" and ss: "sessions_grow w w'"
  shows "wf_world w'"
proof -
  let ?c = "rcores w ! q"
  have t: "rstates w' = (rstates w)[p := (rstates w ! p)\<lparr>su_used := True\<rparr>]"
    "rcores w' = (rcores w)[q := ?c\<lparr>rc_isk := None, rc_transcript := cleared_transcript\<rparr>]" "istates w' = istates w" "icores w' = icores w"
    using spent unfolding responder_spent_def by (cases w; cases w'; simp)+
  have r: "p < length (rstates w)" "rstates w ! p = newSingleUseState (Some q) ''uninitialized responder''" "q < length (rcores w)"
    using ready by (simp_all add: responder_ready_def)
  have k: "kept (w\<lparr>arrs := clear_all (core_secrets ?c) (arrs w)\<rparr>) w'" using spent by (simp add: responder_spent_def)
  have sub: "set (core_secrets ?c) \<subseteq> slices_of w (RC q)" using r(3) by (auto simp: core_slices_def core_secrets_def)
  note fr = spent_frame [OF wf k sub]
  have cs: "core_slices (?c\<lparr>rc_isk := None, rc_transcript := cleared_transcript\<rparr>) = {None, rc_sid ?c, rc_peerID ?c}"
    by (auto simp: core_slices_def transcript_slices_def cleared_transcript_def)
  show ?thesis
  proof (rule wf_change [OF wf, where new = "if sstates w' = sstates w then None else Some (SS (length (sstates w)))"])
    fix x show "slices_of w' x \<subseteq> insert None (slices_of w x) \<union>
        (if Some x = (if sstates w' = sstates w then None else Some (SS (length (sstates w)))) then {s. fresh w s \<and> live w' s} else {})"
      using ss cs by (cases x) (auto simp: t r nth_list_update sessions_grow_def nth_append core_slices_def [of ?c] split: if_splits)
    have "intact_r w' (rcores w ! z)" if "z < length (rcores w)" "z \<noteq> q" "intact_r w (rcores w ! z)" for z
      using intact_r_cong [of "rcores w ! z" w' w] fr(2) [of "RC z"] that by auto
    then show "guards_ok (rstates w') (rcores w') ''uninitialized responder'' (intact_r w') cleared_r"
      unfolding t by (intro guards_ok_spent [OF wf_worldD(4) [OF wf] r(1,2)]) (simp_all add: cleared_r_def)
    have "intact_i w' (icores w ! z)" if "z < length (icores w)" "intact_i w (icores w ! z)" for z
      using intact_i_cong [of "icores w ! z" w' w] fr(2) [of "IC z"] that by auto
    then show "guards_ok (istates w') (icores w') ''uninitialized initiator'' (intact_i w') cleared_i"
      unfolding t by (rule guards_ok_mono [OF wf_worldD(3) [OF wf]])
  qed (use ss wf fr(1) in \<open>auto simp: owned_def sessions_grow_def wf_world_def split: if_splits\<close>)
qed

lemma wf_initiator_cases:
  assumes "wf_world w" "i_state i = Some p" "p < length (istates w)"
  obtains (used) "initiator_used w i" | (ready) q v where "initiator_ready w i p q v"
proof (cases "su_used (istates w ! p)")
  case True
  then show ?thesis using assms(2,3) by (intro used) (simp add: initiator_used_def)
next
  case False
  obtain q where q: "q < length (icores w)" "istates w ! p = (newSingleUseState (Some q) ''uninitialized initiator'')\<lparr>su_used := su_used (istates w ! p)\<rparr>"
    "intact_i w (icores w ! q)"
    using wf_worldD(3) [OF assms(1)] assms(3) False unfolding guards_ok_def by auto
  let ?c = "icores w ! q"
  let ?v = "\<lparr>iv_scalar = contents w (ic_scalar ?c), iv_sid = contents w (ic_sid ?c), iv_ya = contents w (ic_ya ?c),
    iv_ada = contents w (ic_ada ?c), iv_peerID = contents w (ic_peerID ?c)\<rparr>"
  have "istates w ! p = newSingleUseState (Some q) ''uninitialized initiator''" using q(2) False by (simp add: newSingleUseState_def)
  moreover have "live w s" if "s \<in> icore_slices ?c" for s using wf_worldD(1) [OF assms(1), of s "IC q"] q(1) that by simp
  moreover have "ic_scalar ?c \<noteq> None" using q(3) by (cases "ic_scalar ?c") (auto simp: intact_i_def)
  ultimately have "initiator_ready w i p q ?v"
    using assms(2,3) q(1,3) by (simp add: initiator_ready_def initiator_core_def intact_i_def icore_slices_def)
  then show ?thesis by (rule ready)
qed

lemma wf_responder_cases:
  assumes "wf_world w" "r_state r = Some p" "p < length (rstates w)"
  obtains (used) "responder_used w r" | (ready) q v where "responder_ready w r p q v"
proof (cases "su_used (rstates w ! p)")
  case True
  then show ?thesis using assms(2,3) by (intro used) (simp add: responder_used_def)
next
  case False
  obtain q where q: "q < length (rcores w)" "rstates w ! p = (newSingleUseState (Some q) ''uninitialized responder'')\<lparr>su_used := su_used (rstates w ! p)\<rparr>"
    "intact_r w (rcores w ! q)"
    using wf_worldD(4) [OF assms(1)] assms(3) False unfolding guards_ok_def by auto
  let ?c = "rcores w ! q"
  let ?t = "rc_transcript ?c"
  let ?v = "\<lparr>rv_isk = contents w (rc_isk ?c), rv_ya = contents w (t_ya ?t), rv_ada = contents w (t_ada ?t), rv_yb = contents w (t_yb ?t),
    rv_adb = contents w (t_adb ?t), rv_sid = contents w (rc_sid ?c), rv_peerID = contents w (rc_peerID ?c)\<rparr>"
  have "rstates w ! p = newSingleUseState (Some q) ''uninitialized responder''" using q(2) False by (simp add: newSingleUseState_def)
  moreover have "live w s" if "s \<in> core_slices ?c" for s using wf_worldD(1) [OF assms(1), of s "RC q"] q(1) that by simp
  ultimately have "responder_ready w r p q ?v"
    using assms(2,3) q(1,3)
    by (simp add: responder_ready_def responder_core_def is_transcript_def intact_r_def core_slices_def transcript_slices_def)
  then show ?thesis by (rule ready)
qed

lemma ready_intact:
  "initiator_ready w i p q v \<Longrightarrow> intact_i w (icores w ! q) \<and> (\<forall>s \<in> icore_slices (icores w ! q). live w s)"
  "responder_ready w r p q u \<Longrightarrow> intact_r w (rcores w ! q) \<and> (\<forall>s \<in> core_slices (rcores w ! q). live w s)"
  by (auto simp: initiator_ready_def initiator_core_def intact_i_def icore_slices_def
      responder_ready_def responder_core_def is_transcript_def intact_r_def core_slices_def transcript_slices_def)

section \<open>Histories\<close>

definition valid_initiator :: "world \<Rightarrow> Initiator option \<Rightarrow> bool" where
  "valid_initiator w i \<longleftrightarrow> (case i of None \<Rightarrow> True | Some i \<Rightarrow> (case i_state i of None \<Rightarrow> True | Some p \<Rightarrow> p < length (istates w)))"

definition valid_responder :: "world \<Rightarrow> Responder option \<Rightarrow> bool" where
  "valid_responder w r \<longleftrightarrow> (case r of None \<Rightarrow> True | Some r \<Rightarrow> (case r_state r of None \<Rightarrow> True | Some p \<Rightarrow> p < length (rstates w)))"

definition valid_session :: "world \<Rightarrow> Session option \<Rightarrow> bool" where
  "valid_session w s \<longleftrightarrow> (case s of None \<Rightarrow> True | Some s \<Rightarrow>
     (case s_state s of None \<Rightarrow> True | Some p \<Rightarrow> p < length (sstates w)) \<and> live w (s_transcriptID s) \<and> live w (s_peerAD s) \<and> live w (s_peerID s))"

text \<open>
  One step of a history: a call of the package with pointers that exist, or the program around it
  allocating an array, writing an array that no object of the package owns, or feeding its readers.
\<close>

inductive api_step :: "'e field_ops \<Rightarrow> world \<Rightarrow> world \<Rightarrow> bool" for F where
  start: "live_input w input \<Longrightarrow> run_state (startWithRandom F input random) w = (r, w') \<Longrightarrow> api_step F w w'"
| respond: "live_input w input \<Longrightarrow> live w msg \<Longrightarrow> run_state (respondWithRandom F input msg random) w = (r, w') \<Longrightarrow> api_step F w w'"
| initiator_finish: "valid_initiator w i \<Longrightarrow> run_state (Initiator_Finish F i msg) w = (r, w') \<Longrightarrow> api_step F w w'"
| initiator_close: "valid_initiator w i \<Longrightarrow> run_state (Initiator_Close i) w = (r, w') \<Longrightarrow> api_step F w w'"
| responder_finish: "valid_responder w i \<Longrightarrow> run_state (Responder_Finish i msg) w = (r, w') \<Longrightarrow> api_step F w w'"
| responder_close: "valid_responder w i \<Longrightarrow> run_state (Responder_Close i) w = (r, w') \<Longrightarrow> api_step F w w'"
| session_close: "valid_session w s \<Longrightarrow> run_state (Session_Close s) w = (r, w') \<Longrightarrow> api_step F w w'"
| session_export: "valid_session w s \<Longrightarrow> run_state (Export s label ctx n) w = (r, w') \<Longrightarrow> api_step F w w'"
| session_metadata: "valid_session w s \<Longrightarrow> get \<in> {TranscriptID, PeerAssociatedData, Session_PeerID} \<Longrightarrow> run_state (get s) w = (r, w') \<Longrightarrow> api_step F w w'"
| env_alloc: "api_step F w (w\<lparr>arrs := arrs w @ [b]\<rparr>)"
| env_write: "Some a \<notin> owned w \<Longrightarrow> api_step F w (w\<lparr>arrs := (arrs w)[a := b]\<rparr>)"
| env_readers: "api_step F w (w\<lparr>readers := R\<rparr>)"

section \<open>Every step keeps worlds well formed\<close>

text \<open>What a step may do to the guards: new ones, and marking used ones.\<close>

definition guards_advance :: "world \<Rightarrow> world \<Rightarrow> bool" where
  "guards_advance w w' \<longleftrightarrow> tables_advance (istates w) (istates w') \<and> tables_advance (rstates w) (rstates w')"

definition steady :: "world \<Rightarrow> world \<Rightarrow> bool" where
  "steady w w' \<longleftrightarrow> wf_world w' \<and> guards_advance w w'"

lemma tables_advance_used: "tables_advance xs (xs[p := (xs ! p)\<lparr>su_used := True\<rparr>])"
  by (rule tables_advance_update) (simp add: advances_def)

lemma steady_refl: "wf_world w \<Longrightarrow> steady w w"
  by (simp add: steady_def guards_advance_def)

lemma steady_kept:
  assumes "wf_world w" "kept w w'"
    and "icores w' = icores w" "rcores w' = rcores w" "istates w' = istates w" "rstates w' = rstates w" "sstates w' = sstates w"
  shows "steady w w'"
  using wf_kept [OF assms] assms(5,6) by (simp add: steady_def guards_advance_def)

lemma steady_grows: "wf_world w \<Longrightarrow> grows w w' \<Longrightarrow> steady w w'"
  by (rule steady_kept) (auto intro: grows_kept simp: grows_def)

lemma steady_start:
  assumes F: "field_lengths F" and wf: "wf_world w" and live: "live_input w input"
    and run: "run_state (startWithRandom F input random) w = (r, w')"
  shows "steady w w'"
proof (cases "input_error w input")
  case (Some f)
  then show ?thesis using run run_startWithRandom_error [OF Some, of F random] steady_refl [OF wf] by simp
next
  case None
  then have acc: "acceptable w input" by (simp add: input_error_None)
  show ?thesis
  proof (cases "has_scalar w random")
    case False
    obtain v where v: "run_state (startWithRandom F input random) w = (Inl (randomness_fault (read_error (readers w ! random_source random))), v)"
      "v = w\<lparr>readers := drain 32 (random_source random) (readers w), arrs := arrs v\<rparr>" "kept w v"
      by (rule field_lengths.run_startWithRandom_norandom [OF F acc live False])
    have "w' = v" using run v(1) by simp
    then show ?thesis using v(2) by (intro steady_kept [OF wf]) (use v(3) in simp, (cases w; cases v; simp)+)
  next
    case True
    obtain i v msg b u core where s: "run_state (startWithRandom F input random) w = (Inr (i, Some msg), u)"
      "u = w\<lparr>readers := drain 32 (random_source random) (readers w), arrs := arrs u,
         icores := icores w @ [core], istates := istates w @ [newSingleUseState (Some (length (icores w))) ''uninitialized initiator'']\<rparr>"
      "initiator_ready u i (length (istates w)) (length (icores w)) v"
      "\<forall>t \<in> {ic_scalar core, ic_sid core, ic_ya core, ic_ada core, ic_peerID core}. fresh w t" "kept w u"
      by (rule field_lengths.run_startWithRandom_ok [OF F acc live True])
    have u: "w' = u" using run s(1) by simp
    have t: "icores u = icores w @ [core]" "rcores u = rcores w" "rstates u = rstates w" "sstates u = sstates w"
      "istates u = istates w @ [newSingleUseState (Some (length (icores w))) ''uninitialized initiator'']"
      using s(2) by (cases w; cases u; simp)+
    have "wf_world u"
      by (rule wf_new_initiator [OF wf s(5) t]) (use ready_intact(1) [OF s(3)] s(4) in \<open>simp_all add: t icore_slices_def\<close>)
    then show ?thesis using t(3,5) tables_advance_append by (simp add: u steady_def guards_advance_def)
  qed
qed

lemma steady_respond:
  assumes F: "field_lengths F" and wf: "wf_world w" and live: "live_input w input" "live w msg"
    and run: "run_state (respondWithRandom F input msg random) w = (r, w')"
  shows "steady w w'"
proof (cases "input_error w input")
  case (Some f)
  then show ?thesis using run run_respondWithRandom_error [OF Some, of F msg random] steady_refl [OF wf] by simp
next
  case None
  then have acc: "acceptable w input" by (simp add: input_error_None)
  show ?thesis
  proof (cases "spec_respond F (party_of w input) (contents w msg) (random_answer w random)")
    case (Inl f)
    obtain v R where v: "run_state (respondWithRandom F input msg random) w = (Inl f, v)" "v = w\<lparr>readers := R, arrs := arrs v\<rparr>" "kept w v"
      by (rule field_lengths.run_respondWithRandom_refused [OF F acc live Inl])
    have "w' = v" using run v(1) by simp
    then show ?thesis using v(2) by (intro steady_kept [OF wf]) (use v(3) in simp, (cases w; cases v; simp)+)
  next
    case (Inr vc)
    obtain rv c where vc: "vc = (rv, c)" by (cases vc)
    obtain i m u core where s: "run_state (respondWithRandom F input msg random) w = (Inr (i, Some m), u)"
      "u = w\<lparr>readers := drain 32 (random_source random) (readers w), arrs := arrs u, rcores := rcores w @ [core],
         rstates := rstates w @ [newSingleUseState (Some (length (rcores w))) ''uninitialized responder'']\<rparr>"
      "responder_ready u i (length (rstates w)) (length (rcores w)) rv" "\<forall>s \<in> core_slices core. fresh w s" "kept w u"
      by (rule field_lengths.run_respondWithRandom_ok [OF F acc live Inr [unfolded vc]])
    have u: "w' = u" using run s(1) by simp
    have t: "rcores u = rcores w @ [core]" "icores u = icores w" "istates u = istates w" "sstates u = sstates w"
      "rstates u = rstates w @ [newSingleUseState (Some (length (rcores w))) ''uninitialized responder'']"
      using s(2) by (cases w; cases u; simp)+
    have "wf_world u"
      by (rule wf_new_responder [OF wf s(5) t]) (use ready_intact(2) [OF s(3)] s(4) in \<open>simp_all add: t\<close>)
    then show ?thesis using t(3,5) tables_advance_append by (simp add: u steady_def guards_advance_def)
  qed
qed

lemma initiator_spent_tables:
  assumes "initiator_spent w w' p q"
  shows "istates w' = (istates w)[p := (istates w ! p)\<lparr>su_used := True\<rparr>]" "rstates w' = rstates w"
  using assms unfolding initiator_spent_def by (cases w; cases w'; simp)+

lemma responder_spent_tables:
  assumes "responder_spent w w' p q"
  shows "rstates w' = (rstates w)[p := (rstates w ! p)\<lparr>su_used := True\<rparr>]" "istates w' = istates w"
  using assms unfolding responder_spent_def by (cases w; cases w'; simp)+

lemma steady_initiator:
  assumes wf: "wf_world w" "initiator_ready w i p q v" "initiator_spent w w' p q" "sessions_grow w w'"
  shows "steady w w'"
  using wf_spent_initiator [OF assms] initiator_spent_tables [OF assms(3)] tables_advance_used
  by (simp add: steady_def guards_advance_def)

lemma steady_responder:
  assumes wf: "wf_world w" "responder_ready w i p q v" "responder_spent w w' p q" "sessions_grow w w'"
  shows "steady w w'"
  using wf_spent_responder [OF assms] responder_spent_tables [OF assms(3)] tables_advance_used
  by (simp add: steady_def guards_advance_def)

lemma steady_initiator_finish:
  assumes F: "field_lengths F" and wf: "wf_world w" and i: "valid_initiator w i" and run: "run_state (Initiator_Finish F i msg) w = (r, w')"
  shows "steady w w'"
proof (cases "case i of None \<Rightarrow> None | Some i \<Rightarrow> i_state i")
  case None
  then have "w' = w" using run by (simp add: Initiator_Finish_def Initiator_finishCore_def)
  then show ?thesis using steady_refl [OF wf] by simp
next
  case (Some p)
  then obtain j where j: "i = Some j" "i_state j = Some p" "p < length (istates w)" using i by (auto simp: valid_initiator_def split: option.splits)
  from wf j(2,3) show ?thesis
  proof (cases rule: wf_initiator_cases)
    case used
    then show ?thesis using run initiator_used_calls(1) [OF used, of F msg] steady_refl [OF wf] by (simp add: j(1))
  next
    case (ready q v)
    show ?thesis
    proof (cases "spec_initiator_finish F v (contents w msg)")
      case (Inl f)
      obtain u where u: "run_state (Initiator_Finish F (Some j) msg) w = (Inl f, u)" "initiator_spent w u p q" "sstates u = sstates w"
        by (rule field_lengths.run_Initiator_Finish_rejected [OF F ready Inl])
      then show ?thesis using run j(1) steady_initiator [OF wf ready u(2)] by (simp add: sessions_grow_def)
    next
      case (Inr cs)
      obtain c sv where cs: "cs = (c, sv)" by (cases cs)
      obtain b s u where u: "run_state (Initiator_Finish F (Some j) msg) w = (Inr (Some b, s), u)" "initiator_spent w u p q"
        "\<exists>x. sstates u = sstates w @ [x]" "s_state s = Some (length (sstates w))" "session_of u s sv"
        "\<forall>t \<in> {Some b, session_secret u s, s_transcriptID s, s_peerAD s, s_peerID s}. fresh w t"
        by (rule field_lengths.run_Initiator_Finish_accepted [OF F ready Inr [unfolded cs]])
      then show ?thesis using run j(1) steady_initiator [OF wf ready u(2) sessions_grow_open [OF u(3-5)]] by simp
    qed
  qed
qed

lemma steady_responder_finish:
  assumes wf: "wf_world w" and i: "valid_responder w i" and run: "run_state (Responder_Finish i msg) w = (r, w')"
  shows "steady w w'"
proof (cases "case i of None \<Rightarrow> None | Some i \<Rightarrow> r_state i")
  case None
  then have "w' = w" using run by (simp add: Responder_Finish_def Responder_finishCore_def)
  then show ?thesis using steady_refl [OF wf] by simp
next
  case (Some p)
  then obtain j where j: "i = Some j" "r_state j = Some p" "p < length (rstates w)" using i by (auto simp: valid_responder_def split: option.splits)
  from wf j(2,3) show ?thesis
  proof (cases rule: wf_responder_cases)
    case used
    then show ?thesis using run responder_used_calls(1) [OF used, of msg] steady_refl [OF wf] by (simp add: j(1))
  next
    case (ready q v)
    show ?thesis
    proof (cases "spec_responder_finish v (contents w msg)")
      case (Inl f)
      obtain u where u: "run_state (Responder_Finish (Some j) msg) w = (Inl f, u)" "responder_spent w u p q" "sstates u = sstates w"
        by (rule run_Responder_Finish_refused [OF ready Inl])
      then show ?thesis using run j(1) steady_responder [OF wf ready u(2)] by (simp add: sessions_grow_def)
    next
      case (Inr sv)
      obtain s u where u: "run_state (Responder_Finish (Some j) msg) w = (Inr s, u)" "responder_spent w u p q"
        "\<exists>x. sstates u = sstates w @ [x]" "s_state s = Some (length (sstates w))" "session_of u s sv"
        "\<forall>t \<in> {session_secret u s, s_transcriptID s, s_peerAD s, s_peerID s}. fresh w t"
        by (rule run_Responder_Finish_accepted [OF ready Inr])
      then show ?thesis using run j(1) steady_responder [OF wf ready u(2) sessions_grow_open [OF u(3-5)]] by simp
    qed
  qed
qed

lemma steady_initiator_close:
  assumes wf: "wf_world w" and i: "valid_initiator w i" and run: "run_state (Initiator_Close i) w = (r, w')"
  shows "steady w w'"
proof (cases "case i of None \<Rightarrow> None | Some i \<Rightarrow> i_state i")
  case None
  then have "w' = w" using run by (auto simp: Initiator_Close_def split: option.splits)
  then show ?thesis using steady_refl [OF wf] by simp
next
  case (Some p)
  then obtain j where j: "i = Some j" "i_state j = Some p" "p < length (istates w)" using i by (auto simp: valid_initiator_def split: option.splits)
  from wf j(2,3) show ?thesis
  proof (cases rule: wf_initiator_cases)
    case used
    then show ?thesis using run initiator_used_calls(2) [OF used] steady_refl [OF wf] by (simp add: j(1))
  next
    case (ready q v)
    obtain u where u: "run_state (Initiator_Close (Some j)) w = (Inr (), u)" "initiator_spent w u p q" "sstates u = sstates w"
      by (rule run_Initiator_Close [OF ready])
    then show ?thesis using run j(1) steady_initiator [OF wf ready u(2)] by (simp add: sessions_grow_def)
  qed
qed

lemma steady_responder_close:
  assumes wf: "wf_world w" and i: "valid_responder w i" and run: "run_state (Responder_Close i) w = (r, w')"
  shows "steady w w'"
proof (cases "case i of None \<Rightarrow> None | Some i \<Rightarrow> r_state i")
  case None
  then have "w' = w" using run by (auto simp: Responder_Close_def split: option.splits)
  then show ?thesis using steady_refl [OF wf] by simp
next
  case (Some p)
  then obtain j where j: "i = Some j" "r_state j = Some p" "p < length (rstates w)" using i by (auto simp: valid_responder_def split: option.splits)
  from wf j(2,3) show ?thesis
  proof (cases rule: wf_responder_cases)
    case used
    then show ?thesis using run responder_used_calls(2) [OF used] steady_refl [OF wf] by (simp add: j(1))
  next
    case (ready q v)
    obtain u where u: "run_state (Responder_Close (Some j)) w = (Inr (), u)" "responder_spent w u p q" "sstates u = sstates w"
      by (rule run_Responder_Close [OF ready])
    then show ?thesis using run j(1) steady_responder [OF wf ready u(2)] by (simp add: sessions_grow_def)
  qed
qed

lemma grows_Export: "run_state (Export s label ctx n) w = (r, w') \<Longrightarrow> grows w w'"
  by (auto simp: Export_def run_simps split: option.splits if_splits sum.splits fault.splits)

lemma grows_clone: "run_state (clone s) w = (r, w') \<Longrightarrow> grows w w'"
  by (cases s) (auto simp: clone_def run_simps)

lemma grows_metadata: "get \<in> {TranscriptID, PeerAssociatedData, Session_PeerID} \<Longrightarrow> run_state (get s) w = (r, w') \<Longrightarrow> grows w w'"
  by (auto simp: TranscriptID_def PeerAssociatedData_def Session_PeerID_def grows_clone split: option.splits)

lemma steady_session_close:
  assumes wf: "wf_world w" and s: "valid_session w s" and run: "run_state (Session_Close s) w = (r, w')"
  shows "steady w w'"
proof -
  let ?closed = "\<lambda>p. w\<lparr>arrs := clear_at (ss_isk (sstates w ! p)) (arrs w), sstates := (sstates w)[p := (sstates w ! p)\<lparr>ss_isk := None, ss_closed := True\<rparr>]\<rparr>"
  consider "w' = w" | t p where "s = Some t" "s_state t = Some p" "p < length (sstates w)" "w' = ?closed p"
  proof (cases "case s of None \<Rightarrow> None | Some t \<Rightarrow> s_state t")
    case None
    then show ?thesis using run that(1) by (auto simp: Session_Close_def split: option.splits)
  next
    case (Some p)
    then obtain t where t: "s = Some t" "s_state t = Some p" "p < length (sstates w)"
      using s by (auto simp: valid_session_def split: option.splits)
    have "w' = (if ss_closed (sstates w ! p) then w else ?closed p)"
      using run t by (simp add: Session_Close_def run_simps split: if_splits)
    then show ?thesis using that(1) that(2) [OF t] by (cases "ss_closed (sstates w ! p)") simp_all
  qed
  then show ?thesis
  proof cases
    case 1
    then show ?thesis using steady_refl [OF wf] by simp
  next
    case 2
    let ?k = "ss_isk (sstates w ! p)"
    have kept: "kept (w\<lparr>arrs := clear_all [?k] (arrs w)\<rparr>) w'" by (simp add: 2(4) clear_all_def kept_def)
    have sub: "set [?k] \<subseteq> slices_of w (SS p)" using 2(3) by simp
    note fr = spent_frame [OF wf kept sub]
    have "intact_i w' (icores w ! z)" if "z < length (icores w)" "intact_i w (icores w ! z)" for z
      using intact_i_cong [of "icores w ! z" w' w] fr(2) [of "IC z"] that by auto
    then have gi: "guards_ok (istates w') (icores w') ''uninitialized initiator'' (intact_i w') cleared_i"
      by (simp add: 2(4) guards_ok_mono [OF wf_worldD(3) [OF wf]])
    have "intact_r w' (rcores w ! z)" if "z < length (rcores w)" "intact_r w (rcores w ! z)" for z
      using intact_r_cong [of "rcores w ! z" w' w] fr(2) [of "RC z"] that by auto
    then have gr: "guards_ok (rstates w') (rcores w') ''uninitialized responder'' (intact_r w') cleared_r"
      by (simp add: 2(4) guards_ok_mono [OF wf_worldD(4) [OF wf]])
    have "wf_world w'"
    proof (rule wf_change [OF wf _ _ _ gi gr, where new = None])
      fix x show "slices_of w' x \<subseteq> insert None (slices_of w x) \<union> (if Some x = None then {s. fresh w s \<and> live w' s} else {})"
        using 2(3) by (cases x) (auto simp: 2(4) nth_list_update)
      show "\<forall>st \<in> set (sstates w'). ss_closed st \<longrightarrow> ss_isk st = None"
      proof
        fix st assume "st \<in> set (sstates w')"
        then have "st = (sstates w ! p)\<lparr>ss_isk := None, ss_closed := True\<rparr> \<or> st \<in> set (sstates w)"
          using set_update_subset_insert [of "sstates w" p] by (auto simp: 2(4))
        then show "ss_closed st \<longrightarrow> ss_isk st = None" using wf by (auto simp: wf_world_def)
      qed
    qed (use fr(1) in \<open>auto simp: owned_def\<close>)
    then show ?thesis by (simp add: steady_def guards_advance_def 2(4))
  qed
qed

lemma steady_write:
  assumes "wf_world w" "Some a \<notin> owned w"
  shows "steady w (w\<lparr>arrs := (arrs w)[a := b]\<rparr>)"
proof -
  have "wf_world (w\<lparr>arrs := (arrs w)[a := b]\<rparr>)"
  proof (rule wf_frame [OF assms(1)])
    fix s assume s: "s \<in> owned w"
    then have "live w s" using assms(1) by (simp add: wf_world_def)
    then show "live (w\<lparr>arrs := (arrs w)[a := b]\<rparr>) s \<and> contents (w\<lparr>arrs := (arrs w)[a := b]\<rparr>) s = contents w s"
      using s assms(2) by (cases s) (simp_all, metis nth_list_update_neq)
  qed simp_all
  then show ?thesis by (simp add: steady_def guards_advance_def)
qed

lemma steady_step:
  assumes "api_step F w w'" "field_lengths F" "wf_world w"
  shows "steady w w'"
  using assms(1)
proof cases
  case env_readers
  then show ?thesis using assms(3) by (auto intro!: steady_kept simp: kept_def)
qed (use assms(2,3) in \<open>blast intro: steady_start steady_respond steady_initiator_finish steady_initiator_close steady_responder_finish
      steady_responder_close steady_session_close steady_write steady_grows grows_Export grows_metadata growsI\<close>)+

lemma guards_advance_trans: "guards_advance w w' \<Longrightarrow> guards_advance w' w'' \<Longrightarrow> guards_advance w w''"
  using tables_advance_trans unfolding guards_advance_def by blast

lemma steady_history:
  assumes "(api_step F)\<^sup>*\<^sup>* w w'" "field_lengths F" "wf_world w"
  shows "wf_world w' \<and> guards_advance w w'"
  using assms(1)
proof (induction rule: rtranclp_induct)
  case base
  then show ?case using assms(3) by (simp add: guards_advance_def)
next
  case (step u v)
  then show ?case using steady_step [OF step(2) assms(2)] guards_advance_trans by (auto simp: steady_def)
qed

section \<open>Properties\<close>

text \<open>
  C9: every history of calls, with any results and any interference of the program on arrays it owns,
  leads from a well-formed world to a well-formed world: all pointers of all objects are valid, no
  two objects share an array, an unused initiator or responder has an intact core (a 32-byte
  scalar; a session key with its transcript), a used one a core whose secrets are gone, and a closed
  session no key. No guard ever loses its core or becomes unused again.
\<close>

theorem history_invariant:
  assumes "field_lengths F" "wf_world w" "(api_step F)\<^sup>*\<^sup>* w w'"
  shows "wf_world w' \<and> tables_advance (istates w) (istates w') \<and> tables_advance (rstates w) (rstates w')"
  using steady_history [OF assms(3,1,2)] by (simp add: guards_advance_def)

definition new_world :: world where
  "new_world = \<lparr>arrs = [], readers = [\<lparr>pending = [], failure = EOF\<rparr>], icores = [], rcores = [], istates = [], rstates = [], sstates = []\<rparr>"

lemma wf_new_world: "wf_world new_world"
proof -
  have "slices_of new_world x = {}" for x by (cases x) (simp_all add: new_world_def)
  then show ?thesis by (simp add: wf_world_def owned_def guards_ok_def new_world_def)
qed

theorem history_invariant_witness:
  "wf_world (new_world\<lparr>arrs := [[1, 2, 3]], readers := []\<rparr>)"
proof -
  have "api_step int_field new_world (new_world\<lparr>arrs := arrs new_world @ [[1, 2, 3]]\<rparr>)" by (rule env_alloc)
  moreover have "api_step int_field (new_world\<lparr>arrs := arrs new_world @ [[1, 2, 3]]\<rparr>) (new_world\<lparr>arrs := arrs new_world @ [[1, 2, 3]]\<rparr>\<lparr>readers := []\<rparr>)"
    by (rule env_readers)
  ultimately have "(api_step int_field)\<^sup>*\<^sup>* new_world (new_world\<lparr>arrs := arrs new_world @ [[1, 2, 3]]\<rparr>\<lparr>readers := []\<rparr>)" by simp
  from history_invariant [OF int_fe.field_lengths_axioms wf_new_world this] show ?thesis by (simp add: new_world_def)
qed



end
