(* ===== verification/Concurrency.thy ===== *)
theory Concurrency
  imports Terminal_State
begin

text \<open>
  Concurrent calls of \<open>Finish\<close> and \<open>Close\<close> on copies of one \<open>Initiator\<close> or \<open>Responder\<close>. The copies share one
  \<open>singleUseState\<close>; only the claims (\<open>claimFinish\<close>, \<open>claimClose\<close>) run under its mutex, so a claim is one
  step. What a call does with the claimed core (the body of \<open>Finish\<close>, the deferred or direct
  \<open>clear\<close>) runs outside the mutex, in steps that interleave with those of the other callers. A
  machine records which cores are wiped and whether a body ever ran on a wiped core.
\<close>

datatype call = Call_Finish | Call_Close

datatype pc =
    Called
  | Claimed nat
  | Clearing nat "unit res"
  | Returned "unit res" bool  \<comment> \<open>the result, and whether the call had claimed the core\<close>

record machine =
  m_guard :: singleUseState
  m_wiped :: "nat set"
  m_stale :: bool
  m_threads :: "(call \<times> pc) list"

definition moves :: "machine \<Rightarrow> nat \<Rightarrow> pc \<Rightarrow> (call \<times> pc) list" where
  "moves m t c = (m_threads m)[t := (fst (m_threads m ! t), c)]"

inductive guard_step :: "machine \<Rightarrow> machine \<Rightarrow> bool" where
  finish_claims: "t < length (m_threads m) \<Longrightarrow> m_threads m ! t = (Call_Finish, Called) \<Longrightarrow> claimFinish (m_guard m) = (Inr c, g) \<Longrightarrow>
    guard_step m (m\<lparr>m_guard := g, m_threads := moves m t (Claimed c)\<rparr>)"
| finish_refused: "t < length (m_threads m) \<Longrightarrow> m_threads m ! t = (Call_Finish, Called) \<Longrightarrow> claimFinish (m_guard m) = (Inl f, g) \<Longrightarrow>
    guard_step m (m\<lparr>m_guard := g, m_threads := moves m t (Returned (Inl f) False)\<rparr>)"
| finish_body: "t < length (m_threads m) \<Longrightarrow> m_threads m ! t = (Call_Finish, Claimed c) \<Longrightarrow>
    guard_step m (m\<lparr>m_stale := m_stale m \<or> c \<in> m_wiped m, m_threads := moves m t (Clearing c r)\<rparr>)"
| close_claims: "t < length (m_threads m) \<Longrightarrow> m_threads m ! t = (Call_Close, Called) \<Longrightarrow> claimClose (m_guard m) = (Inr (Some c), g) \<Longrightarrow>
    guard_step m (m\<lparr>m_guard := g, m_threads := moves m t (Clearing c (Inr ()))\<rparr>)"
| close_idle: "t < length (m_threads m) \<Longrightarrow> m_threads m ! t = (Call_Close, Called) \<Longrightarrow> claimClose (m_guard m) = (Inr None, g) \<Longrightarrow>
    guard_step m (m\<lparr>m_guard := g, m_threads := moves m t (Returned (Inr ()) False)\<rparr>)"
| close_refused: "t < length (m_threads m) \<Longrightarrow> m_threads m ! t = (Call_Close, Called) \<Longrightarrow> claimClose (m_guard m) = (Inl f, g) \<Longrightarrow>
    guard_step m (m\<lparr>m_guard := g, m_threads := moves m t (Returned (Inl f) False)\<rparr>)"
| clears: "t < length (m_threads m) \<Longrightarrow> m_threads m ! t = (k, Clearing c r) \<Longrightarrow>
    guard_step m (m\<lparr>m_wiped := insert c (m_wiped m), m_threads := moves m t (Returned r True)\<rparr>)"

inductive_cases guard_stepE: "guard_step m m'"

text \<open>The calls that start together on a new guard.\<close>

definition calls_on :: "nat \<Rightarrow> string \<Rightarrow> call list \<Rightarrow> machine" where
  "calls_on c u ks = \<lparr>m_guard = newSingleUseState (Some c) u, m_wiped = {}, m_stale = False, m_threads = map (\<lambda>k. (k, Called)) ks\<rparr>"

section \<open>The invariant\<close>

text \<open>A call that lost the race: \<open>Finish\<close> reports the used state, \<open>Close\<close> has nothing to do.\<close>

fun lost :: "call \<Rightarrow> pc" where
  "lost Call_Finish = Returned (Inl (Error (Sentinel ErrStateUsed))) False"
| "lost Call_Close = Returned (Inr ()) False"

fun idle :: "call \<times> pc \<Rightarrow> bool" where
  "idle (k, pc) \<longleftrightarrow> pc = Called \<or> pc = lost k"

text \<open>The call that claimed core \<open>c\<close>, and whether it has not cleared it yet.\<close>

fun winning :: "nat \<Rightarrow> call \<times> pc \<Rightarrow> bool" where
  "winning c (k, Called) \<longleftrightarrow> False"
| "winning c (k, Claimed c') \<longleftrightarrow> c' = c \<and> k = Call_Finish"
| "winning c (k, Clearing c' r) \<longleftrightarrow> c' = c \<and> (k = Call_Close \<longrightarrow> r = Inr ())"
| "winning c (k, Returned r w) \<longleftrightarrow> w \<and> (k = Call_Close \<longrightarrow> r = Inr ())"

fun holding :: "call \<times> pc \<Rightarrow> bool" where
  "holding (k, Claimed c) \<longleftrightarrow> True"
| "holding (k, Clearing c r) \<longleftrightarrow> True"
| "holding (k, pc) \<longleftrightarrow> False"

definition sole_winner :: "nat \<Rightarrow> machine \<Rightarrow> nat \<Rightarrow> bool" where
  "sole_winner c m t \<longleftrightarrow> t < length (m_threads m) \<and> winning c (m_threads m ! t) \<and>
     (\<forall>t' < length (m_threads m). t' \<noteq> t \<longrightarrow> idle (m_threads m ! t')) \<and>
     m_wiped m = (if holding (m_threads m ! t) then {} else {c})"

definition guard_inv :: "nat \<Rightarrow> machine \<Rightarrow> bool" where
  "guard_inv c m \<longleftrightarrow> su_core (m_guard m) = Some c \<and> \<not> m_stale m \<and>
     (if su_used (m_guard m) then \<exists>t. sole_winner c m t
      else m_wiped m = {} \<and> (\<forall>t < length (m_threads m). snd (m_threads m ! t) = Called))"

lemma guard_inv_start: "guard_inv c (calls_on c u ks)"
  by (simp add: guard_inv_def calls_on_def newSingleUseState_def)

lemma idle_not_winning: "idle x \<Longrightarrow> \<not> winning c x \<and> \<not> holding x"
proof (cases x)
  case (Pair k pc)
  then show "idle x \<Longrightarrow> \<not> winning c x \<and> \<not> holding x" by (cases k) auto
qed

text \<open>The two kinds of step: of the caller that holds the core, and of a caller that finds the guard used.\<close>

lemma sole_winner_moves:
  assumes "sole_winner c m t" "winning c (fst (m_threads m ! t), p)"
    and "m_wiped m' = (if holding (fst (m_threads m ! t), p) then {} else {c})" "m_threads m' = moves m t p"
  shows "sole_winner c m' t"
  using assms by (simp add: sole_winner_def moves_def)

lemma sole_winner_loser:
  assumes "sole_winner c m t0" "t \<noteq> t0" "t < length (m_threads m)" "p = lost (fst (m_threads m ! t))"
    and "m_wiped m' = m_wiped m" "m_threads m' = moves m t p"
  shows "sole_winner c m' t0"
  using assms by (auto simp: sole_winner_def moves_def nth_list_update)

lemma sole_winner_first:
  assumes "\<forall>t' < length (m_threads m). snd (m_threads m ! t') = Called" "t < length (m_threads m)"
    and "winning c (fst (m_threads m ! t), p)" "holding (fst (m_threads m ! t), p)" "m_wiped m' = {}" "m_threads m' = moves m t p"
  shows "sole_winner c m' t"
proof -
  have "idle (m_threads m ! t')" if "t' < length (m_threads m)" for t'
    using assms(1) that by (cases "m_threads m ! t'") auto
  then show ?thesis using assms by (auto simp: sole_winner_def moves_def nth_list_update)
qed

lemma claims_unused:
  "su_core g = Some c \<Longrightarrow> \<not> su_used g \<Longrightarrow> claimFinish g = (Inr c, g\<lparr>su_used := True\<rparr>) \<and> claimClose g = (Inr (Some c), g\<lparr>su_used := True\<rparr>)"
  by (simp add: claimFinish_def claimClose_def)

lemmas claims_used = claimFinish_used claimClose_used

lemma guard_inv_step:
  assumes "guard_step m m'" "guard_inv c m"
  shows "guard_inv c m'"
proof (cases "su_used (m_guard m)")
  case False
  have un: "su_core (m_guard m) = Some c" "m_wiped m = {}" "\<not> m_stale m" "\<forall>t < length (m_threads m). snd (m_threads m ! t) = Called"
    using assms(2) False by (simp_all add: guard_inv_def)
  note cl = claims_unused [OF un(1) False]
  from assms(1) show ?thesis
  proof cases
    case (finish_claims t d g)
    then show ?thesis using un cl sole_winner_first [OF un(4), of t c "Claimed c" m'] by (auto simp: guard_inv_def)
  next
    case (close_claims t d g)
    then show ?thesis using un cl sole_winner_first [OF un(4), of t c "Clearing c (Inr ())" m'] by (auto simp: guard_inv_def)
  next
    case (finish_body t d r)
    then show ?thesis using un(4) by force
  next
    case (clears t k d r)
    then show ?thesis using un(4) by force
  qed (use cl in auto)
next
  case True
  then obtain t0 where un: "su_core (m_guard m) = Some c" "\<not> m_stale m" and w: "sole_winner c m t0"
    using assms(2) by (auto simp: guard_inv_def)
  note cl = claims_used [OF True]
  have t0: "winning c (m_threads m ! t0)" "m_wiped m = (if holding (m_threads m ! t0) then {} else {c})" using w by (simp_all add: sole_winner_def)
  have other: "t = t0 \<or> idle (m_threads m ! t)" if "t < length (m_threads m)" for t using w that by (auto simp: sole_winner_def)
  from assms(1) show ?thesis
  proof cases
    case (finish_refused t f g)
    then have "t \<noteq> t0" using t0(1) by auto
    then show ?thesis
      using finish_refused un True cl sole_winner_loser [OF w, of t "Returned (Inl f) False" m'] by (auto simp: guard_inv_def)
  next
    case (close_idle t g)
    then have "t \<noteq> t0" using t0(1) by auto
    then show ?thesis
      using close_idle un True cl sole_winner_loser [OF w, of t "Returned (Inr ()) False" m'] by (auto simp: guard_inv_def)
  next
    case (finish_body t d r)
    then have "t = t0" using other [of t] by auto
    then show ?thesis
      using finish_body un True t0 sole_winner_moves [OF w, of "Clearing d r" m'] by (auto simp: guard_inv_def)
  next
    case (clears t k d r)
    then have "t = t0" using other [of t] by (cases k) auto
    then show ?thesis
      using clears un True t0 sole_winner_moves [OF w, of "Returned r True" m'] by (auto simp: guard_inv_def)
  qed (use cl in auto)
qed

lemma guard_inv_reachable: "guard_step\<^sup>*\<^sup>* (calls_on c u ks) m \<Longrightarrow> guard_inv c m"
  by (induction rule: rtranclp_induct) (auto intro: guard_inv_start guard_inv_step)

lemma calls_step: "guard_step m m' \<Longrightarrow> map fst (m_threads m') = map fst (m_threads m)"
  by (induction rule: guard_step.induct) (simp_all add: moves_def map_update list_update_same_conv)

lemma calls_preserved: "guard_step\<^sup>*\<^sup>* (calls_on c u ks) m \<Longrightarrow> map fst (m_threads m) = ks \<and> length (m_threads m) = length ks"
proof (induction rule: rtranclp_induct)
  case base
  then show ?case by (simp add: calls_on_def comp_def)
next
  case (step m m')
  then show ?case using calls_step [OF step(2)] by (metis length_map)
qed

section \<open>Progress\<close>

fun remaining :: "call \<times> pc \<Rightarrow> nat" where
  "remaining (k, Called) = 3"
| "remaining (k, Claimed c) = 2"
| "remaining (k, Clearing c r) = 1"
| "remaining (k, Returned r w) = 0"

definition work_left :: "machine \<Rightarrow> nat" where
  "work_left m = sum_list (map remaining (m_threads m))"

lemma work_left_moves:
  assumes "m_threads m' = moves m t p" "t < length (m_threads m)" "remaining (fst (m_threads m ! t), p) < remaining (m_threads m ! t)"
  shows "work_left m' < work_left m"
proof -
  have "map remaining (moves m t p) = (map remaining (m_threads m))[t := remaining (fst (m_threads m ! t), p)]"
    by (simp add: moves_def map_update)
  moreover have "remaining (m_threads m ! t) \<le> sum_list (map remaining (m_threads m))"
    using assms(2) by (intro member_le_sum_list) auto
  ultimately show ?thesis using assms by (simp add: work_left_def sum_list_update)
qed

lemma guard_step_work: "guard_step m m' \<Longrightarrow> work_left m' < work_left m"
  by (induction rule: guard_step.induct) (rule work_left_moves, simp, assumption, simp)+

lemma guard_steps_work: "(guard_step ^^ n) m m' \<Longrightarrow> work_left m' + n \<le> work_left m"
proof (induction n arbitrary: m')
  case (Suc n)
  then obtain m1 where m1: "(guard_step ^^ n) m m1" "guard_step m1 m'" by auto
  from Suc.IH [OF m1(1)] guard_step_work [OF m1(2)] show ?case by simp
qed simp

lemma work_left_start: "work_left (calls_on c u ks) = 3 * length ks"
  by (induction ks) (simp_all add: work_left_def calls_on_def)

lemma guard_progress:
  assumes "t < length (m_threads m)" "remaining (m_threads m ! t) \<noteq> 0"
    and "winning c (m_threads m ! t) \<or> idle (m_threads m ! t)"
  shows "\<exists>m'. guard_step m m'"
proof (cases "m_threads m ! t")
  case (Pair k p)
  show ?thesis
  proof (cases p)
    case Called
    then show ?thesis
    proof (cases k)
      case Call_Finish
      obtain r g where "claimFinish (m_guard m) = (r, g)" by fastforce
      with assms(1) Pair Called Call_Finish show ?thesis by (cases r) (blast intro: guard_step.intros)+
    next
      case Call_Close
      obtain r g where r: "claimClose (m_guard m) = (r, g)" by fastforce
      show ?thesis
      proof (cases r)
        case (Inl f)
        with r assms(1) Pair Called Call_Close show ?thesis by (blast intro: guard_step.intros)
      next
        case (Inr x)
        with r assms(1) Pair Called Call_Close show ?thesis by (cases x) (blast intro: guard_step.intros)+
      qed
    qed
  next
    case (Claimed d)
    moreover have "k = Call_Finish" using assms(3) Pair Claimed by (cases k) auto
    ultimately show ?thesis using assms(1) Pair by (blast intro: finish_body)
  next
    case (Clearing d r)
    with assms(1) Pair show ?thesis by (blast intro: clears)
  qed (use assms(2) Pair in simp)
qed

lemma guard_inv_threads:
  assumes "guard_inv c m" "t < length (m_threads m)"
  shows "winning c (m_threads m ! t) \<or> idle (m_threads m ! t)"
  using assms by (cases "m_threads m ! t") (force simp: guard_inv_def sole_winner_def split: if_splits)

section \<open>Properties\<close>

text \<open>
  C7: however calls of \<open>Finish\<close> and \<open>Close\<close> on copies of one state interleave, at every moment at most one
  of them holds the core, the body of \<open>Finish\<close> never runs on a core whose secrets are already wiped, and
  the guard keeps its core pointer.
\<close>

theorem guard_exclusive:
  assumes "guard_step\<^sup>*\<^sup>* (calls_on c u ks) m" "t < length (m_threads m)" "t' < length (m_threads m)"
    and "holding (m_threads m ! t)" "holding (m_threads m ! t')"
  shows "t = t' \<and> m_wiped m = {} \<and> \<not> m_stale m \<and> su_used (m_guard m) \<and> su_core (m_guard m) = Some c"
proof -
  have inv: "guard_inv c m" by (rule guard_inv_reachable [OF assms(1)])
  have used: "su_used (m_guard m)"
  proof (rule ccontr)
    assume "\<not> su_used (m_guard m)"
    with inv assms(2) have "snd (m_threads m ! t) = Called" by (simp add: guard_inv_def)
    with assms(4) show False by (cases "m_threads m ! t") simp
  qed
  with inv obtain t0 where w: "sole_winner c m t0" by (auto simp: guard_inv_def)
  have "x = t0" if "x < length (m_threads m)" "holding (m_threads m ! x)" for x
    using w that idle_not_winning [of "m_threads m ! x" c] by (auto simp: sole_winner_def)
  then have "t = t0" "t' = t0" using assms(2-5) by blast+
  with w used inv assms(4) show ?thesis by (simp add: sole_winner_def guard_inv_def)
qed

theorem guard_exclusive_witness:
  "\<exists>m. guard_step\<^sup>*\<^sup>* (calls_on 5 ''uninitialized initiator'' [Call_Finish, Call_Close]) m \<and>
     m_threads m = [(Call_Finish, Claimed 5), (Call_Close, Called)] \<and> m_wiped m = {} \<and> su_used (m_guard m)"
proof -
  let ?m = "calls_on 5 ''uninitialized initiator'' [Call_Finish, Call_Close]"
  let ?g = "(m_guard ?m)\<lparr>su_used := True\<rparr>"
  let ?m' = "?m\<lparr>m_guard := ?g, m_threads := moves ?m 0 (Claimed 5)\<rparr>"
  have "guard_step ?m ?m'"
    by (rule finish_claims) (simp_all add: calls_on_def claimFinish_def newSingleUseState_def)
  then have r: "guard_step\<^sup>*\<^sup>* ?m ?m'" by simp
  have t: "m_threads ?m' = [(Call_Finish, Claimed 5), (Call_Close, Called)]" by (simp add: calls_on_def moves_def)
  show ?thesis
    using guard_exclusive [OF r, of 0 0] r t by (intro exI [of _ ?m']) simp
qed



end
