(* ===== verification/Go_Strings.thy ===== *)
theory Go_Strings
  imports "HOL-Library.Char_ord" "HOL-Library.List_Lexorder" "HOL-Library.Product_Lexorder"
begin

text \<open>
  What the repository's tools use of Go's string functions. A Go string is a sequence of bytes, here a
  list of characters with codes 0 to 255; its order is the lexicographic one.
\<close>

section \<open>Prefixes, suffixes, splitting\<close>

definition HasPrefix :: "string \<Rightarrow> string \<Rightarrow> bool" where
  "HasPrefix s p \<longleftrightarrow> take (length p) s = p"

definition HasSuffix :: "string \<Rightarrow> string \<Rightarrow> bool" where
  "HasSuffix s p \<longleftrightarrow> length p \<le> length s \<and> drop (length s - length p) s = p"

definition TrimPrefix :: "string \<Rightarrow> string \<Rightarrow> string" where
  "TrimPrefix s p = (if HasPrefix s p then drop (length p) s else s)"

definition TrimSuffix :: "string \<Rightarrow> string \<Rightarrow> string" where
  "TrimSuffix s p = (if HasSuffix s p then take (length s - length p) s else s)"

text \<open>\<^verbatim>\<open>strings.Split\<close> with a one-byte separator, and \<^verbatim>\<open>strings.Join\<close>.\<close>

fun split_on :: "char \<Rightarrow> string \<Rightarrow> string list" where
  "split_on c [] = [[]]"
| "split_on c (x # xs) = (if x = c then [] # split_on c xs
     else case split_on c xs of [] \<Rightarrow> [[x]] | p # ps \<Rightarrow> (x # p) # ps)"

fun join_with :: "string \<Rightarrow> string list \<Rightarrow> string" where
  "join_with sep [] = []"
| "join_with sep [p] = p"
| "join_with sep (p # ps) = p @ sep @ join_with sep ps"

text \<open>\<^verbatim>\<open>strings.TrimLeft\<close> and \<^verbatim>\<open>strings.Trim\<close> with a cutset of one byte; \<^verbatim>\<open>strings.ContainsAny\<close>.\<close>

definition TrimLeft :: "string \<Rightarrow> char \<Rightarrow> string" where
  "TrimLeft s c = dropWhile (\<lambda>x. x = c) s"

definition TrimBoth :: "string \<Rightarrow> char \<Rightarrow> string" where
  "TrimBoth s c = rev (dropWhile (\<lambda>x. x = c) (rev (dropWhile (\<lambda>x. x = c) s)))"

definition ContainsAny :: "string \<Rightarrow> char list \<Rightarrow> bool" where
  "ContainsAny s cs \<longleftrightarrow> list_ex (\<lambda>x. x \<in> set cs) s"

section \<open>Trimming white space\<close>

text \<open>
  The encodings of the characters \<^verbatim>\<open>unicode.IsSpace\<close> accepts: six of ASCII, U+0085 and U+00A0, and the
  space separators above Latin-1.
\<close>

definition spaces :: "string list" where
  "spaces =
    [[CHR 0x09], [CHR 0x0A], [CHR 0x0B], [CHR 0x0C],
     [CHR 0x0D], [CHR 0x20], [CHR 0xC2, CHR 0x85], [CHR 0xC2, CHR 0xA0],
     [CHR 0xE1, CHR 0x9A, CHR 0x80], [CHR 0xE2, CHR 0x80, CHR 0x80], [CHR 0xE2, CHR 0x80, CHR 0x81], [CHR 0xE2, CHR 0x80, CHR 0x82],
     [CHR 0xE2, CHR 0x80, CHR 0x83], [CHR 0xE2, CHR 0x80, CHR 0x84], [CHR 0xE2, CHR 0x80, CHR 0x85], [CHR 0xE2, CHR 0x80, CHR 0x86],
     [CHR 0xE2, CHR 0x80, CHR 0x87], [CHR 0xE2, CHR 0x80, CHR 0x88], [CHR 0xE2, CHR 0x80, CHR 0x89], [CHR 0xE2, CHR 0x80, CHR 0x8A],
     [CHR 0xE2, CHR 0x80, CHR 0xA8], [CHR 0xE2, CHR 0x80, CHR 0xA9], [CHR 0xE2, CHR 0x80, CHR 0xAF], [CHR 0xE2, CHR 0x81, CHR 0x9F],
     [CHR 0xE3, CHR 0x80, CHR 0x80]]"

function trim_start :: "string list \<Rightarrow> string \<Rightarrow> string" where
  "trim_start es s =
     (case find (\<lambda>e. e \<noteq> [] \<and> HasPrefix s e) es of
        None \<Rightarrow> s
      | Some e \<Rightarrow> trim_start es (drop (length e) s))"
  by pat_completeness auto
termination
proof (relation "measure (\<lambda>(es, s). length s)", goal_cases)
  case (2 es s e)
  then have "e \<noteq> []" "HasPrefix s e" by (auto simp: find_Some_iff)
  then have "s \<noteq> []" "length e > 0" by (auto simp: HasPrefix_def)
  then show ?case by simp
qed simp

declare trim_start.simps [simp del]

definition TrimSpace :: "string \<Rightarrow> string" where
  "TrimSpace s = rev (trim_start (map rev spaces) (rev (trim_start spaces s)))"

section \<open>Numbers\<close>

text \<open>The verb \<^verbatim>\<open>%d\<close> for a line number.\<close>

fun decimal :: "nat \<Rightarrow> string" where
  "decimal n = (if n < 10 then [char_of (48 + n)] else decimal (n div 10) @ [char_of (48 + n mod 10)])"

declare decimal.simps [simp del]

section \<open>Scanning lines\<close>

text \<open>
  \<^verbatim>\<open>bufio.Scanner\<close> with its default buffer: lines without their end, a final carriage return dropped, a
  last line only when it is not empty; a line of 65536 bytes or more stops the scan with
  \<^verbatim>\<open>bufio.ErrTooLong\<close>. The result is the lines scanned and whether the scan stopped so.
\<close>

definition maxScanTokenSize :: nat where "maxScanTokenSize = 64 * 1024"

definition dropCR :: "string \<Rightarrow> string" where
  "dropCR l = (if l \<noteq> [] \<and> last l = CHR 0x0D then butlast l else l)"

fun scan_segments :: "string list \<Rightarrow> string list \<times> bool" where
  "scan_segments [] = ([], False)"
| "scan_segments [l] = (if l = [] then ([], False) else if length l \<ge> maxScanTokenSize then ([], True) else ([dropCR l], False))"
| "scan_segments (l # ls) = (if length l \<ge> maxScanTokenSize then ([], True)
     else let (xs, e) = scan_segments ls in (dropCR l # xs, e))"

definition scan_lines :: "string \<Rightarrow> string list \<times> bool" where
  "scan_lines content = scan_segments (split_on CHR 0x0A content)"

section \<open>Lemmas\<close>

lemma HasPrefix_append [simp]: "HasPrefix (p @ s) p"
  by (simp add: HasPrefix_def)

lemma HasPrefix_iff: "HasPrefix s p \<longleftrightarrow> (\<exists>t. s = p @ t)"
  by (auto simp: HasPrefix_def) (metis append_take_drop_id)

lemma HasSuffix_iff: "HasSuffix s p \<longleftrightarrow> (\<exists>t. s = t @ p)"
  by (auto simp: HasSuffix_def) (metis append_take_drop_id)

lemma split_on_nonempty [simp]: "split_on c s \<noteq> []"
  by (cases s) (auto split: list.split)

lemma join_split: "join_with [c] (split_on c s) = s"
proof (induction s)
  case (Cons x xs)
  then show ?case by (cases "split_on c xs"; cases "tl (split_on c xs)") auto
qed simp

lemma split_on_free: "p \<in> set (split_on c s) \<Longrightarrow> c \<notin> set p"
proof (induction s arbitrary: p)
  case (Cons x xs)
  then show ?case by (cases "split_on c xs") (auto split: if_splits)
qed simp

lemma split_on_append: "c \<notin> set p \<Longrightarrow> split_on c (p @ c # s) = p # split_on c s"
  by (induction p) auto

lemma split_on_id: "c \<notin> set p \<Longrightarrow> split_on c p = [p]"
  by (induction p) auto

lemma split_join: "ps \<noteq> [] \<Longrightarrow> \<forall>p \<in> set ps. c \<notin> set p \<Longrightarrow> split_on c (join_with [c] ps) = ps"
proof (induction ps)
  case (Cons p ps)
  then show ?case by (cases ps) (simp_all add: split_on_id split_on_append)
qed simp

lemma split_on_set: "p \<in> set (split_on c s) \<Longrightarrow> set p \<subseteq> set s"
proof (induction s arbitrary: p)
  case (Cons x xs)
  then show ?case by (cases "split_on c xs") (fastforce split: if_splits)+
qed simp

lemma split_on_length: "p \<in> set (split_on c s) \<Longrightarrow> length p \<le> length s"
proof (induction s arbitrary: p)
  case (Cons x xs)
  then show ?case by (cases "split_on c xs") (fastforce split: if_splits)+
qed simp

lemma split_on_snoc: "c \<notin> set p \<Longrightarrow> split_on c (s @ c # p) = split_on c s @ [p]"
proof (induction s)
  case (Cons x s)
  then show ?case by (cases "split_on c s") auto
qed (simp add: split_on_id)

lemma join_with_snoc: "ps \<noteq> [] \<Longrightarrow> join_with sep (ps @ [p]) = join_with sep ps @ sep @ p"
proof (induction ps)
  case (Cons q ps)
  then show ?case by (cases ps) simp_all
qed simp

text \<open>A string another one is cut from: its bytes are among the other's and it is no longer.\<close>

definition cut_of :: "string \<Rightarrow> string \<Rightarrow> bool" where
  "cut_of t s \<longleftrightarrow> set t \<subseteq> set s \<and> length t \<le> length s"

lemma cut_of_refl [simp]: "cut_of s s"
  by (simp add: cut_of_def)

lemma cut_of_trans: "cut_of a b \<Longrightarrow> cut_of b c \<Longrightarrow> cut_of a c"
  by (auto simp: cut_of_def)

lemma cut_of_drop [simp]: "cut_of (drop n s) s"
  by (auto simp: cut_of_def dest: in_set_dropD)

lemma cut_of_take [simp]: "cut_of (take n s) s"
  by (auto simp: cut_of_def dest: in_set_takeD)

lemma cut_of_rev [simp]: "cut_of (rev t) s \<longleftrightarrow> cut_of t s" "cut_of t (rev s) \<longleftrightarrow> cut_of t s"
  by (simp_all add: cut_of_def)

lemma cut_of_split: "p \<in> set (split_on c s) \<Longrightarrow> cut_of p s"
  by (simp add: cut_of_def split_on_set split_on_length)

lemma cut_of_TrimPrefix [simp]: "cut_of (TrimPrefix s p) s"
  by (simp add: TrimPrefix_def)

lemma cut_of_TrimSuffix [simp]: "cut_of (TrimSuffix s p) s"
  by (simp add: TrimSuffix_def)

lemma cut_of_trim_start: "cut_of (trim_start es s) s"
proof (induction es s rule: trim_start.induct)
  case (1 es s)
  show ?case
  proof (cases "find (\<lambda>e. e \<noteq> [] \<and> HasPrefix s e) es")
    case (Some e)
    then show ?thesis
      using cut_of_trans [OF "1" [OF Some] cut_of_drop] by (subst trim_start.simps) simp
  qed (simp add: trim_start.simps [of es s])
qed

lemma cut_of_TrimSpace: "cut_of (TrimSpace s) s"
  using cut_of_trans [OF cut_of_trim_start [of "map rev spaces" "rev (trim_start spaces s)"]]
  by (simp add: TrimSpace_def cut_of_trim_start)

subsection \<open>Trimmed strings\<close>

definition no_start :: "string list \<Rightarrow> string \<Rightarrow> bool" where
  "no_start es s \<longleftrightarrow> (\<forall>e \<in> set es. e \<noteq> [] \<longrightarrow> \<not> HasPrefix s e)"

lemma no_start_trim_start: "no_start es (trim_start es s)"
proof (induction es s rule: trim_start.induct)
  case (1 es s)
  show ?case
  proof (cases "find (\<lambda>e. e \<noteq> [] \<and> HasPrefix s e) es")
    case None
    then have "trim_start es s = s" by (subst trim_start.simps) simp
    with None show ?thesis by (auto simp: no_start_def find_None_iff)
  next
    case (Some e)
    then show ?thesis using "1" [OF Some] by (simp add: trim_start.simps [of es s])
  qed
qed

lemma trim_start_id: "no_start es s \<Longrightarrow> trim_start es s = s"
  by (subst trim_start.simps) (auto simp: no_start_def find_None_iff split: option.split dest: find_Some_iff [THEN iffD1])

lemma no_start_append: "no_start es (s @ t) \<Longrightarrow> no_start es s"
  by (auto simp: no_start_def HasPrefix_iff)

lemma no_start_Cons: "c \<notin> hd ` set es \<Longrightarrow> no_start es (c # t)"
  by (auto simp: no_start_def HasPrefix_iff Cons_eq_append_conv image_iff)

lemma no_end_TrimSpace: "no_start (map rev spaces) (rev (TrimSpace s))"
  by (simp add: TrimSpace_def no_start_trim_start)

lemma TrimSpace_id: "no_start spaces s \<Longrightarrow> no_start (map rev spaces) (rev s) \<Longrightarrow> TrimSpace s = s"
  by (simp add: TrimSpace_def trim_start_id)

text \<open>A suffix of a trimmed string is trimmed when it starts with a byte that begins no space.\<close>

lemma TrimSpace_suffix:
  assumes "TrimSpace m = u @ c # t" "c \<notin> hd ` set spaces"
  shows "TrimSpace (c # t) = c # t"
proof (rule TrimSpace_id)
  show "no_start spaces (c # t)"
    using assms(2) by (rule no_start_Cons)
  show "no_start (map rev spaces) (rev (c # t))"
    using no_end_TrimSpace [of m] no_start_append [of _ "rev (c # t)" "rev u"] by (simp add: assms(1))
qed

lemma dropCR_trimmed: "TrimSpace s = s \<Longrightarrow> dropCR s = s"
proof (rule ccontr)
  assume s: "TrimSpace s = s" "dropCR s \<noteq> s"
  then have "HasPrefix (rev s) [CHR 0x0D]"
    by (cases s rule: rev_cases) (auto simp: dropCR_def HasPrefix_iff split: if_splits)
  moreover have "[CHR 0x0D] \<in> set (map rev spaces)"
    by code_simp
  ultimately show False
    using no_end_TrimSpace [of s] s(1) by (auto simp: no_start_def)
qed

subsection \<open>Scanned lines\<close>

lemma cut_of_dropCR: "cut_of (dropCR l) l"
  by (auto simp: cut_of_def dropCR_def dest: in_set_butlastD)

lemma scan_segments_lines:
  "l \<in> set (fst (scan_segments segs)) \<Longrightarrow> \<exists>s \<in> set segs. l = dropCR s \<and> length s < maxScanTokenSize"
proof (induction segs rule: scan_segments.induct)
  case (3 s v va)
  then show ?case by (fastforce simp: Let_def split: if_splits prod.splits)
qed (auto split: if_splits)

lemma scan_lines_line:
  assumes "l \<in> set (fst (scan_lines content))"
  shows "CHR 0x0A \<notin> set l \<and> length l < maxScanTokenSize"
proof -
  obtain s where s: "s \<in> set (split_on CHR 0x0A content)" "l = dropCR s" "length s < maxScanTokenSize"
    using assms scan_segments_lines unfolding scan_lines_def by blast
  then show ?thesis
    using cut_of_dropCR [of s] split_on_free [OF s(1)] by (auto simp: cut_of_def)
qed

definition line_ok :: "string \<Rightarrow> bool" where
  "line_ok l \<longleftrightarrow> CHR 0x0A \<notin> set l \<and> length l < maxScanTokenSize \<and> dropCR l = l"

lemma scan_written_lines:
  assumes "\<forall>l \<in> set ls. line_ok l"
  shows "scan_lines (concat (map (\<lambda>l. l @ [CHR 0x0A]) ls)) = (ls, False)"
proof -
  have "split_on CHR 0x0A (concat (map (\<lambda>l. l @ [CHR 0x0A]) ls)) = ls @ [[]]"
    using assms by (induction ls) (simp_all add: line_ok_def split_on_append)
  moreover have "scan_segments (ls @ [[]]) = (ls, False)"
    using assms
  proof (induction ls)
    case (Cons l ls)
    then show ?case by (cases ls) (simp_all add: line_ok_def)
  qed simp
  ultimately show ?thesis by (simp add: scan_lines_def)
qed

end
