(* ===== verification/Go_Files.thy ===== *)
theory Go_Files
  imports Go_Strings
begin

text \<open>
  What the repository's tools use of the file system through Go's \<^verbatim>\<open>os\<close> and \<^verbatim>\<open>path/filepath\<close>: a tree of
  files as the tools see it while nothing else changes it, the system calls on it with their errors, joined
  paths, and the directory walk.
\<close>

section \<open>Errors\<close>

datatype errno = ENOENT | ENOTDIR | EISDIR | Errno string

datatype gerror = PathError string string errno | ErrTooLong | ErrorString string

fun errno_text :: "errno \<Rightarrow> string" where
  "errno_text ENOENT = ''no such file or directory''"
| "errno_text ENOTDIR = ''not a directory''"
| "errno_text EISDIR = ''is a directory''"
| "errno_text (Errno s) = s"

fun error_text :: "gerror \<Rightarrow> string" where
  "error_text (PathError oper path e) = oper @ '' '' @ path @ '': '' @ errno_text e"
| "error_text ErrTooLong = ''bufio.Scanner: token too long''"
| "error_text (ErrorString s) = s"

text \<open>\<^verbatim>\<open>errors.Is(err, fs.ErrNotExist)\<close>\<close>

fun is_not_exist :: "gerror \<Rightarrow> bool" where
  "is_not_exist (PathError oper path e) \<longleftrightarrow> e = ENOENT"
| "is_not_exist _ \<longleftrightarrow> False"

section \<open>Paths\<close>

text \<open>\<^verbatim>\<open>filepath.Clean\<close> and \<^verbatim>\<open>filepath.Join\<close> on a system whose separator is the slash.\<close>

definition clean_step :: "bool \<Rightarrow> string list \<Rightarrow> string \<Rightarrow> string list" where
  "clean_step rooted stack p =
     (if p = [] \<or> p = ''.'' then stack
      else if p = ''..'' then
        (case stack of
           [] \<Rightarrow> if rooted then [] else [p]
         | q # qs \<Rightarrow> if q = ''..'' then p # stack else qs)
      else p # stack)"

definition filepath_Clean :: "string \<Rightarrow> string" where
  "filepath_Clean path =
     (let rooted = HasPrefix path ''/'';
          out = (if rooted then ''/'' else []) @
                join_with ''/'' (rev (foldl (clean_step rooted) [] (split_on CHR ''/'' path)))
      in if out = [] then ''.'' else out)"

definition filepath_Join :: "string list \<Rightarrow> string" where
  "filepath_Join elems =
     (case dropWhile (\<lambda>e. e = []) elems of [] \<Rightarrow> [] | es \<Rightarrow> filepath_Clean (join_with ''/'' es))"

text \<open>
  A path of the program: the string it uses, and the place it leads to as the list of names below the
  repository root. Every name the tools join is a single path element.
\<close>

type_synonym ospath = "string \<times> string list"

definition sub :: "ospath \<Rightarrow> string \<Rightarrow> ospath" where
  "sub p name = (filepath_Join [fst p, name], snd p @ [name])"

section \<open>Files\<close>

text \<open>
  A file holds its bytes or the call on which reading it fails. A link carries what it resolves to, and
  a directory its entries in the order of \<^verbatim>\<open>os.ReadDir\<close>, each with the error \<^verbatim>\<open>os.Lstat\<close> reports for it if it
  does; a directory that cannot be listed in full carries the error and the entries listed before it.
\<close>

type_synonym failure = "string \<times> errno"

datatype kind = Regular | Symlink | Folder | Special

datatype node =
    File "failure + string"
  | Device "failure + string"
  | Link "errno + node"
  | Dir "failure option" "(string \<times> errno option \<times> node) list"

fun kind_of :: "node \<Rightarrow> kind" where
  "kind_of (File c) = Regular"
| "kind_of (Device c) = Special"
| "kind_of (Link t) = Symlink"
| "kind_of (Dir r es) = Folder"

fun resolve :: "node \<Rightarrow> errno + node" where
  "resolve (Link (Inl e)) = Inl e"
| "resolve (Link (Inr n)) = resolve n"
| "resolve n = Inr n"

fun find_node :: "node \<Rightarrow> string list \<Rightarrow> errno + node" where
  "find_node n [] = Inr n"
| "find_node n (p # ps) =
     (case resolve n of
        Inl e \<Rightarrow> Inl e
      | Inr (Dir r es) \<Rightarrow>
          (case map_of es p of
             None \<Rightarrow> Inl ENOENT
           | Some (Some e, _) \<Rightarrow> Inl e
           | Some (None, n') \<Rightarrow> find_node n' ps)
      | Inr _ \<Rightarrow> Inl ENOTDIR)"

definition os_Lstat :: "node \<Rightarrow> ospath \<Rightarrow> gerror + kind" where
  "os_Lstat root p =
     (case find_node root (snd p) of
        Inl e \<Rightarrow> Inl (PathError ''lstat'' (fst p) e)
      | Inr n \<Rightarrow> Inr (kind_of n))"

definition read_node :: "string \<Rightarrow> node \<Rightarrow> gerror + string" where
  "read_node path n =
     (case resolve n of
        Inl e \<Rightarrow> Inl (PathError ''open'' path e)
      | Inr (File (Inr c)) \<Rightarrow> Inr c
      | Inr (File (Inl (oper, e))) \<Rightarrow> Inl (PathError oper path e)
      | Inr (Device (Inr c)) \<Rightarrow> Inr c
      | Inr (Device (Inl (oper, e))) \<Rightarrow> Inl (PathError oper path e)
      | Inr (Dir (Some (oper, e)) es) \<Rightarrow>
          (if oper = ''open'' then Inl (PathError oper path e) else Inl (PathError ''read'' path EISDIR))
      | Inr _ \<Rightarrow> Inl (PathError ''read'' path EISDIR))"

text \<open>\<^verbatim>\<open>os.ReadFile\<close>, and opening a file and reading it to its end\<close>

definition os_ReadFile :: "node \<Rightarrow> ospath \<Rightarrow> gerror + string" where
  "os_ReadFile root p =
     (case find_node root (snd p) of
        Inl e \<Rightarrow> Inl (PathError ''open'' (fst p) e)
      | Inr n \<Rightarrow> read_node (fst p) n)"

definition os_ReadDir :: "node \<Rightarrow> ospath \<Rightarrow> gerror + (string \<times> kind) list" where
  "os_ReadDir root p =
     (case find_node root (snd p) of
        Inl e \<Rightarrow> Inl (PathError ''open'' (fst p) e)
      | Inr n \<Rightarrow>
          (case resolve n of
             Inl e \<Rightarrow> Inl (PathError ''open'' (fst p) e)
           | Inr (Dir None es) \<Rightarrow> Inr (map (\<lambda>(name, _, n'). (name, kind_of n')) es)
           | Inr (Dir (Some (oper, e)) es) \<Rightarrow> Inl (PathError oper (fst p) e)
           | Inr _ \<Rightarrow> Inl (PathError ''readdirent'' (fst p) ENOTDIR)))"

section \<open>Walking a directory\<close>

text \<open>
  \<^verbatim>\<open>filepath.WalkDir\<close>, for a callback that never returns \<^verbatim>\<open>SkipDir\<close> or \<^verbatim>\<open>SkipAll\<close>. The callback is given the
  path, the entry (its kind, and what its \<^verbatim>\<open>Info\<close> reports), and the error of listing it; it works on the
  variables it captures or stops the walk with an error.
\<close>

type_synonym 's walk_fn = "ospath \<Rightarrow> errno option \<times> kind \<Rightarrow> gerror option \<Rightarrow> 's \<Rightarrow> gerror + 's"

fun walkDir :: "'s walk_fn \<Rightarrow> ospath \<Rightarrow> errno option \<Rightarrow> node \<Rightarrow> 's \<Rightarrow> gerror + 's"
and walkDirs :: "'s walk_fn \<Rightarrow> ospath \<Rightarrow> (string \<times> errno option \<times> node) list \<Rightarrow> 's \<Rightarrow> gerror + 's"
where
  "walkDir fn path info (Dir r es) s =
     (case fn path (info, Folder) None s of
        Inl e \<Rightarrow> Inl e
      | Inr s' \<Rightarrow>
          (case r of
             None \<Rightarrow> walkDirs fn path es s'
           | Some (oper, e) \<Rightarrow>
               (case fn path (info, Folder) (Some (PathError oper (fst path) e)) s' of
                  Inl e \<Rightarrow> Inl e
                | Inr s'' \<Rightarrow> walkDirs fn path es s'')))"
| "walkDir fn path info (File c) s = fn path (info, Regular) None s"
| "walkDir fn path info (Device c) s = fn path (info, Special) None s"
| "walkDir fn path info (Link t) s = fn path (info, Symlink) None s"
| "walkDirs fn path [] s = Inr s"
| "walkDirs fn path ((name, info, n) # es) s =
     (case walkDir fn (sub path name) info n s of
        Inl e \<Rightarrow> Inl e
      | Inr s' \<Rightarrow> walkDirs fn path es s')"

definition WalkDir :: "node \<Rightarrow> ospath \<Rightarrow> 's walk_fn \<Rightarrow> 's \<Rightarrow> gerror + 's" where
  "WalkDir root path fn s =
     (case find_node root (snd path) of
        Inl e \<Rightarrow> fn path (None, Special) (Some (PathError ''lstat'' (fst path) e)) s
      | Inr n \<Rightarrow> walkDir fn path None n s)"

end
