(* ===== verification/Evidence_Paths.thy ===== *)
theory Evidence_Paths
  imports Go_Files
begin

text \<open>
  The path rules of the evidence checker (\<^verbatim>\<open>tools/evidencebaseline/main.go\<close>): which references may be
  followed, and following one from the repository root, or from a bndl, without passing through a link.
\<close>

section \<open>Findings\<close>

record finding =
  finding_path :: string
  finding_msg :: string

definition finding_at :: "string \<Rightarrow> string \<Rightarrow> finding" where
  "finding_at p m = \<lparr>finding_path = p, finding_msg = m\<rparr>"

section \<open>Safe references\<close>

definition safe_part :: "string \<Rightarrow> bool" where
  "safe_part part \<longleftrightarrow> \<not> (part = [] \<or> part = ''.'' \<or> part = ''..'')"

definition safeSlashPath :: "string \<Rightarrow> bool \<Rightarrow> bool" where
  "safeSlashPath ref allowTrailingSlash =
     (if ref = [] \<or> CHR 0x5C \<in> set ref \<or> CHR 0x00 \<in> set ref \<or> CHR '':'' \<in> set ref \<or> HasPrefix ref ''/''
      then False
      else if HasSuffix ref ''/'' then
        (if \<not> allowTrailingSlash then False
         else let ref' = TrimSuffix ref ''/''
              in if ref' = [] then False else list_all safe_part (split_on CHR ''/'' ref'))
      else list_all safe_part (split_on CHR ''/'' ref))"

definition safeRepoRelativeRef :: "string \<Rightarrow> bool" where
  "safeRepoRelativeRef ref = safeSlashPath ref True"

definition safeBundleRelativePath :: "string \<Rightarrow> bool" where
  "safeBundleRelativePath ref = safeSlashPath ref False"

function trimLeadingDotSlash :: "string \<Rightarrow> string" where
  "trimLeadingDotSlash ref =
     (if HasPrefix ref ''./'' then trimLeadingDotSlash (TrimPrefix ref ''./'') else ref)"
  by pat_completeness auto
termination
  by (relation "measure length") (auto simp: HasPrefix_iff TrimPrefix_def)

declare trimLeadingDotSlash.simps [simp del]

definition looksLikeUnsafeRepoRef :: "string \<Rightarrow> bool" where
  "looksLikeUnsafeRepoRef ref =
     (if safeRepoRelativeRef ref then False else HasPrefix (TrimLeft ref CHR ''/'') ''docs/'')"

section \<open>Following a reference\<close>

datatype lstat_result =
    LstatFound ospath kind
  | LstatFindings "finding list"
  | LstatError ospath gerror

text \<open>The loop over the parts of the reference, the ones already passed in \<^term>\<open>done_parts\<close>.\<close>

fun lstat_parts :: "node \<Rightarrow> string \<Rightarrow> string \<Rightarrow> ospath \<Rightarrow> string list \<Rightarrow> string list \<Rightarrow> lstat_result" where
  "lstat_parts root ref findingPath full done_parts [] =
     LstatFindings [finding_at findingPath (''repository path is empty: '' @ ref)]"
| "lstat_parts root ref findingPath full done_parts (part # parts) =
     (let full = sub full part; parent = join_with ''/'' (done_parts @ [part])
      in case os_Lstat root full of
           Inl err \<Rightarrow>
             if is_not_exist err \<and> parts \<noteq> []
             then LstatFindings [finding_at findingPath (''repository path parent does not exist: '' @ parent)]
             else LstatError full err
         | Inr info \<Rightarrow>
             if parts \<noteq> [] then
               if info = Symlink
               then LstatFindings [finding_at findingPath (''repository path contains symlinked parent: '' @ parent)]
               else if info \<noteq> Folder
               then LstatFindings [finding_at findingPath (''repository path parent is not a directory: '' @ parent)]
               else lstat_parts root ref findingPath full (done_parts @ [part]) parts
             else LstatFound full info)"

definition lstatRepoRelative :: "node \<Rightarrow> string \<Rightarrow> string \<Rightarrow> string \<Rightarrow> lstat_result" where
  "lstatRepoRelative root repoRoot ref findingPath =
     (if \<not> safeRepoRelativeRef ref
      then LstatFindings [finding_at findingPath (''unsafe repository path: '' @ ref)]
      else lstat_parts root ref findingPath (repoRoot, []) [] (split_on CHR ''/'' (TrimSuffix ref ''/'')))"

text \<open>The same below a bundle, for the paths of its checksum list: every link is refused.\<close>

fun checksum_parts :: "node \<Rightarrow> string \<Rightarrow> string \<Rightarrow> ospath \<Rightarrow> string list \<Rightarrow> string list
    \<Rightarrow> finding list + ospath \<times> kind" where
  "checksum_parts root bndl rel full done_parts [] =
     Inl [finding_at (bndl @ ''/'' @ rel) ''checksum references missing file'']"
| "checksum_parts root bndl rel full done_parts (part # parts) =
     (let full = sub full part; parent = join_with ''/'' (done_parts @ [part])
      in case os_Lstat root full of
           Inl err \<Rightarrow>
             if is_not_exist err
             then Inl [finding_at (bndl @ ''/'' @ rel) ''checksum references missing file'']
             else Inl [finding_at (bndl @ ''/'' @ rel) (error_text err)]
         | Inr info \<Rightarrow>
             if info = Symlink then
               if parts \<noteq> []
               then Inl [finding_at (bndl @ ''/'' @ rel) (''checksum path contains symlinked parent: '' @ parent)]
               else Inl [finding_at (bndl @ ''/'' @ rel) ''checksum references symlink'']
             else if parts \<noteq> [] \<and> info \<noteq> Folder
             then Inl [finding_at (bndl @ ''/'' @ rel) (''checksum path parent is not a directory: '' @ parent)]
             else if parts = [] then Inr (full, info)
             else checksum_parts root bndl rel full (done_parts @ [part]) parts)"

definition lstatChecksumEntry :: "node \<Rightarrow> ospath \<Rightarrow> string \<Rightarrow> string \<Rightarrow> finding list + ospath \<times> kind" where
  "lstatChecksumEntry root bundlePath bndl rel =
     checksum_parts root bndl rel bundlePath [] (split_on CHR ''/'' rel)"

section \<open>The bundle of a reference\<close>

definition evidenceBundleForRef :: "string \<Rightarrow> kind \<Rightarrow> string" where
  "evidenceBundleForRef ref info =
     (let parts = split_on CHR ''/'' (TrimBoth ref CHR ''/'')
      in if length parts < 3 \<or> parts ! 0 \<noteq> ''docs'' \<or> parts ! 1 \<noteq> ''evidence'' then []
         else if info = Folder \<or> info = Symlink \<or> HasSuffix ref ''/'' then join_with ''/'' (take 3 parts)
         else if length parts \<ge> 4 then join_with ''/'' (take 3 parts)
         else [])"

section \<open>What is reached\<close>

definition node_kind :: "node \<Rightarrow> string list \<Rightarrow> kind option" where
  "node_kind root loc = (case find_node root loc of Inl e \<Rightarrow> None | Inr n \<Rightarrow> Some (kind_of n))"

lemma node_kind_os_Lstat:
  "node_kind root (snd p) = (case os_Lstat root p of Inl e \<Rightarrow> None | Inr k \<Rightarrow> Some k)"
  by (simp add: os_Lstat_def node_kind_def split: sum.split)

lemma snd_sub [simp]: "snd (sub p name) = snd p @ [name]"
  by (simp add: sub_def)

lemma snd_foldl_sub [simp]: "snd (foldl sub p names) = snd p @ names"
  by (induction names arbitrary: p) simp_all

text \<open>The directories passed on the way to a place below \<^term>\<open>loc\<close>.\<close>

definition passes_dirs :: "node \<Rightarrow> string list \<Rightarrow> string list \<Rightarrow> bool" where
  "passes_dirs root loc parts \<longleftrightarrow>
     (\<forall>i < length parts - 1. node_kind root (loc @ take (Suc i) parts) = Some Folder)"

lemma passes_dirs_single [simp]: "passes_dirs root loc [p]"
  by (simp add: passes_dirs_def)

lemma passes_dirs_Cons:
  assumes "parts \<noteq> []"
  shows "passes_dirs root loc (p # parts) \<longleftrightarrow>
     node_kind root (loc @ [p]) = Some Folder \<and> passes_dirs root (loc @ [p]) parts"
proof -
  obtain n where n: "length parts = Suc n"
    using assms by (cases parts) auto
  show ?thesis by (simp add: passes_dirs_def n All_less_Suc2)
qed

lemma node_kind_sub:
  "node_kind root (snd p @ [name]) = (case os_Lstat root (sub p name) of Inl e \<Rightarrow> None | Inr k \<Rightarrow> Some k)"
  using node_kind_os_Lstat [of root "sub p name"] by simp

lemma lstat_parts_found:
  "parts \<noteq> [] \<Longrightarrow> lstat_parts root ref at full done_parts parts = LstatFound f k \<longleftrightarrow>
     f = foldl sub full parts \<and> node_kind root (snd full @ parts) = Some k \<and> passes_dirs root (snd full) parts"
proof (induction parts arbitrary: full done_parts)
  case (Cons p parts)
  show ?case
  proof (cases "parts = []")
    case True
    then show ?thesis
      by (cases "os_Lstat root (sub full p)") (auto simp: Let_def node_kind_sub)
  next
    case False
    then show ?thesis
      using Cons.IH [OF False, of "sub full p"]
      by (cases "os_Lstat root (sub full p)") (auto simp: Let_def passes_dirs_Cons node_kind_sub)
  qed
qed simp

lemma checksum_parts_found:
  "parts \<noteq> [] \<Longrightarrow> checksum_parts root bndl rel full done_parts parts = Inr (f, k) \<longleftrightarrow>
     f = foldl sub full parts \<and> node_kind root (snd full @ parts) = Some k \<and> k \<noteq> Symlink \<and>
     passes_dirs root (snd full) parts"
proof (induction parts arbitrary: full done_parts)
  case (Cons p parts)
  show ?case
  proof (cases "parts = []")
    case True
    then show ?thesis
      by (cases "os_Lstat root (sub full p)") (auto simp: Let_def node_kind_sub)
  next
    case False
    then show ?thesis
      using Cons.IH [OF False, of "sub full p"]
      by (cases "os_Lstat root (sub full p)") (auto simp: Let_def passes_dirs_Cons node_kind_sub)
  qed
qed simp

lemma lstat_parts_nonempty_findings: "lstat_parts root ref at full done_parts parts \<noteq> LstatFindings []"
  by (induction parts arbitrary: full done_parts) (auto simp: Let_def split: sum.split)

lemma checksum_parts_nonempty_findings: "checksum_parts root bndl rel full done_parts parts \<noteq> Inl []"
  by (induction parts arbitrary: full done_parts) (auto simp: Let_def split: sum.split)

text \<open>The parts of a safe reference: at least one, each a plain name.\<close>

definition ref_parts :: "string \<Rightarrow> string list" where
  "ref_parts ref = split_on CHR ''/'' (TrimSuffix ref ''/'')"

lemma ref_parts_nonempty [simp]: "ref_parts ref \<noteq> []"
  by (simp add: ref_parts_def)

lemma safeSlashPath_parts:
  "safeSlashPath ref b \<Longrightarrow> p \<in> set (ref_parts ref) \<Longrightarrow>
     safe_part p \<and> CHR ''/'' \<notin> set p \<and> CHR 0x5C \<notin> set p \<and> CHR 0x00 \<notin> set p \<and> CHR '':'' \<notin> set p"
  using split_on_set [of p "CHR ''/''" "TrimSuffix ref ''/''"] split_on_free [of p "CHR ''/''" "TrimSuffix ref ''/''"]
  by (fastforce simp: ref_parts_def safeSlashPath_def TrimSuffix_def Let_def list_all_iff dest: in_set_takeD split: if_splits)

lemma lstatRepoRelative_found:
  "lstatRepoRelative root repoRoot ref at = LstatFound full k \<longleftrightarrow>
     safeRepoRelativeRef ref \<and> full = foldl sub (repoRoot, []) (ref_parts ref) \<and>
     node_kind root (ref_parts ref) = Some k \<and> passes_dirs root [] (ref_parts ref)"
  by (simp add: lstatRepoRelative_def lstat_parts_found flip: ref_parts_def)

text \<open>Below a cleaned root that is neither \<^verbatim>\<open>/\<close> nor \<^verbatim>\<open>.\<close>, the string is the root and the reference.\<close>

definition plain_root :: "string \<Rightarrow> bool" where
  "plain_root r \<longleftrightarrow> filepath_Clean r = r \<and> r \<noteq> ''/'' \<and> r \<noteq> ''.''"

lemma filepath_Join_plain:
  assumes r: "plain_root r" and p: "safe_part p" "CHR ''/'' \<notin> set p"
  shows "filepath_Join [r, p] = r @ ''/'' @ p \<and> plain_root (r @ ''/'' @ p)"
proof -
  define stack where "stack = (\<lambda>s. foldl (clean_step (HasPrefix r ''/'')) [] (split_on CHR ''/'' s))"
  define pre where "pre = (if HasPrefix r ''/'' then ''/'' else [])"
  have clean: "filepath_Clean s = (if pre @ join_with ''/'' (rev (stack s)) = [] then ''.'' else pre @ join_with ''/'' (rev (stack s)))"
    if "HasPrefix s ''/'' = HasPrefix r ''/''" for s
    by (simp add: filepath_Clean_def stack_def pre_def Let_def that)
  from clean [of r] r have eq: "pre @ join_with ''/'' (rev (stack r)) = r" and "r \<noteq> []"
    by (auto simp: plain_root_def split: if_splits)
  then have rooted: "HasPrefix (r @ ''/'' @ p) ''/'' = HasPrefix r ''/''"
    by (cases r) (simp_all add: HasPrefix_def)
  have ne: "stack r \<noteq> []"
    using eq r \<open>r \<noteq> []\<close> by (auto simp: pre_def plain_root_def split: if_splits)
  have "stack (r @ ''/'' @ p) = p # stack r"
    using p split_on_snoc [OF p(2), of r] by (simp add: stack_def clean_step_def safe_part_def)
  moreover have "pre @ join_with ''/'' (rev (stack r) @ [p]) = r @ ''/'' @ p"
    using ne eq by (simp add: join_with_snoc flip: append.assoc)
  ultimately have *: "filepath_Clean (r @ ''/'' @ p) = r @ ''/'' @ p"
    using clean [OF rooted] by simp
  moreover have "r @ ''/'' @ p \<noteq> ''/''" "r @ ''/'' @ p \<noteq> ''.''"
    using \<open>r \<noteq> []\<close> by (cases r; simp)+
  ultimately show ?thesis
    using \<open>r \<noteq> []\<close> by (simp add: filepath_Join_def plain_root_def)
qed

lemma foldl_sub_plain:
  "plain_root (fst q) \<Longrightarrow> ps \<noteq> [] \<Longrightarrow> \<forall>p \<in> set ps. safe_part p \<and> CHR ''/'' \<notin> set p \<Longrightarrow>
     foldl sub q ps = (fst q @ ''/'' @ join_with ''/'' ps, snd q @ ps)"
proof (induction ps arbitrary: q)
  case (Cons p ps)
  from Cons.prems have s: "fst (sub q p) = fst q @ ''/'' @ p" "plain_root (fst (sub q p))"
    using filepath_Join_plain [of "fst q" p] by (simp_all add: sub_def)
  show ?case
  proof (cases "ps = []")
    case True
    then show ?thesis using s by (simp add: prod_eq_iff)
  next
    case False
    then show ?thesis
      using Cons.IH [OF s(2) False] Cons.prems s(1) by (cases ps) simp_all
  qed
qed simp

text \<open>
  C27: a reference the checker follows. It reports a place exactly when the reference is safe, every
  directory on the way is a real directory and not a link, and something is there; the path it then uses is
  the repository root followed by the reference, each of whose parts is a plain name, so it stays inside.
\<close>

theorem followed_reference:
  assumes "plain_root repoRoot"
  shows "lstatRepoRelative root repoRoot ref at = LstatFound full k \<longleftrightarrow>
     safeRepoRelativeRef ref \<and>
     (\<forall>p \<in> set (ref_parts ref). p \<noteq> [] \<and> p \<noteq> ''.'' \<and> p \<noteq> ''..'' \<and> CHR ''/'' \<notin> set p) \<and>
     full = (repoRoot @ ''/'' @ TrimSuffix ref ''/'', ref_parts ref) \<and>
     node_kind root (ref_parts ref) = Some k \<and>
     (\<forall>i < length (ref_parts ref) - 1. node_kind root (take (Suc i) (ref_parts ref)) = Some Folder)"
proof (cases "safeRepoRelativeRef ref")
  case True
  then have parts: "\<forall>p \<in> set (ref_parts ref). safe_part p \<and> CHR ''/'' \<notin> set p"
    by (auto simp: safeRepoRelativeRef_def dest: safeSlashPath_parts)
  then have "foldl sub (repoRoot, []) (ref_parts ref) = (repoRoot @ ''/'' @ TrimSuffix ref ''/'', ref_parts ref)"
    using assms by (simp add: foldl_sub_plain) (simp add: ref_parts_def join_split)
  then show ?thesis
    using True parts by (auto simp: lstatRepoRelative_found passes_dirs_def safe_part_def)
qed (simp add: lstatRepoRelative_found)

theorem followed_reference_witness:
  "lstatRepoRelative (Dir None [(''docs'', None, Dir None [(''a.md'', None, File (Inr ''x''))])])
     ''../..'' ''docs/a.md'' ''row'' = LstatFound (''../../docs/a.md'', [''docs'', ''a.md'']) Regular"
proof -
  have "plain_root ''../..''" by code_simp
  note f = followed_reference [OF this]
  have p: "ref_parts ''docs/a.md'' = [''docs'', ''a.md'']" "TrimSuffix ''docs/a.md'' ''/'' = ''docs/a.md''"
    "safeRepoRelativeRef ''docs/a.md''" by code_simp+
  show ?thesis by (subst f) (simp add: p node_kind_def)
qed

end
