(* ===== verification/Evidence_Parse.thy ===== *)
theory Evidence_Parse
  imports Evidence_Paths
begin

text \<open>
  The three text formats the evidence checker reads (\<^verbatim>\<open>tools/evidencebaseline/main.go\<close>): the manifest of
  summary documents, the Baseline Index table of \<^verbatim>\<open>docs/evidence-baseline.md\<close> with the references in its
  cells, and the \<^verbatim>\<open>SHA256SUMS\<close> list of a bundle. A parser returns what it read and its findings, or the
  error that stopped it.
\<close>

definition summaryDocsManifestRef :: string where
  "summaryDocsManifestRef = ''docs/evidence-baseline-summary-docs.txt''"

definition line_path :: "string \<Rightarrow> nat \<Rightarrow> string" where
  "line_path path lineNo = path @ '':'' @ decimal lineNo"

section \<open>The manifest of summary documents\<close>

fun manifest_lines :: "nat \<Rightarrow> string list \<Rightarrow> string list \<times> finding list" where
  "manifest_lines lineNo [] = ([], [])"
| "manifest_lines lineNo (ref # ls) =
     (let lineNo = Suc lineNo; (refs, findings) = manifest_lines lineNo ls
      in if ref = [] \<or> HasPrefix ref ''#'' then (refs, findings)
         else if TrimSpace ref \<noteq> ref
         then (refs, finding_at (line_path summaryDocsManifestRef lineNo)
                       ''summary-doc manifest entries must not have leading or trailing whitespace'' # findings)
         else (ref # refs, findings))"

definition parseSummaryDocsManifest :: "string \<Rightarrow> gerror + string list \<times> finding list" where
  "parseSummaryDocsManifest content =
     (let (ls, too_long) = scan_lines content
      in if too_long then Inl ErrTooLong else Inr (manifest_lines 0 ls))"

text \<open>The text \<^verbatim>\<open>writeSummaryDocsManifest\<close> builds.\<close>

definition manifest_header :: string where
  "manifest_header = ''# Generated from docs/evidence-baseline.md by tools/evidencebaseline --write-summary-docs.''"

definition manifest_content :: "string list \<Rightarrow> string" where
  "manifest_content refs =
     manifest_header @ [CHR 0x0A] @ concat (map (\<lambda>ref. ref @ [CHR 0x0A]) refs)"

section \<open>The Baseline Index\<close>

record baselineRow =
  lane :: string
  rawCell :: string
  summaryCell :: string

definition splitTableRow :: "string \<Rightarrow> string list" where
  "splitTableRow line =
     (let line = TrimSpace line;
          line = TrimPrefix line ''|'';
          line = TrimSuffix line ''|''
      in map TrimSpace (split_on CHR ''|'' line))"

definition valid_separator_cell :: "string \<Rightarrow> bool" where
  "valid_separator_cell cell =
     (let cell = TrimSpace cell;
          cell = TrimPrefix cell '':'';
          cell = TrimSuffix cell '':''
      in \<not> length cell < 3 \<and> list_all (\<lambda>r. r = CHR ''-'') cell)"

definition validTableSeparator :: "string list \<Rightarrow> nat \<Rightarrow> bool" where
  "validTableSeparator cells wantCols =
     (if length cells \<noteq> wantCols then False else list_all valid_separator_cell cells)"

text \<open>The scan for the table's lines, with whether the next section's heading ended it.\<close>

fun table_lines :: "bool \<Rightarrow> string list \<Rightarrow> string list \<times> bool" where
  "table_lines inSection [] = ([], False)"
| "table_lines inSection (line # ls) =
     (if HasPrefix line ''## '' then
        (if inSection then ([], True)
         else table_lines (TrimSpace line = ''## Baseline Index'') ls)
      else let (tableLines, stopped) = table_lines inSection ls
           in (if inSection \<and> HasPrefix (TrimSpace line) ''|'' then line # tableLines else tableLines, stopped))"

definition wantHeader :: "string list" where
  "wantHeader = [''Evidence lane'', ''Pinned baseline'', ''Raw artifacts'', ''Summary docs'', ''Freshness rule'']"

fun baseline_rows :: "string \<Rightarrow> string list \<Rightarrow> string list \<Rightarrow> baselineRow list \<times> finding list" where
  "baseline_rows path seenLane [] = ([], [])"
| "baseline_rows path seenLane (line # ls) =
     (let cells = splitTableRow line
      in if length cells \<noteq> length wantHeader then
           (let (rows, findings) = baseline_rows path seenLane ls
            in (rows, finding_at path (''Baseline Index row has wrong column count: '' @ line) # findings))
         else let lane_name = cells ! 0
         in if lane_name = [] then
              (let (rows, findings) = baseline_rows path seenLane ls
               in (rows, finding_at path ''Baseline Index row has empty evidence lane'' # findings))
            else let (rows, findings) = baseline_rows path (lane_name # seenLane) ls
                 in (\<lparr>lane = lane_name, rawCell = cells ! 2, summaryCell = cells ! 3\<rparr> # rows,
                     (if lane_name \<in> set seenLane
                      then [finding_at (path @ '':'' @ lane_name) ''duplicate evidence lane''] else []) @ findings))"

text \<open>\<^verbatim>\<open>fmt\<close>'s verb \<^verbatim>\<open>%q\<close> on a list of strings, used in two messages, is the parameter \<^term>\<open>quote\<close>.\<close>

definition baseline_table :: "(string list \<Rightarrow> string) \<Rightarrow> string \<Rightarrow> string list \<Rightarrow> baselineRow list \<times> finding list" where
  "baseline_table quote path tableLines =
     (case tableLines of
        [] \<Rightarrow> ([], [finding_at path ''Baseline Index table is missing or empty''])
      | header # body \<Rightarrow>
          (let header = splitTableRow header
           in if header \<noteq> wantHeader
              then ([], [finding_at path (''Baseline Index header got '' @ quote header @ '', want '' @ quote wantHeader)])
              else
                let (first, dataLines) =
                      (case body of
                         [] \<Rightarrow> ([finding_at path ''Baseline Index separator is missing''], body)
                       | separator # rest \<Rightarrow>
                           if \<not> validTableSeparator (splitTableRow separator) (length wantHeader)
                           then ([finding_at path (''Baseline Index separator got '' @ quote (splitTableRow separator) @
                                    '', want '' @ decimal (length wantHeader) @ '' Markdown separator columns'')], body)
                           else ([], rest));
                    (rows, findings) = baseline_rows path [] dataLines
                in (rows, first @ findings @
                      (if rows = [] then [finding_at path ''Baseline Index contains no evidence rows''] else []))))"

definition parseBaselineIndex ::
    "node \<Rightarrow> (string list \<Rightarrow> string) \<Rightarrow> ospath \<Rightarrow> gerror + baselineRow list \<times> finding list" where
  "parseBaselineIndex root quote path =
     (case os_ReadFile root path of
        Inl err \<Rightarrow> Inl err
      | Inr content \<Rightarrow>
          (let (ls, too_long) = scan_lines content;
               (tableLines, stopped) = table_lines False ls
           in if too_long \<and> \<not> stopped then Inl ErrTooLong
              else Inr (baseline_table quote (fst path) tableLines)))"

section \<open>References in a cell\<close>

text \<open>The groups that \<^verbatim>\<open>FindAllStringSubmatch\<close> finds for a back-quoted, non-empty text.\<close>

definition not_tick :: "char \<Rightarrow> bool" where
  "not_tick c \<longleftrightarrow> c \<noteq> CHR 0x60"

function backtick_groups :: "string \<Rightarrow> string list" where
  "backtick_groups s =
     (case dropWhile not_tick s of
        [] \<Rightarrow> []
      | _ # t \<Rightarrow>
          (case dropWhile not_tick t of
             [] \<Rightarrow> []
           | _ # u \<Rightarrow> if takeWhile not_tick t = [] then backtick_groups t
                      else takeWhile not_tick t # backtick_groups u))"
  by pat_completeness auto
termination
proof (relation "measure length", goal_cases)
  case (2 s x t y u)
  then show ?case
    using length_dropWhile_le [of not_tick s] by simp
next
  case (3 s x t y u)
  then show ?case
    using length_dropWhile_le [of not_tick s] length_dropWhile_le [of not_tick t] by simp
qed simp

declare backtick_groups.simps [simp del]

fun filtered_refs :: "string \<Rightarrow> (string \<Rightarrow> bool) \<Rightarrow> string list \<Rightarrow> string list \<Rightarrow> string list \<times> finding list" where
  "filtered_refs findingPath keep out [] = (out, [])"
| "filtered_refs findingPath keep out (m # matches) =
     (let raw = TrimSpace m; ref = trimLeadingDotSlash raw
      in if raw = [] then filtered_refs findingPath keep out matches
         else if \<not> keep ref then
           (let (refs, findings) = filtered_refs findingPath keep out matches
            in (refs, (if looksLikeUnsafeRepoRef ref
                       then [finding_at findingPath (''unsafe baseline ref: '' @ raw)] else []) @ findings))
         else if \<not> safeRepoRelativeRef ref then
           (let (refs, findings) = filtered_refs findingPath keep out matches
            in (refs, finding_at findingPath (''unsafe baseline ref: '' @ raw) # findings))
         else if ref \<notin> set out then filtered_refs findingPath keep (out @ [ref]) matches
         else filtered_refs findingPath keep out matches)"

definition filteredBacktickRefs :: "string \<Rightarrow> string \<Rightarrow> (string \<Rightarrow> bool) \<Rightarrow> string list \<times> finding list" where
  "filteredBacktickRefs cell findingPath keep = filtered_refs findingPath keep [] (backtick_groups cell)"

definition evidenceRefs :: "string \<Rightarrow> string \<Rightarrow> string list \<times> finding list" where
  "evidenceRefs cell findingPath =
     filteredBacktickRefs cell findingPath (\<lambda>ref. HasPrefix ref ''docs/evidence/'')"

definition summaryRefs :: "string \<Rightarrow> string \<Rightarrow> string list \<times> finding list" where
  "summaryRefs cell findingPath =
     filteredBacktickRefs cell findingPath (\<lambda>ref. HasPrefix ref ''docs/'' \<and> HasSuffix ref ''.md'')"

section \<open>Checksum lists\<close>

record checksumEntry =
  entry_hash :: string
  entry_path :: string

definition sha256Hex :: "string \<Rightarrow> bool" where
  "sha256Hex s \<longleftrightarrow> length s = 64 \<and> list_all (\<lambda>c. c \<in> set ''0123456789abcdef'') s"

text \<open>What one line contributes: its findings, and its entry when it has a usable path.\<close>

definition sums_line :: "string \<Rightarrow> string list \<Rightarrow> string \<Rightarrow> finding list \<times> checksumEntry option" where
  "sums_line at seen line =
     (if TrimSpace line = [] then ([], None)
      else if length line \<ge> 66 \<and> line ! 64 = CHR '' '' \<and> line ! 65 = CHR ''*''
      then ([finding_at at ''checksum line must use text-mode SHA256SUMS format without a binary '*' path prefix''], None)
      else if length line < 67 \<or> take 2 (drop 64 line) \<noteq> ''  ''
      then ([finding_at at ''checksum line must use '<64 lowercase hex><two spaces><bundle-relative path>' format''], None)
      else
        let hash = take 64 line; rel = drop 66 line;
            findings = (if \<not> sha256Hex hash
                        then [finding_at at ''checksum hash must be 64 lowercase hex characters''] else [])
        in if ContainsAny rel [CHR '' '', CHR 0x09, CHR 0x0D, CHR 0x0A]
           then (findings @ [finding_at at ''checksum path must not contain whitespace''], None)
           else if HasPrefix rel ''*''
           then (findings @ [finding_at at ''checksum path must not start with a binary '*' path prefix''], None)
           else if \<not> safeBundleRelativePath rel
           then (findings @ [finding_at at ''checksum path must be a safe bundle-relative path''], None)
           else (findings @ (if rel \<in> set seen
                             then [finding_at at (''duplicate checksum path: '' @ rel)] else []),
                 Some \<lparr>entry_hash = hash, entry_path = rel\<rparr>))"

fun sums_lines :: "string \<Rightarrow> nat \<Rightarrow> string list \<Rightarrow> string list \<Rightarrow> checksumEntry list \<times> finding list" where
  "sums_lines path lineNo seen [] = ([], [])"
| "sums_lines path lineNo seen (line # ls) =
     (let lineNo = Suc lineNo
      in case sums_line (line_path path lineNo) seen line of
           (fs, None) \<Rightarrow>
             (let (entries, findings) = sums_lines path lineNo seen ls in (entries, fs @ findings))
         | (fs, Some entry) \<Rightarrow>
             (let (entries, findings) = sums_lines path lineNo (entry_path entry # seen) ls
              in (entry # entries, fs @ findings)))"

definition parseSHA256SUMS :: "node \<Rightarrow> ospath \<Rightarrow> gerror + checksumEntry list \<times> finding list" where
  "parseSHA256SUMS root path =
     (case os_ReadFile root path of
        Inl err \<Rightarrow> Inl err
      | Inr content \<Rightarrow>
          (let (ls, too_long) = scan_lines content
           in if too_long then Inl ErrTooLong else Inr (sums_lines (fst path) 0 [] ls)))"

section \<open>The manifest written is the manifest read\<close>

definition manifest_ref :: "string \<Rightarrow> bool" where
  "manifest_ref ref \<longleftrightarrow> line_ok ref \<and> ref \<noteq> [] \<and> \<not> HasPrefix ref ''#'' \<and> TrimSpace ref = ref"

lemma manifest_lines_refs: "\<forall>ref \<in> set refs. manifest_ref ref \<Longrightarrow> manifest_lines n refs = (refs, [])"
  by (induction refs arbitrary: n) (simp_all add: manifest_ref_def)

lemma parse_manifest_content:
  assumes "\<forall>ref \<in> set refs. manifest_ref ref"
  shows "parseSummaryDocsManifest (manifest_content refs) = Inr (refs, [])"
proof -
  have "line_ok manifest_header" "HasPrefix manifest_header ''#''"
    by (simp_all add: line_ok_def manifest_header_def maxScanTokenSize_def dropCR_def HasPrefix_def)
  moreover have "manifest_content refs = concat (map (\<lambda>l. l @ [CHR 0x0A]) (manifest_header # refs))"
    by (simp add: manifest_content_def)
  ultimately have "scan_lines (manifest_content refs) = (manifest_header # refs, False)"
    using assms scan_written_lines [of "manifest_header # refs"] by (simp add: manifest_ref_def)
  then show ?thesis
    using \<open>HasPrefix manifest_header ''#''\<close> assms
    by (simp add: parseSummaryDocsManifest_def manifest_lines_refs)
qed

section \<open>The references of a table\<close>

lemma cut_of_dropWhile [simp]: "cut_of (dropWhile P s) s"
  by (auto simp: cut_of_def length_dropWhile_le dest: set_dropWhileD)

lemma cut_of_takeWhile [simp]: "cut_of (takeWhile P s) s"
  by (auto simp: cut_of_def length_takeWhile_le dest: set_takeWhileD)

lemma cut_of_Cons: "cut_of (x # t) s \<Longrightarrow> cut_of t s"
  by (simp add: cut_of_def)

lemma cut_of_group: "g \<in> set (backtick_groups s) \<Longrightarrow> cut_of g s"
proof (induction s rule: backtick_groups.induct)
  case (1 s)
  obtain x t where xt: "dropWhile not_tick s = x # t"
    using "1.prems" by (cases "dropWhile not_tick s") (simp_all add: backtick_groups.simps [of s])
  obtain y u where yu: "dropWhile not_tick t = y # u"
    using "1.prems" xt by (cases "dropWhile not_tick t") (simp_all add: backtick_groups.simps [of s])
  have t: "cut_of t s"
    by (rule cut_of_Cons [of x]) (simp flip: xt)
  have u: "cut_of u s"
    by (rule cut_of_trans [OF cut_of_Cons [of y] t]) (simp flip: yu)
  consider "takeWhile not_tick t = []" "g \<in> set (backtick_groups t)"
    | "takeWhile not_tick t \<noteq> []" "g = takeWhile not_tick t"
    | "takeWhile not_tick t \<noteq> []" "g \<in> set (backtick_groups u)"
    using "1.prems" xt yu by (auto simp: backtick_groups.simps [of s] split: if_splits)
  then show ?case
  proof cases
    case 1
    then show ?thesis using "1.IH"(1) [OF xt yu] cut_of_trans [OF _ t] by blast
  next
    case 2
    then show ?thesis using cut_of_trans [OF cut_of_takeWhile t] by simp
  next
    case 3
    then show ?thesis using "1.IH"(2) [OF xt yu] cut_of_trans [OF _ u] by blast
  qed
qed

lemma trimLeadingDotSlash_suffix: "\<exists>u. ref = u @ trimLeadingDotSlash ref"
proof (induction ref rule: trimLeadingDotSlash.induct)
  case (1 ref)
  show ?case
  proof (cases "HasPrefix ref ''./''")
    case True
    then obtain u where "TrimPrefix ref ''./'' = u @ trimLeadingDotSlash (TrimPrefix ref ''./'')"
      using "1" by blast
    with True have "ref = (''./'' @ u) @ trimLeadingDotSlash ref"
      by (auto simp: HasPrefix_iff TrimPrefix_def trimLeadingDotSlash.simps [of ref])
    then show ?thesis by blast
  qed (simp add: trimLeadingDotSlash.simps [of ref])
qed

lemma filtered_refs_set:
  "ref \<in> set (fst (filtered_refs at keep out matches)) \<Longrightarrow>
     ref \<in> set out \<or> (\<exists>m \<in> set matches. ref = trimLeadingDotSlash (TrimSpace m) \<and> keep ref \<and> safeRepoRelativeRef ref)"
proof (induction matches arbitrary: out)
  case (Cons m matches)
  then show ?case
    by (fastforce simp: Let_def split: if_splits prod.splits)
qed simp

text \<open>Where the references of a cell come from, and that they survive being written to the manifest.\<close>

lemma filtered_ref_origin:
  assumes "ref \<in> set (fst (filteredBacktickRefs cell at keep))"
  obtains m u where "keep ref" "safeRepoRelativeRef ref" "TrimSpace m = u @ ref" "cut_of ref cell"
proof -
  obtain m where m: "m \<in> set (backtick_groups cell)" "ref = trimLeadingDotSlash (TrimSpace m)" "keep ref" "safeRepoRelativeRef ref"
    using filtered_refs_set assms unfolding filteredBacktickRefs_def by force
  obtain u where u: "TrimSpace m = u @ ref"
    using trimLeadingDotSlash_suffix [of "TrimSpace m"] m(2) by blast
  have "cut_of ref (TrimSpace m)"
    using u by (auto simp: cut_of_def)
  with m u that show thesis
    by (meson cut_of_trans cut_of_TrimSpace cut_of_group)
qed

lemma docs_not_space: "CHR ''d'' \<notin> hd ` set spaces"
  by code_simp

lemma summary_ref_manifest:
  assumes "ref \<in> set (fst (summaryRefs cell at))" "CHR 0x0A \<notin> set cell" "length cell < maxScanTokenSize"
  shows "manifest_ref ref"
proof -
  obtain m u where r: "HasPrefix ref ''docs/''" "TrimSpace m = u @ ref" "cut_of ref cell"
    using assms(1) unfolding summaryRefs_def by (blast elim: filtered_ref_origin)
  then obtain t where t: "ref = CHR ''d'' # t"
    by (auto simp: HasPrefix_iff)
  have trim: "TrimSpace ref = ref"
    using r(2) docs_not_space unfolding t by (rule TrimSpace_suffix)
  then show ?thesis
    using r(3) assms(2,3) dropCR_trimmed [OF trim]
    by (auto simp: manifest_ref_def line_ok_def cut_of_def t HasPrefix_def)
qed

lemma cut_of_cell:
  assumes "c \<in> set (splitTableRow line)"
  shows "cut_of c line"
proof -
  obtain p where p: "c = TrimSpace p" "p \<in> set (split_on CHR ''|'' (TrimSuffix (TrimPrefix (TrimSpace line) ''|'') ''|''))"
    using assms by (auto simp: splitTableRow_def Let_def)
  show ?thesis
    unfolding p(1)
    by (meson p(2) cut_of_trans cut_of_TrimSpace cut_of_split cut_of_TrimSuffix cut_of_TrimPrefix)
qed

lemma baseline_rows_cell:
  "row \<in> set (fst (baseline_rows path seen ls)) \<Longrightarrow>
     \<exists>line \<in> set ls. cut_of (rawCell row) line \<and> cut_of (summaryCell row) line"
proof (induction ls arbitrary: seen)
  case (Cons line ls)
  let ?cells = "splitTableRow line"
  have cells: "cut_of (?cells ! 2) line" "cut_of (?cells ! 3) line" if "length ?cells = length wantHeader"
    using that by (auto intro!: cut_of_cell nth_mem simp: wantHeader_def)
  consider seen' where "row \<in> set (fst (baseline_rows path seen' ls))"
    | "length ?cells = length wantHeader" "row = \<lparr>lane = ?cells ! 0, rawCell = ?cells ! 2, summaryCell = ?cells ! 3\<rparr>"
    using Cons.prems by (auto simp: Let_def case_prod_beta split: if_splits)
  then show ?case
  proof cases
    case 1
    then show ?thesis using Cons.IH by fastforce
  qed (simp add: cells)
qed simp

lemma table_lines_subset: "set (fst (table_lines b ls)) \<subseteq> set ls"
proof (induction ls arbitrary: b)
  case (Cons l ls)
  show ?case
    using Cons [of b] Cons [of "TrimSpace l = ''## Baseline Index''"] by (auto simp: case_prod_beta)
qed simp

lemma baseline_table_cell:
  assumes "row \<in> set (fst (baseline_table quote path ls))"
  shows "\<exists>line \<in> set ls. cut_of (rawCell row) line \<and> cut_of (summaryCell row) line"
proof -
  obtain header body where ls: "ls = header # body"
    using assms by (cases ls) (simp_all add: baseline_table_def)
  define dl where "dl = (case body of [] \<Rightarrow> body
    | s # rest \<Rightarrow> if \<not> validTableSeparator (splitTableRow s) (length wantHeader) then body else rest)"
  have "row \<in> set (fst (baseline_rows path [] dl))"
    using assms unfolding ls dl_def
    by (cases body) (simp_all add: baseline_table_def Let_def case_prod_beta split: if_splits)
  moreover have "set dl \<subseteq> set ls"
    by (auto simp: dl_def ls split: list.splits if_splits)
  ultimately show ?thesis
    using baseline_rows_cell by blast
qed

lemma parsed_cell:
  assumes "parseBaselineIndex root quote path = Inr (rows, findings)" "row \<in> set rows"
  shows "CHR 0x0A \<notin> set (summaryCell row)" "length (summaryCell row) < maxScanTokenSize"
proof -
  obtain content where c: "row \<in> set (fst (baseline_table quote (fst path) (fst (table_lines False (fst (scan_lines content))))))"
    using assms by (simp add: parseBaselineIndex_def case_prod_beta Let_def split: sum.splits if_splits) (metis fst_conv)
  then obtain line where l: "line \<in> set (fst (scan_lines content))" "cut_of (summaryCell row) line"
    using baseline_table_cell [OF c] table_lines_subset by blast
  then show "CHR 0x0A \<notin> set (summaryCell row)" "length (summaryCell row) < maxScanTokenSize"
    using scan_lines_line [OF l(1)] by (auto simp: cut_of_def)
qed

section \<open>What a checksum list without findings is\<close>

definition print_entry :: "checksumEntry \<Rightarrow> string" where
  "print_entry e = entry_hash e @ ''  '' @ entry_path e"

definition valid_entry :: "checksumEntry \<Rightarrow> bool" where
  "valid_entry e \<longleftrightarrow> sha256Hex (entry_hash e) \<and> safeBundleRelativePath (entry_path e) \<and>
     \<not> ContainsAny (entry_path e) [CHR '' '', CHR 0x09, CHR 0x0D, CHR 0x0A] \<and> \<not> HasPrefix (entry_path e) ''*''"

lemma sums_line_blank: "sums_line at seen line = ([], None) \<longleftrightarrow> TrimSpace line = []"
  by (auto simp: sums_line_def Let_def)

lemma sums_line_shape:
  "length line \<ge> 67 \<Longrightarrow> take 2 (drop 64 line) = ''  '' \<Longrightarrow> take 64 line @ ''  '' @ drop 66 line = line"
  using append_take_drop_id [of 2 "drop 64 line"] append_take_drop_id [of 64 line] by simp

lemma sums_line_entry:
  "sums_line at seen line = ([], Some e) \<longleftrightarrow>
     TrimSpace line \<noteq> [] \<and> line = print_entry e \<and> valid_entry e \<and> entry_path e \<notin> set seen"
proof
  assume a: "sums_line at seen line = ([], Some e)"
  then have l: "length line \<ge> 67" "take 2 (drop 64 line) = ''  ''" "TrimSpace line \<noteq> []"
    by (auto simp: sums_line_def Let_def split: if_splits)
  have e: "e = \<lparr>entry_hash = take 64 line, entry_path = drop 66 line\<rparr>" "valid_entry e" "entry_path e \<notin> set seen"
    using a by (auto simp: sums_line_def valid_entry_def Let_def split: if_splits)
  show "TrimSpace line \<noteq> [] \<and> line = print_entry e \<and> valid_entry e \<and> entry_path e \<notin> set seen"
    using l e sums_line_shape [OF l(1,2)] by (simp add: print_entry_def)
next
  assume a: "TrimSpace line \<noteq> [] \<and> line = print_entry e \<and> valid_entry e \<and> entry_path e \<notin> set seen"
  then have len: "length (entry_hash e) = 64" and ne: "entry_path e \<noteq> []"
    by (auto simp: valid_entry_def sha256Hex_def safeBundleRelativePath_def safeSlashPath_def)
  have cut: "take 64 line = entry_hash e" "drop 64 line = ''  '' @ entry_path e" "drop 66 line = entry_path e"
    "line ! 65 = CHR '' ''" "length line = 66 + length (entry_path e)"
    using a len by (simp_all add: print_entry_def nth_append)
  show "sums_line at seen line = ([], Some e)"
    using conjunct1 [OF a] a [THEN conjunct2, THEN conjunct2] ne
    by (cases "entry_path e") (simp_all add: sums_line_def cut valid_entry_def Let_def)
qed

lemma sums_lines_clean:
  "sums_lines path n seen ls = (es, []) \<longleftrightarrow>
     map print_entry es = filter (\<lambda>l. TrimSpace l \<noteq> []) ls \<and> (\<forall>e \<in> set es. valid_entry e) \<and>
     distinct (map entry_path es) \<and> set seen \<inter> entry_path ` set es = {}"
proof (induction ls arbitrary: n seen es)
  case (Cons l ls)
  show ?case
  proof (cases "TrimSpace l = []")
    case True
    then show ?thesis
      using Cons.IH [of "Suc n" seen es] sums_line_blank [of _ seen l]
      by (auto simp: case_prod_beta prod_eq_iff)
  next
    case False
    let ?r = "sums_line (line_path path (Suc n)) seen l"
    have "sums_lines path n seen (l # ls) = (es, []) \<longleftrightarrow>
       (\<exists>e es'. es = e # es' \<and> ?r = ([], Some e) \<and> sums_lines path (Suc n) (entry_path e # seen) ls = (es', []))"
      using sums_line_blank [of "line_path path (Suc n)" seen l] False
      by (cases ?r; cases "snd ?r") (auto simp: Let_def case_prod_beta prod_eq_iff)
    also have "\<dots> \<longleftrightarrow> (\<exists>e es'. es = e # es' \<and> l = print_entry e \<and> valid_entry e \<and> entry_path e \<notin> set seen \<and>
       map print_entry es' = filter (\<lambda>l. TrimSpace l \<noteq> []) ls \<and> (\<forall>e \<in> set es'. valid_entry e) \<and>
       distinct (map entry_path es') \<and> set (entry_path e # seen) \<inter> entry_path ` set es' = {})"
      using False by (simp add: sums_line_entry Cons.IH)
    also have "\<dots> \<longleftrightarrow> map print_entry es = filter (\<lambda>l. TrimSpace l \<noteq> []) (l # ls) \<and> (\<forall>e \<in> set es. valid_entry e) \<and>
       distinct (map entry_path es) \<and> set seen \<inter> entry_path ` set es = {}"
      using False by (cases es) (auto simp: image_iff)
    finally show ?thesis .
  qed
qed auto

lemma parse_sums_iff:
  "parseSHA256SUMS root path = Inr (entries, []) \<longleftrightarrow>
     (\<exists>content ls. os_ReadFile root path = Inr content \<and> scan_lines content = (ls, False) \<and>
        map print_entry entries = filter (\<lambda>l. TrimSpace l \<noteq> []) ls \<and>
        distinct (map entry_path entries) \<and> list_all valid_entry entries)"
proof (cases "os_ReadFile root path")
  case (Inr content)
  then show ?thesis
    by (cases "scan_lines content") (auto simp: parseSHA256SUMS_def sums_lines_clean list_all_iff)
qed (simp add: parseSHA256SUMS_def)

text \<open>
  C28: a checksum list is read without findings exactly when every line that is not blank is
  \<^verbatim>\<open><64 lowercase hex>  <path>\<close>, each path is a plain path below the bundle without white space, and no path
  occurs twice; the entries are then the lines, in order.
\<close>

theorem parseSHA256SUMS_clean:
  "parseSHA256SUMS root path = Inr (entries, []) \<longleftrightarrow>
     (\<exists>content ls. os_ReadFile root path = Inr content \<and> scan_lines content = (ls, False) \<and>
        map print_entry entries = filter (\<lambda>l. TrimSpace l \<noteq> []) ls \<and>
        distinct (map entry_path entries) \<and> list_all valid_entry entries)"
  by (rule parse_sums_iff)

end
