(* ===== verification/Go_Sha256.thy ===== *)
theory Go_Sha256
  imports Go_Crypto
begin

text \<open>
  SHA-256 (FIPS 180-4) behind \<^verbatim>\<open>sha256.New\<close> and \<^verbatim>\<open>hex.EncodeToString\<close>, which the evidence checker
  applies to every file a checksum list names.
\<close>

section \<open>SHA-256\<close>

type_synonym u32 = "32 word"

text \<open>
  The round constants are the first 32 bits of the fractional parts of the cube roots of the first 64
  primes, the initial values those of the square roots of the first eight: the upper halves of the
  SHA-512 constants, which are 64 bits of the same numbers.
\<close>

definition sha256_K :: "u32 list" where
  "sha256_K = map (\<lambda>k. ucast (drop_bit 32 k)) (take 64 sha512_K)"

definition sha256_H0 :: "u32 list" where
  "sha256_H0 = map (\<lambda>k. ucast (drop_bit 32 k)) sha512_H0"

definition rotr32 :: "nat \<Rightarrow> u32 \<Rightarrow> u32" where
  "rotr32 n x = drop_bit n x OR push_bit (32 - n) x"

definition be_word32 :: "bytes \<Rightarrow> u32" where
  "be_word32 bs = foldl (\<lambda>w b. push_bit 8 w OR ucast b) 0 bs"

definition be_bytes32 :: "u32 \<Rightarrow> bytes" where
  "be_bytes32 w = map (\<lambda>i. ucast (drop_bit i w)) [24, 16, 8, 0]"

definition sha256_pad :: "bytes \<Rightarrow> bytes" where
  "sha256_pad msg =
     msg @ [0x80] @ zeros ((119 - length msg mod 64) mod 64) @
       be_bytes (push_bit 3 (word_of_nat (length msg)))"

fun sha256_schedule :: "nat \<Rightarrow> u32 list \<Rightarrow> u32 list" where
  "sha256_schedule 0 ws = ws"
| "sha256_schedule (Suc k) ws =
     (let t = length ws; x = ws ! (t - 2); y = ws ! (t - 15)
      in sha256_schedule k
           (ws @ [(rotr32 17 x XOR rotr32 19 x XOR drop_bit 10 x) + ws ! (t - 7) +
                  (rotr32 7 y XOR rotr32 18 y XOR drop_bit 3 y) + ws ! (t - 16)]))"

type_synonym sha256_state = "u32 \<times> u32 \<times> u32 \<times> u32 \<times> u32 \<times> u32 \<times> u32 \<times> u32"

definition sha256_round :: "sha256_state \<Rightarrow> u32 \<times> u32 \<Rightarrow> sha256_state" where
  "sha256_round st kw =
     (case (st, kw) of ((a, b, c, d, e, f, g, h), (k, w)) \<Rightarrow>
        let t1 = h + (rotr32 6 e XOR rotr32 11 e XOR rotr32 25 e) + ((e AND f) XOR (NOT e AND g)) + k + w;
            t2 = (rotr32 2 a XOR rotr32 13 a XOR rotr32 22 a) + ((a AND b) XOR (a AND c) XOR (b AND c))
        in (t1 + t2, a, b, c, d + t1, e, f, g))"

definition sha256_block :: "u32 list \<Rightarrow> bytes \<Rightarrow> u32 list" where
  "sha256_block H block =
     (let W = sha256_schedule 48 (map be_word32 (chunks 4 block))
      in case foldl sha256_round (H ! 0, H ! 1, H ! 2, H ! 3, H ! 4, H ! 5, H ! 6, H ! 7)
                (zip sha256_K W) of
           (a, b, c, d, e, f, g, h) \<Rightarrow>
             [H ! 0 + a, H ! 1 + b, H ! 2 + c, H ! 3 + d, H ! 4 + e, H ! 5 + f, H ! 6 + g, H ! 7 + h])"

definition sha256 :: "bytes \<Rightarrow> bytes" where
  "sha256 msg =
     concat (map be_bytes32 (foldl sha256_block sha256_H0 (chunks 64 (sha256_pad msg))))"

section \<open>Hexadecimal\<close>

definition hex_digits :: string where
  "hex_digits = ''0123456789abcdef''"

definition hex_EncodeToString :: "bytes \<Rightarrow> string" where
  "hex_EncodeToString bs =
     concat (map (\<lambda>b. [hex_digits ! (unat b div 16), hex_digits ! (unat b mod 16)]) bs)"

text \<open>The digest of a file's content as \<^verbatim>\<open>SHA256SUMS\<close> spells it.\<close>

definition sha256_hex :: "string \<Rightarrow> string" where
  "sha256_hex content = hex_EncodeToString (sha256 (bytes_of content))"

section \<open>Shape of a digest\<close>

lemma length_sha256_block [simp]: "length (sha256_block H b) = 8"
  by (simp add: sha256_block_def Let_def split: prod.split)

lemma length_sha256 [simp, size_simps]: "length (sha256 msg) = 32"
proof -
  have "length (foldl sha256_block H bs) = 8" if "length H = 8" for H bs
    using that by (induction bs arbitrary: H) simp_all
  then show ?thesis
    by (simp add: sha256_def length_concat comp_def sum_list_triv be_bytes32_def sha256_H0_def)
qed

lemma length_hex [simp]: "length (hex_EncodeToString bs) = 2 * length bs"
  by (induction bs) (simp_all add: hex_EncodeToString_def)

lemma set_hex: "set (hex_EncodeToString bs) \<subseteq> set hex_digits"
proof -
  have "length hex_digits = 16" by (simp add: hex_digits_def)
  moreover have "unat b div 16 < 16" for b :: byte
    using byte_unat_less [of b] by linarith
  ultimately show ?thesis
    by (fastforce simp: hex_EncodeToString_def intro: nth_mem)
qed

lemma length_sha256_hex [simp]: "length (sha256_hex content) = 64"
  by (simp add: sha256_hex_def)

lemma set_sha256_hex: "set (sha256_hex content) \<subseteq> set hex_digits"
  by (simp add: sha256_hex_def set_hex)

end
