(* ===== verification/Evidence_Bundle.thy ===== *)
theory Evidence_Bundle
  imports Evidence_Parse Go_Sha256
begin

text \<open>
  Checking one evidence bundle (\<^verbatim>\<open>tools/evidencebaseline/main.go\<close>): the control files, the checksum list,
  the digest of every listed file, and that every other file of the bndl is listed.
\<close>

section \<open>Control files\<close>

definition validateBundleControlFile :: "node \<Rightarrow> ospath \<Rightarrow> string \<Rightarrow> string \<Rightarrow> finding list \<times> bool" where
  "validateBundleControlFile root bundlePath bndl name =
     (case os_Lstat root (sub bundlePath name) of
        Inl err \<Rightarrow>
          if is_not_exist err then ([finding_at bndl (''evidence bundle is missing '' @ name)], False)
          else ([finding_at (bndl @ ''/'' @ name) (error_text err)], False)
      | Inr info \<Rightarrow>
          if info = Symlink
          then ([finding_at (bndl @ ''/'' @ name) ''evidence bundle control file must not be a symlink''], False)
          else if info \<noteq> Regular
          then ([finding_at (bndl @ ''/'' @ name) ''evidence bundle control file must be a regular file''], False)
          else ([], True))"

definition validateOptionalBundleControlFile :: "node \<Rightarrow> ospath \<Rightarrow> string \<Rightarrow> string \<Rightarrow> finding list" where
  "validateOptionalBundleControlFile root bundlePath bndl name =
     (case os_Lstat root (sub bundlePath name) of
        Inl err \<Rightarrow>
          if is_not_exist err then []
          else [finding_at (bndl @ ''/'' @ name) (error_text err)]
      | Inr info \<Rightarrow>
          if info = Symlink
          then [finding_at (bndl @ ''/'' @ name) ''evidence bundle control file must not be a symlink'']
          else if info \<noteq> Regular
          then [finding_at (bndl @ ''/'' @ name) ''evidence bundle control file must be a regular file'']
          else [])"

section \<open>Listed files\<close>

definition verifySHA256Entry :: "node \<Rightarrow> ospath \<Rightarrow> string \<Rightarrow> checksumEntry \<Rightarrow> finding list" where
  "verifySHA256Entry root bundlePath bndl entry =
     (case lstatChecksumEntry root bundlePath bndl (entry_path entry) of
        Inl findings \<Rightarrow> findings
      | Inr (full, info) \<Rightarrow>
          if info \<noteq> Regular
          then [finding_at (bndl @ ''/'' @ entry_path entry) ''checksum references non-regular file'']
          else
            (case os_ReadFile root full of
               Inl err \<Rightarrow> [finding_at (bndl @ ''/'' @ entry_path entry) (error_text err)]
             | Inr content \<Rightarrow>
                 if sha256_hex content \<noteq> entry_hash entry
                 then [finding_at (bndl @ ''/'' @ entry_path entry) ''SHA256SUMS hash mismatch'']
                 else []))"

section \<open>Files of a bundle\<close>

definition ignoredBundleEntry :: "string \<Rightarrow> bool" where
  "ignoredBundleEntry rel =
     (if rel \<in> {''README.md'', ''SHA256SUMS'', ''SHA256SUMS.sig''} then True
      else last (split_on CHR ''/'' rel) = ''.DS_Store'')"

text \<open>
  The callback of the walk. The path relative to the bundle is what follows the bundle's own location.
\<close>

definition raw_entry :: "ospath \<Rightarrow> string \<Rightarrow> (string list \<times> finding list) walk_fn" where
  "raw_entry bundlePath bndl path entry walkErr s =
     (case walkErr of
        Some err \<Rightarrow> Inl err
      | None \<Rightarrow>
          if snd path = snd bundlePath then Inr s
          else
            let rel = join_with ''/'' (drop (length (snd bundlePath)) (snd path));
                (files, findings) = s; (info_err, entry_kind) = entry
            in if ignoredBundleEntry rel then Inr s
               else if entry_kind = Symlink
               then Inr (files, findings @ [finding_at (bndl @ ''/'' @ rel) ''raw evidence entry must not be a symlink''])
               else if entry_kind = Folder then Inr s
               else
                 (case info_err of
                    Some e \<Rightarrow>
                      Inr (files, findings @
                        [finding_at (bndl @ ''/'' @ rel) (error_text (PathError ''lstat'' (fst path) e))])
                  | None \<Rightarrow>
                      if entry_kind \<noteq> Regular
                      then Inr (files, findings @
                             [finding_at (bndl @ ''/'' @ rel) ''raw evidence entry must be a regular file''])
                      else Inr (files @ [rel], findings)))"

definition bundleRawFiles :: "node \<Rightarrow> ospath \<Rightarrow> string \<Rightarrow> gerror + string list \<times> finding list" where
  "bundleRawFiles root bundlePath bndl =
     (case WalkDir root bundlePath (raw_entry bundlePath bndl) ([], []) of
        Inl err \<Rightarrow> Inl err
      | Inr (files, findings) \<Rightarrow> Inr (sort files, findings))"

section \<open>The bundle\<close>

text \<open>From the checksum list on: the part of \<^verbatim>\<open>checkBundle\<close> that runs when the list can be used.\<close>

definition check_contents :: "node \<Rightarrow> ospath \<Rightarrow> string \<Rightarrow> checksumEntry list \<Rightarrow> finding list" where
  "check_contents root bundlePath bndl entries =
     (if entries = [] then [finding_at (bndl @ ''/SHA256SUMS'') ''contains no checksum entries''] else []) @
     concat (map (verifySHA256Entry root bundlePath bndl) entries) @
     (case bundleRawFiles root bundlePath bndl of
        Inl err \<Rightarrow> [finding_at bndl (error_text err)]
      | Inr (rawFiles, rawFindings) \<Rightarrow>
          rawFindings @
          concat (map (\<lambda>raw.
              if raw \<notin> entry_path ` set entries
              then [finding_at (bndl @ ''/'' @ raw) ''raw evidence file is not covered by SHA256SUMS''] else [])
            rawFiles))"

definition checkBundle :: "node \<Rightarrow> string \<Rightarrow> string \<Rightarrow> finding list" where
  "checkBundle root repoRoot bndl =
     (case lstatRepoRelative root repoRoot bndl bndl of
        LstatFindings pathFindings \<Rightarrow> pathFindings
      | LstatError _ err \<Rightarrow>
          if is_not_exist err then [finding_at bndl ''evidence bundle root does not exist'']
          else [finding_at bndl (error_text err)]
      | LstatFound bundlePath info \<Rightarrow>
          if info = Symlink then [finding_at bndl ''evidence bundle root must not be a symlink'']
          else if info \<noteq> Folder then [finding_at bndl ''evidence bundle root is not a directory'']
          else
            let (readmeFindings, _) = validateBundleControlFile root bundlePath bndl ''README.md'';
                sigFindings = validateOptionalBundleControlFile root bundlePath bndl ''SHA256SUMS.sig'';
                (sumFileFindings, ok) = validateBundleControlFile root bundlePath bndl ''SHA256SUMS'';
                findings = readmeFindings @ sigFindings @ sumFileFindings
            in if \<not> ok then findings
               else
                 (case parseSHA256SUMS root (sub bundlePath ''SHA256SUMS'') of
                    Inl err \<Rightarrow> findings @ [finding_at (bndl @ ''/SHA256SUMS'') (error_text err)]
                  | Inr (entries, sumFindings) \<Rightarrow>
                      findings @ sumFindings @ check_contents root bundlePath bndl entries))"

section \<open>What the walk has seen\<close>

text \<open>The places below a node without following links.\<close>

fun below :: "node \<Rightarrow> string list \<Rightarrow> node option" where
  "below n [] = Some n"
| "below (Dir r es) (p # ps) =
     (case map_of es p of None \<Rightarrow> None | Some (_, n) \<Rightarrow> below n ps)"
| "below _ (p # ps) = None"

definition rel_of :: "string list \<Rightarrow> string" where
  "rel_of ps = join_with ''/'' ps"

definition collected :: "string list \<Rightarrow> node \<Rightarrow> string list \<Rightarrow> bool" where
  "collected q n files \<longleftrightarrow>
     (\<forall>ps n'. below n ps = Some n' \<longrightarrow> kind_of n' \<noteq> Folder \<longrightarrow> q @ ps \<noteq> [] \<longrightarrow>
        \<not> ignoredBundleEntry (rel_of (q @ ps)) \<longrightarrow> kind_of n' = Regular \<and> rel_of (q @ ps) \<in> set files)"

lemma collected_mono: "collected q n files \<Longrightarrow> set files \<subseteq> set files' \<Longrightarrow> collected q n files'"
  by (force simp: collected_def)

lemma raw_entry_walkErr [simp]: "raw_entry b bndl p entry (Some err) s = Inl err"
  by (simp add: raw_entry_def)

lemma raw_entry_step:
  assumes "raw_entry b bndl p (info, k) None s = Inr s'" "snd p = snd b @ q"
  shows "set (fst s) \<subseteq> set (fst s')" "snd s' = [] \<Longrightarrow> snd s = []"
    "snd s' = [] \<Longrightarrow> q \<noteq> [] \<Longrightarrow> \<not> ignoredBundleEntry (rel_of q) \<Longrightarrow> k \<noteq> Folder \<Longrightarrow> k = Regular \<and> rel_of q \<in> set (fst s')"
  using assms by (auto simp: raw_entry_def rel_of_def Let_def split: if_splits option.splits prod.splits)

lemma collected_leaf:
  "(\<And>ps. below n ps \<noteq> None \<Longrightarrow> ps = []) \<Longrightarrow>
   (q \<noteq> [] \<Longrightarrow> \<not> ignoredBundleEntry (rel_of q) \<Longrightarrow> kind_of n \<noteq> Folder \<Longrightarrow> kind_of n = Regular \<and> rel_of q \<in> set files) \<Longrightarrow>
   collected q n files"
  by (fastforce simp: collected_def)

lemma collected_Dir:
  "\<forall>(name, info, n) \<in> set es. collected (q @ [name]) n files \<Longrightarrow> collected q (Dir r es) files"
proof (unfold collected_def, intro allI impI)
  fix ps n'
  assume es: "\<forall>(name, info, n) \<in> set es. \<forall>ps n'. below n ps = Some n' \<longrightarrow> kind_of n' \<noteq> Folder \<longrightarrow>
      (q @ [name]) @ ps \<noteq> [] \<longrightarrow> \<not> ignoredBundleEntry (rel_of ((q @ [name]) @ ps)) \<longrightarrow>
      kind_of n' = Regular \<and> rel_of ((q @ [name]) @ ps) \<in> set files"
    and b: "below (Dir r es) ps = Some n'" "kind_of n' \<noteq> Folder" and i: "\<not> ignoredBundleEntry (rel_of (q @ ps))"
  obtain p ps' info n where p: "ps = p # ps'" "map_of es p = Some (info, n)" "below n ps' = Some n'"
    using b by (cases ps) (auto split: option.splits)
  have "(p, info, n) \<in> set es" by (rule map_of_SomeD) (rule p(2))
  with es b(2) i p(3) show "kind_of n' = Regular \<and> rel_of (q @ ps) \<in> set files"
    by (fastforce simp: p(1))
qed

lemma walk_collects:
  "walkDir (raw_entry b bndl) p info n s = Inr s' \<Longrightarrow> snd p = snd b @ q \<Longrightarrow>
     set (fst s) \<subseteq> set (fst s') \<and> (snd s' = [] \<longrightarrow> snd s = [] \<and> collected q n (fst s'))"
  "walkDirs (raw_entry b bndl) p es s = Inr s' \<Longrightarrow> snd p = snd b @ q \<Longrightarrow>
     set (fst s) \<subseteq> set (fst s') \<and>
     (snd s' = [] \<longrightarrow> snd s = [] \<and> (\<forall>(name, info, n) \<in> set es. collected (q @ [name]) n (fst s')))"
proof (induction "raw_entry b bndl" p info n s and "raw_entry b bndl" p es s
    arbitrary: q s' and q s' rule: walkDir_walkDirs.induct)
  case (1 path info r es s)
  obtain s1 where s1: "raw_entry b bndl path (info, Folder) None s = Inr s1"
    using "1.prems" by (auto split: sum.splits)
  moreover from this have "r = None" "walkDirs (raw_entry b bndl) path es s1 = Inr s'"
    using "1.prems" by (auto split: option.splits)
  ultimately show ?case
    using "1.hyps"(1) [OF s1 _ _ "1.prems"(2)] raw_entry_step [OF s1 "1.prems"(2)]
    by (auto intro!: collected_Dir)
next
  case (2 path info c s)
  then show ?case
    using raw_entry_step [of b bndl path info Regular s s' q]
    by (intro conjI impI collected_leaf) (auto elim: below.elims)
next
  case (3 path info c s)
  then show ?case
    using raw_entry_step [of b bndl path info Special s s' q]
    by (intro conjI impI collected_leaf) (auto elim: below.elims)
next
  case (4 path info t s)
  then show ?case
    using raw_entry_step [of b bndl path info Symlink s s' q]
    by (intro conjI impI collected_leaf) (auto elim: below.elims)
next
  case (6 path name info n es s)
  obtain s1 where s1: "walkDir (raw_entry b bndl) (sub path name) info n s = Inr s1"
    "walkDirs (raw_entry b bndl) path es s1 = Inr s'"
    using "6.prems"(1) by (auto split: sum.splits)
  show ?case
    using "6.hyps"(1) [OF s1(1), of "q @ [name]"] "6.hyps"(2) [OF s1(1,2) "6.prems"(2)] "6.prems"(2)
    by (auto intro: collected_mono)
qed auto

lemma bundleRawFiles_collects:
  assumes "bundleRawFiles root bundlePath bndl = Inr (files, [])" "find_node root (snd bundlePath) = Inr n"
  shows "collected [] n files"
proof -
  obtain fl where "walkDir (raw_entry bundlePath bndl) bundlePath None n ([], []) = Inr (fl, [])" "files = sort fl"
    using assms by (auto simp: bundleRawFiles_def WalkDir_def split: sum.splits)
  then show ?thesis
    using walk_collects(1) [of bundlePath bndl bundlePath None n "([], [])" "(fl, [])" "[]"]
    by (auto intro: collected_mono)
qed

section \<open>What an accepted bundle holds\<close>

lemma find_node_append:
  "find_node root (xs @ ys) = (case find_node root xs of Inl e \<Rightarrow> Inl e | Inr n \<Rightarrow> find_node n ys)"
  by (induction xs arbitrary: root) (auto split: sum.split node.split option.split)

lemma node_kind_append: "find_node root xs = Inr n \<Longrightarrow> node_kind root (xs @ ys) = node_kind n ys"
  by (simp add: node_kind_def find_node_append)

lemma kind_of_Folder [simp]: "kind_of n = Folder \<longleftrightarrow> (\<exists>r es. n = Dir r es)"
  by (cases n) simp_all

lemma kind_of_Regular: "kind_of n = Regular \<longleftrightarrow> (\<exists>c. n = File c)"
  by (cases n) simp_all

lemma passes_dirs_rebase: "find_node root loc = Inr n \<Longrightarrow> passes_dirs root loc ps \<longleftrightarrow> passes_dirs n [] ps"
  by (simp add: passes_dirs_def node_kind_append)

lemma below_found:
  "ps \<noteq> [] \<Longrightarrow> kind_of n = Folder \<Longrightarrow> passes_dirs n [] ps \<Longrightarrow> find_node n ps = Inr m \<Longrightarrow> below n ps = Some m"
proof (induction ps arbitrary: n)
  case (Cons p ps)
  obtain r es where n: "n = Dir r es" using Cons.prems(2) by auto
  obtain n' where n': "map_of es p = Some (None, n')" "find_node n' ps = Inr m"
    using Cons.prems(4) by (auto simp: n split: option.splits)
  show ?case
  proof (cases "ps = []")
    case True
    then show ?thesis using n' by (simp add: n)
  next
    case False
    have step: "find_node n [p] = Inr n'" using n' by (simp add: n)
    then have "kind_of n' = Folder" "passes_dirs n' [] ps"
      using Cons.prems(3) False passes_dirs_rebase [OF step] by (simp_all add: passes_dirs_Cons node_kind_def)
    then show ?thesis using Cons.IH [OF False] n' by (simp add: n)
  qed
qed simp

text \<open>A listed file that gave no finding is a file of the bundle with the listed digest.\<close>

lemma verifySHA256Entry_ok:
  assumes ok: "verifySHA256Entry root bundlePath bndl entry = []"
    and n: "find_node root (snd bundlePath) = Inr n" "kind_of n = Folder"
  shows "\<exists>c. below n (split_on CHR ''/'' (entry_path entry)) = Some (File (Inr c)) \<and> entry_hash entry = sha256_hex c"
proof -
  let ?ps = "split_on CHR ''/'' (entry_path entry)"
  obtain full k where l: "lstatChecksumEntry root bundlePath bndl (entry_path entry) = Inr (full, k)"
    using ok checksum_parts_nonempty_findings
    by (cases "lstatChecksumEntry root bundlePath bndl (entry_path entry)")
       (auto simp: verifySHA256Entry_def lstatChecksumEntry_def)
  then have f: "snd full = snd bundlePath @ ?ps" "node_kind n ?ps = Some k" "passes_dirs n [] ?ps"
    by (auto simp: lstatChecksumEntry_def checksum_parts_found node_kind_append [OF n(1)] passes_dirs_rebase [OF n(1)])
  then obtain m where m: "find_node n ?ps = Inr m" "kind_of m = k"
    by (auto simp: node_kind_def split: sum.splits)
  obtain c where c: "k = Regular" "os_ReadFile root full = Inr c" "entry_hash entry = sha256_hex c"
    using ok l by (auto simp: verifySHA256Entry_def split: if_splits sum.splits)
  then have "m = File (Inr c)"
    using m f(1) n(1) by (auto simp: kind_of_Regular os_ReadFile_def read_node_def find_node_append split: sum.splits)
  with m c n f show ?thesis
    by (auto intro!: exI [of _ c] below_found)
qed

lemma control_file_ok:
  assumes "validateBundleControlFile root bundlePath bndl name = (fs, True)"
    and n: "find_node root (snd bundlePath) = Inr n" "kind_of n = Folder"
  shows "\<exists>c. find_node n [name] = Inr (File c) \<and> below n [name] = Some (File c)"
proof -
  have "os_Lstat root (sub bundlePath name) = Inr Regular"
    using assms(1) by (auto simp: validateBundleControlFile_def split: sum.splits if_splits)
  then have "node_kind n [name] = Some Regular"
    using node_kind_os_Lstat [of root "sub bundlePath name"] by (simp add: node_kind_append [OF n(1)])
  then obtain m where m: "find_node n [name] = Inr m" "kind_of m = Regular"
    by (auto simp: node_kind_def split: sum.splits)
  then show ?thesis
    using below_found [of "[name]" n m] n(2) by (auto simp: kind_of_Regular)
qed

lemma control_file_findings: "fst (validateBundleControlFile root bundlePath bndl name) = [] \<longleftrightarrow>
    snd (validateBundleControlFile root bundlePath bndl name)"
  by (simp add: validateBundleControlFile_def split: sum.split)

text \<open>What a bundle must be: its directory has a read-me file and a checksum list of at least one
  file, every line of the list names a file of the bundle by its digest, and every file is named.\<close>

definition named_by :: "string list \<Rightarrow> string \<Rightarrow> string" where
  "named_by ps c = sha256_hex c @ ''  '' @ rel_of ps"

definition bundle_intact :: "node \<Rightarrow> bool" where
  "bundle_intact n \<longleftrightarrow>
     (\<exists>readme sums ls.
        below n [''README.md''] = Some (File readme) \<and> below n [''SHA256SUMS''] = Some (File (Inr sums)) \<and>
        scan_lines sums = (ls, False) \<and>
        (\<exists>l \<in> set ls. TrimSpace l \<noteq> []) \<and>
        (\<forall>l \<in> set ls. TrimSpace l \<noteq> [] \<longrightarrow> (\<exists>ps c. below n ps = Some (File (Inr c)) \<and> l = named_by ps c)) \<and>
        (\<forall>ps n'. ps \<noteq> [] \<and> below n ps = Some n' \<and> kind_of n' \<noteq> Folder \<and> (\<forall>p \<in> set ps. CHR ''/'' \<notin> set p) \<and>
           \<not> ignoredBundleEntry (rel_of ps) \<longrightarrow>
           (\<exists>c. n' = File (Inr c) \<and> named_by ps c \<in> set ls)))"

lemma sha256Hex_digest: "sha256Hex (sha256_hex content)"
  using set_sha256_hex [of content] length_sha256_hex [of content] unfolding sha256Hex_def list_all_iff hex_digits_def by blast

lemma rel_of_split [simp]: "rel_of (split_on CHR ''/'' s) = s"
  by (simp add: rel_of_def join_split)

lemma split_rel_of: "ps \<noteq> [] \<Longrightarrow> \<forall>p \<in> set ps. CHR ''/'' \<notin> set p \<Longrightarrow> split_on CHR ''/'' (rel_of ps) = ps"
  by (simp add: rel_of_def split_join)

lemma check_contents_ok:
  assumes "check_contents root bundlePath bndl entries = []"
  obtains files where "entries \<noteq> []" "\<forall>e \<in> set entries. verifySHA256Entry root bundlePath bndl e = []"
    "bundleRawFiles root bundlePath bndl = Inr (files, [])" "set files \<subseteq> entry_path ` set entries"
  using assms by (auto simp: check_contents_def split: if_splits sum.splits prod.splits)

lemma intact_contents:
  assumes n: "find_node root (snd bundlePath) = Inr n" "kind_of n = Folder"
    and readme: "below n [''README.md''] = Some (File readme)" and sums: "below n [''SHA256SUMS''] = Some (File (Inr content))"
    and ls: "scan_lines content = (ls, False)" "map print_entry entries = filter (\<lambda>l. TrimSpace l \<noteq> []) ls"
    and ok: "check_contents root bundlePath bndl entries = []"
  shows "bundle_intact n"
proof -
  obtain files where c: "entries \<noteq> []" "\<forall>e \<in> set entries. verifySHA256Entry root bundlePath bndl e = []"
    "bundleRawFiles root bundlePath bndl = Inr (files, [])" "set files \<subseteq> entry_path ` set entries"
    using ok by (rule check_contents_ok)
  have lines: "{l \<in> set ls. TrimSpace l \<noteq> []} = print_entry ` set entries"
    using arg_cong [OF ls(2), of set] by simp
  have entry: "\<exists>c. below n (split_on CHR ''/'' (entry_path e)) = Some (File (Inr c)) \<and>
      print_entry e = named_by (split_on CHR ''/'' (entry_path e)) c" if "e \<in> set entries" for e
    using verifySHA256Entry_ok [OF c(2) [rule_format, OF that] n] by (auto simp: print_entry_def named_by_def)
  have named: "\<exists>ps c. below n ps = Some (File (Inr c)) \<and> l = named_by ps c" if l: "l \<in> set ls" "TrimSpace l \<noteq> []" for l
  proof -
    obtain e where "e \<in> set entries" "l = print_entry e" using lines l by blast
    then show ?thesis using entry by blast
  qed
  have listed: "\<exists>c. n' = File (Inr c) \<and> named_by ps c \<in> set ls"
    if f: "ps \<noteq> []" "below n ps = Some n'" "kind_of n' \<noteq> Folder" "\<forall>p \<in> set ps. CHR ''/'' \<notin> set p" "\<not> ignoredBundleEntry (rel_of ps)" for ps n'
  proof -
    have "rel_of ps \<in> set files"
      using bundleRawFiles_collects [OF c(3) n(1)] f by (auto simp: collected_def)
    then obtain e where e: "e \<in> set entries" "entry_path e = rel_of ps" using c(4) by auto
    obtain c where "n' = File (Inr c)" "print_entry e = named_by ps c"
      using entry [OF e(1)] f(2) by (auto simp: e(2) split_rel_of [OF f(1,4)])
    moreover have "print_entry e \<in> set ls" using lines e(1) by blast
    ultimately show ?thesis by auto
  qed
  have "\<exists>l \<in> set ls. TrimSpace l \<noteq> []"
    using lines c(1) by (cases entries) auto
  with readme sums ls(1) named listed show ?thesis
    unfolding bundle_intact_def by blast
qed

lemma lstatRepoRelative_no_findings: "lstatRepoRelative root repoRoot ref at \<noteq> LstatFindings []"
  by (simp add: lstatRepoRelative_def lstat_parts_nonempty_findings)

lemma checkBundle_found:
  assumes "checkBundle root repoRoot bndl = []"
  obtains bundlePath where "lstatRepoRelative root repoRoot bndl bndl = LstatFound bundlePath Folder"
proof (cases "lstatRepoRelative root repoRoot bndl bndl")
  case (LstatFound bundlePath k)
  with assms that show thesis by (simp add: checkBundle_def split: if_splits)
next
  case (LstatFindings fs)
  with assms lstatRepoRelative_no_findings show thesis by (simp add: checkBundle_def)
next
  case (LstatError p err)
  with assms show thesis by (simp add: checkBundle_def split: if_splits)
qed

lemma checkBundle_intact:
  assumes ok: "checkBundle root repoRoot bndl = []"
  shows "\<exists>n. find_node root (ref_parts bndl) = Inr n \<and> passes_dirs root [] (ref_parts bndl) \<and> bundle_intact n"
proof -
  obtain bp where l: "lstatRepoRelative root repoRoot bndl bndl = LstatFound bp Folder"
    using ok by (rule checkBundle_found)
  then have loc: "snd bp = ref_parts bndl" "passes_dirs root [] (ref_parts bndl)" "node_kind root (ref_parts bndl) = Some Folder"
    by (auto simp: lstatRepoRelative_found)
  then obtain n where n: "find_node root (snd bp) = Inr n" "kind_of n = Folder"
    by (auto simp: node_kind_def split: sum.splits)
  have r: "validateBundleControlFile root bp bndl ''README.md'' = ([], True)"
    using ok control_file_findings [of root bp bndl "''README.md''"]
    by (auto simp: checkBundle_def l case_prod_beta Let_def prod_eq_iff split: if_splits sum.splits)
  have s: "validateBundleControlFile root bp bndl ''SHA256SUMS'' = ([], True)"
    using ok control_file_findings [of root bp bndl "''SHA256SUMS''"]
    by (auto simp: checkBundle_def l case_prod_beta Let_def prod_eq_iff split: if_splits sum.splits)
  obtain entries where e: "parseSHA256SUMS root (sub bp ''SHA256SUMS'') = Inr (entries, [])"
    "check_contents root bp bndl entries = []"
    using ok s by (auto simp: checkBundle_def l case_prod_beta Let_def split: if_splits sum.splits)
  obtain sums where f: "find_node n [''SHA256SUMS''] = Inr (File sums)" "below n [''SHA256SUMS''] = Some (File sums)"
    using control_file_ok [OF s n] by auto
  obtain content ls where c: "os_ReadFile root (sub bp ''SHA256SUMS'') = Inr content" "scan_lines content = (ls, False)"
    "map print_entry entries = filter (\<lambda>l. TrimSpace l \<noteq> []) ls"
    using e(1) by (auto simp: parse_sums_iff)
  have "sums = Inr content"
    using c(1) f(1) n(1) by (auto simp: os_ReadFile_def find_node_append read_node_def split: sum.splits)
  then have "bundle_intact n"
    using intact_contents [OF n _ _ c(2,3) e(2)] control_file_ok [OF r n] f(2) by auto
  with n(1) loc show ?thesis by auto
qed

end
