(* ===== verification/Evidence_Repo.thy ===== *)
theory Evidence_Repo
  imports Evidence_Bundle "HOL-Library.Multiset"
begin

text \<open>
  The evidence checker on a whole repository (\<^verbatim>\<open>tools/evidencebaseline/main.go\<close>): the references of the
  Baseline Index, the manifest of summary documents, every bndl, and the sorted report.
\<close>

section \<open>Order\<close>

definition sortedKeys :: "string list \<Rightarrow> string list" where
  "sortedKeys keys = sort (remdups keys)"

definition sortFindings :: "finding list \<Rightarrow> finding list" where
  "sortFindings findings = sort_key (\<lambda>f. (finding_path f, finding_msg f)) findings"

fun sameStringSlice :: "string list \<Rightarrow> string list \<Rightarrow> bool" where
  "sameStringSlice [] [] = True"
| "sameStringSlice (g # got) (w # want) = (if g \<noteq> w then False else sameStringSlice got want)"
| "sameStringSlice _ _ = False"

section \<open>The manifest\<close>

definition readSummaryDocsManifest :: "node \<Rightarrow> string \<Rightarrow> gerror + string list \<times> finding list" where
  "readSummaryDocsManifest root repoRoot =
     (case lstatRepoRelative root repoRoot summaryDocsManifestRef summaryDocsManifestRef of
        LstatFindings pathFindings \<Rightarrow> Inr ([], pathFindings)
      | LstatError _ err \<Rightarrow> Inl err
      | LstatFound full info \<Rightarrow>
          if info = Symlink
          then Inr ([], [finding_at summaryDocsManifestRef ''summary-doc manifest must not be a symlink''])
          else if info \<noteq> Regular
          then Inr ([], [finding_at summaryDocsManifestRef ''summary-doc manifest must be a regular file''])
          else
            (case os_ReadFile root full of
               Inl err \<Rightarrow> Inl err
             | Inr content \<Rightarrow> parseSummaryDocsManifest content))"

definition run_write_hint :: string where
  "run_write_hint = ''; run (cd tools/evidencebaseline && go run . --repo-root ../.. --write-summary-docs)''"

definition checkSummaryDocsManifest ::
    "node \<Rightarrow> (string list \<Rightarrow> string) \<Rightarrow> string \<Rightarrow> string list \<Rightarrow> finding list" where
  "checkSummaryDocsManifest root quote repoRoot want =
     (case readSummaryDocsManifest root repoRoot of
        Inl err \<Rightarrow>
          if is_not_exist err
          then [finding_at summaryDocsManifestRef (''summary-doc manifest is missing'' @ run_write_hint)]
          else [finding_at summaryDocsManifestRef (error_text err)]
      | Inr (got, findings) \<Rightarrow>
          if findings \<noteq> [] then findings
          else if \<not> sameStringSlice got want
          then [finding_at summaryDocsManifestRef
                  (''summary-doc manifest got '' @ quote got @ '', want '' @ quote want @ run_write_hint)]
          else [])"

section \<open>Bundles\<close>

definition discoverEvidenceBundles :: "node \<Rightarrow> string \<Rightarrow> gerror + string list \<times> finding list" where
  "discoverEvidenceBundles root repoRoot =
     (let rootRef = ''docs/evidence''
      in case lstatRepoRelative root repoRoot rootRef rootRef of
           LstatError _ err \<Rightarrow> Inl err
         | LstatFindings pathFindings \<Rightarrow> Inr ([], pathFindings)
         | LstatFound full info \<Rightarrow>
             if info = Symlink
             then Inr ([], [finding_at rootRef ''evidence directory must not be a symlink''])
             else if info \<noteq> Folder
             then Inr ([], [finding_at rootRef ''evidence directory is not a directory''])
             else
               (case os_ReadDir root full of
                  Inl err \<Rightarrow> Inl err
                | Inr entries \<Rightarrow>
                    Inr (sort (map (\<lambda>(name, _). ''docs/evidence/'' @ name)
                           (filter (\<lambda>(name, k). \<not> HasPrefix name ''.'' \<and> \<not> (k \<noteq> Folder \<and> k \<noteq> Symlink)) entries)),
                         [])))"

section \<open>References\<close>

text \<open>The loop over the raw references of a row: its findings and the bundles it refers to.\<close>

fun raw_refs :: "node \<Rightarrow> string \<Rightarrow> string \<Rightarrow> string list \<Rightarrow> gerror + finding list \<times> string list" where
  "raw_refs root repoRoot at [] = Inr ([], [])"
| "raw_refs root repoRoot at (ref # refs) =
     (case
        (case lstatRepoRelative root repoRoot ref at of
           LstatFindings pathFindings \<Rightarrow> Inr (pathFindings, [])
         | LstatError _ err \<Rightarrow>
             if is_not_exist err
             then Inr ([finding_at at (''referenced raw artifact does not exist: '' @ ref)], [])
             else Inl err
         | LstatFound _ info \<Rightarrow>
             Inr (if info = Symlink
                  then [finding_at at (''referenced raw artifact is a symlink: '' @ ref)] else [],
                  if evidenceBundleForRef ref info \<noteq> [] then [evidenceBundleForRef ref info] else [])) of
        Inl err \<Rightarrow> Inl err
      | Inr (fs, bs) \<Rightarrow>
          (case raw_refs root repoRoot at refs of
             Inl err \<Rightarrow> Inl err
           | Inr (findings, bundles) \<Rightarrow> Inr (fs @ findings, bs @ bundles)))"

fun doc_refs :: "node \<Rightarrow> string \<Rightarrow> string \<Rightarrow> string list \<Rightarrow> gerror + finding list" where
  "doc_refs root repoRoot at [] = Inr []"
| "doc_refs root repoRoot at (ref # refs) =
     (case
        (case lstatRepoRelative root repoRoot ref at of
           LstatFindings pathFindings \<Rightarrow> Inr pathFindings
         | LstatError _ err \<Rightarrow>
             if is_not_exist err
             then Inr [finding_at at (''referenced summary doc does not exist: '' @ ref)]
             else Inl err
         | LstatFound _ info \<Rightarrow>
             if info = Symlink then Inr [finding_at at (''referenced summary doc is a symlink: '' @ ref)]
             else if info = Folder then Inr [finding_at at (''referenced summary doc is a directory: '' @ ref)]
             else Inr []) of
        Inl err \<Rightarrow> Inl err
      | Inr fs \<Rightarrow>
          (case doc_refs root repoRoot at refs of
             Inl err \<Rightarrow> Inl err
           | Inr findings \<Rightarrow> Inr (fs @ findings)))"

text \<open>
  The loop over the rows: findings, referenced bundles and summary documents, the keys of the two
  maps in the order they are set.
\<close>

fun check_rows :: "node \<Rightarrow> string \<Rightarrow> string \<Rightarrow> baselineRow list
    \<Rightarrow> gerror + finding list \<times> string list \<times> string list" where
  "check_rows root repoRoot baselinePath [] = Inr ([], [], [])"
| "check_rows root repoRoot baselinePath (row # rows) =
     (let at = baselinePath @ '':'' @ lane row;
          (rawRefs, rawFindings) = evidenceRefs (rawCell row) at;
          (docRefs, docFindings) = summaryRefs (summaryCell row) at
      in case raw_refs root repoRoot at rawRefs of
           Inl err \<Rightarrow> Inl err
         | Inr (fs, bundles) \<Rightarrow>
             (case doc_refs root repoRoot at docRefs of
                Inl err \<Rightarrow> Inl err
              | Inr fs' \<Rightarrow>
                  (case check_rows root repoRoot baselinePath rows of
                     Inl err \<Rightarrow> Inl err
                   | Inr (findings, bs, docs) \<Rightarrow>
                       Inr (rawFindings @ fs @ docFindings @ fs' @ findings, bundles @ bs, docRefs @ docs))))"

section \<open>The repository\<close>

definition baseline_path :: "string \<Rightarrow> ospath" where
  "baseline_path repoRoot =
     (filepath_Join [repoRoot, ''docs'', ''evidence-baseline.md''], [''docs'', ''evidence-baseline.md''])"

text \<open>
  The final loop ranges over a map, in an order Go does not fix: \<^term>\<open>range_order\<close> lists the keys in the
  order taken.
\<close>

definition check_references ::
    "node \<Rightarrow> (string list \<Rightarrow> string) \<Rightarrow> (string list \<Rightarrow> string list) \<Rightarrow> string \<Rightarrow> string
      \<Rightarrow> baselineRow list \<Rightarrow> finding list \<Rightarrow> gerror + finding list" where
  "check_references root quote range_order repoRoot baselinePath rows findings =
     (case check_rows root repoRoot baselinePath rows of
        Inl err \<Rightarrow> Inl err
      | Inr (rowFindings, bundles, docs) \<Rightarrow>
          (let manifestFindings = checkSummaryDocsManifest root quote repoRoot (sortedKeys docs)
           in case discoverEvidenceBundles root repoRoot of
                Inl err \<Rightarrow> Inl err
              | Inr (allBundles, bundleFindings) \<Rightarrow>
                  Inr (sortFindings (findings @ rowFindings @ manifestFindings @ bundleFindings @
                         concat (map (checkBundle root repoRoot) (range_order (remdups (bundles @ allBundles))))))))"

definition checkRepo ::
    "node \<Rightarrow> (string list \<Rightarrow> string) \<Rightarrow> (string list \<Rightarrow> string list) \<Rightarrow> string \<Rightarrow> gerror + finding list" where
  "checkRepo root quote range_order repoRoot =
     (case lstatRepoRelative root repoRoot ''docs/evidence-baseline.md'' ''docs/evidence-baseline.md'' of
        LstatError _ err \<Rightarrow> Inl err
      | LstatFindings pathFindings \<Rightarrow> Inr pathFindings
      | LstatFound _ info \<Rightarrow>
          if info = Symlink
          then Inr [finding_at ''docs/evidence-baseline.md'' ''evidence baseline file must not be a symlink'']
          else if info \<noteq> Regular
          then Inr [finding_at ''docs/evidence-baseline.md'' ''evidence baseline file must be a regular file'']
          else
            (case parseBaselineIndex root quote (baseline_path repoRoot) of
               Inl err \<Rightarrow> Inl err
             | Inr (rows, findings) \<Rightarrow>
                 check_references root quote range_order repoRoot (fst (baseline_path repoRoot)) rows findings))"

fun summary_rows :: "string \<Rightarrow> baselineRow list \<Rightarrow> string list \<times> finding list" where
  "summary_rows baselinePath [] = ([], [])"
| "summary_rows baselinePath (row # rows) =
     (let (refs, refFindings) = summaryRefs (summaryCell row) (baselinePath @ '':'' @ lane row);
          (docs, findings) = summary_rows baselinePath rows
      in (refs @ docs, refFindings @ findings))"

definition summaryDocsFromBaseline ::
    "node \<Rightarrow> (string list \<Rightarrow> string) \<Rightarrow> string \<Rightarrow> gerror + string list \<times> finding list" where
  "summaryDocsFromBaseline root quote repoRoot =
     (case parseBaselineIndex root quote (baseline_path repoRoot) of
        Inl err \<Rightarrow> Inl err
      | Inr (rows, findings) \<Rightarrow>
          (let (docs, refFindings) = summary_rows (fst (baseline_path repoRoot)) rows
           in Inr (sortedKeys docs, findings @ refFindings)))"

section \<open>The order of the report\<close>

lemma sortFindings_Nil [simp]: "sortFindings fs = [] \<longleftrightarrow> fs = []"
  by (metis length_0_conv length_sort sortFindings_def)

lemma sortFindings_mset: "mset xs = mset ys \<Longrightarrow> sortFindings xs = sortFindings ys"
  unfolding sortFindings_def
  by (rule sort_key_inj_key_eq) (auto simp: inj_on_def intro: finding.equality)

lemma mset_concat_map: "mset xs = mset ys \<Longrightarrow> mset (concat (map f xs)) = mset (concat (map f ys))"
proof -
  have "mset (concat (map f zs)) = \<Sum>\<^sub># (image_mset (\<lambda>z. mset (f z)) (mset zs))" for zs
    by (induction zs) simp_all
  then show "mset xs = mset ys \<Longrightarrow> ?thesis" by simp
qed

text \<open>
  The report does not depend on the order in which Go ranges over the map of bundles: two orders that
  list the same keys give the same sorted findings, or the same error.
\<close>

theorem checkRepo_deterministic:
  assumes "\<And>keys. mset (order1 keys) = mset (order2 keys)"
  shows "checkRepo root quote order1 repoRoot = checkRepo root quote order2 repoRoot"
proof -
  have eq: "check_references root quote order1 repoRoot = check_references root quote order2 repoRoot"
    by (auto simp: fun_eq_iff check_references_def Let_def split: sum.split intro!: sortFindings_mset mset_concat_map assms)
  show ?thesis unfolding checkRepo_def eq ..
qed

theorem checkRepo_deterministic_witness:
  "checkRepo (Dir None []) concat rev ''../..'' = checkRepo (Dir None []) concat sort ''../..''"
  by (rule checkRepo_deterministic) simp

section \<open>What an accepted repository holds\<close>

lemma lstat_ok:
  "lstatRepoRelative root repoRoot ref at = LstatFound full k \<Longrightarrow> node_kind root (ref_parts ref) = Some k"
  by (simp add: lstatRepoRelative_found)

lemma raw_refs_ok:
  "raw_refs root repoRoot at refs = Inr ([], bundles) \<Longrightarrow> ref \<in> set refs \<Longrightarrow>
     \<exists>k. node_kind root (ref_parts ref) = Some k \<and> k \<noteq> Symlink \<and>
       (evidenceBundleForRef ref k \<noteq> [] \<longrightarrow> evidenceBundleForRef ref k \<in> set bundles)"
proof (induction refs arbitrary: bundles)
  case (Cons r refs)
  then show ?case
    using lstatRepoRelative_no_findings [of root repoRoot r at]
    by (fastforce split: sum.splits lstat_result.splits if_splits dest: lstat_ok)
qed simp

lemma doc_refs_ok:
  "doc_refs root repoRoot at refs = Inr [] \<Longrightarrow> ref \<in> set refs \<Longrightarrow>
     \<exists>k. node_kind root (ref_parts ref) = Some k \<and> k \<noteq> Symlink \<and> k \<noteq> Folder"
proof (induction refs)
  case (Cons r refs)
  then show ?case
    using lstatRepoRelative_no_findings [of root repoRoot r at]
    by (fastforce split: sum.splits lstat_result.splits if_splits dest: lstat_ok)
qed simp

definition row_at :: "string \<Rightarrow> baselineRow \<Rightarrow> string" where
  "row_at baselinePath row = baselinePath @ '':'' @ lane row"

definition row_docs :: "string \<Rightarrow> baselineRow \<Rightarrow> string list" where
  "row_docs baselinePath row = fst (summaryRefs (summaryCell row) (row_at baselinePath row))"

definition row_artifacts :: "string \<Rightarrow> baselineRow \<Rightarrow> string list" where
  "row_artifacts baselinePath row = fst (evidenceRefs (rawCell row) (row_at baselinePath row))"

lemma check_rows_ok:
  "check_rows root repoRoot b rows = Inr ([], bundles, docs) \<Longrightarrow>
     docs = concat (map (row_docs b) rows) \<and>
     (\<forall>row \<in> set rows.
        (\<forall>ref \<in> set (row_docs b row). \<exists>k. node_kind root (ref_parts ref) = Some k \<and> k \<noteq> Symlink \<and> k \<noteq> Folder) \<and>
        (\<forall>ref \<in> set (row_artifacts b row). \<exists>k. node_kind root (ref_parts ref) = Some k \<and> k \<noteq> Symlink \<and>
           (evidenceBundleForRef ref k \<noteq> [] \<longrightarrow> evidenceBundleForRef ref k \<in> set bundles)))"
proof (induction rows arbitrary: bundles docs)
  case (Cons row rows)
  obtain bs1 where r: "raw_refs root repoRoot (row_at b row) (row_artifacts b row) = Inr ([], bs1)"
    and "doc_refs root repoRoot (row_at b row) (row_docs b row) = Inr []"
    and "\<exists>bs docs'. check_rows root repoRoot b rows = Inr ([], bs, docs') \<and> bundles = bs1 @ bs \<and> docs = row_docs b row @ docs'"
    using Cons.prems
    by (auto simp: Let_def case_prod_beta row_at_def row_docs_def row_artifacts_def split: sum.splits)
  then obtain bs docs' where d: "doc_refs root repoRoot (row_at b row) (row_docs b row) = Inr []"
    and rest: "check_rows root repoRoot b rows = Inr ([], bs, docs')" "bundles = bs1 @ bs" "docs = row_docs b row @ docs'"
    by blast
  have "\<exists>k. node_kind root (ref_parts ref) = Some k \<and> k \<noteq> Symlink \<and>
      (evidenceBundleForRef ref k \<noteq> [] \<longrightarrow> evidenceBundleForRef ref k \<in> set bundles)" if "ref \<in> set (row_artifacts b row)" for ref
    using raw_refs_ok [OF r that] rest(2) by auto
  then show ?case
    using Cons.IH [OF rest(1)] doc_refs_ok [OF d] rest(2,3) by fastforce
qed simp

lemma sameStringSlice_eq [simp]: "sameStringSlice got want \<longleftrightarrow> got = want"
  by (induction got want rule: sameStringSlice.induct) simp_all

lemma manifest_ok:
  "checkSummaryDocsManifest root quote repoRoot want = [] \<longleftrightarrow> readSummaryDocsManifest root repoRoot = Inr (want, [])"
  by (auto simp: checkSummaryDocsManifest_def split: sum.splits if_splits)

lemma discovered:
  assumes "discoverEvidenceBundles root repoRoot = Inr (bundles, [])"
  obtains r es where "find_node root [''docs'', ''evidence''] = Inr (Dir r es)"
    "\<And>name info n. (name, info, n) \<in> set es \<Longrightarrow> \<not> HasPrefix name ''.'' \<Longrightarrow> kind_of n \<in> {Folder, Symlink} \<Longrightarrow>
        ''docs/evidence/'' @ name \<in> set bundles"
proof -
  have parts: "ref_parts ''docs/evidence'' = [''docs'', ''evidence'']" by code_simp
  obtain full where l: "lstatRepoRelative root repoRoot ''docs/evidence'' ''docs/evidence'' = LstatFound full Folder"
    using assms lstatRepoRelative_no_findings [of root repoRoot "''docs/evidence''" "''docs/evidence''"]
    by (auto simp: discoverEvidenceBundles_def Let_def split: lstat_result.splits if_splits)
  then have "snd full = [''docs'', ''evidence'']" "node_kind root [''docs'', ''evidence''] = Some Folder"
    by (auto simp: lstatRepoRelative_found parts)
  then obtain r es where d: "find_node root [''docs'', ''evidence''] = Inr (Dir r es)" "snd full = [''docs'', ''evidence'']"
    by (auto simp: node_kind_def split: sum.splits)
  let ?entries = "map (\<lambda>(name, _, n). (name, kind_of n)) es"
  have read: "os_ReadDir root full = (case r of None \<Rightarrow> Inr ?entries | Some (oper, e) \<Rightarrow> Inl (PathError oper (fst full) e))"
    unfolding os_ReadDir_def d by (simp split: option.split)
  have b: "bundles = sort (map (\<lambda>(name, _). ''docs/evidence/'' @ name)
      (filter (\<lambda>(name, k). \<not> HasPrefix name ''.'' \<and> \<not> (k \<noteq> Folder \<and> k \<noteq> Symlink)) ?entries))"
  proof (cases r)
    case None
    then show ?thesis using assms by (simp add: discoverEvidenceBundles_def Let_def l read)
  next
    case (Some x)
    then show ?thesis using assms by (cases x) (simp add: discoverEvidenceBundles_def Let_def l read)
  qed
  have "''docs/evidence/'' @ name \<in> set bundles"
    if e: "(name, info, n) \<in> set es" "\<not> HasPrefix name ''.''" "kind_of n \<in> {Folder, Symlink}" for name info n
  proof -
    have "(name, kind_of n) \<in> set ?entries"
      using e(1) by force
    then have "(name, kind_of n) \<in> set (filter (\<lambda>(name, k). \<not> HasPrefix name ''.'' \<and> \<not> (k \<noteq> Folder \<and> k \<noteq> Symlink)) ?entries)"
      using e(2,3) by auto
    then show ?thesis unfolding b set_sort set_map by (rule rev_image_eqI) simp
  qed
  with d(1) that show thesis by blast
qed

text \<open>The reference of a bundle found by its directory entry.\<close>

lemma ref_parts_bundle:
  assumes "name \<noteq> []" "CHR ''/'' \<notin> set name"
  shows "ref_parts (''docs/evidence/'' @ name) = [''docs'', ''evidence'', name]"
proof -
  have "TrimSuffix (''docs/evidence/'' @ name) ''/'' = ''docs/evidence/'' @ name"
    using assms by (cases name rule: rev_cases) (auto simp: TrimSuffix_def HasSuffix_iff)
  then show ?thesis
    using assms by (simp add: ref_parts_def split_on_id)
qed

lemma checkRepo_findings_free:
  assumes "checkRepo root quote range_order repoRoot = Inr []"
  obtains rows bundles allBundles where
    "node_kind root [''docs'', ''evidence-baseline.md''] = Some Regular"
    "parseBaselineIndex root quote (baseline_path repoRoot) = Inr (rows, [])"
    "check_rows root repoRoot (fst (baseline_path repoRoot)) rows =
       Inr ([], bundles, concat (map (row_docs (fst (baseline_path repoRoot))) rows))"
    "readSummaryDocsManifest root repoRoot = Inr (sortedKeys (concat (map (row_docs (fst (baseline_path repoRoot))) rows)), [])"
    "discoverEvidenceBundles root repoRoot = Inr (allBundles, [])"
    "\<forall>b \<in> set (range_order (remdups (bundles @ allBundles))). checkBundle root repoRoot b = []"
proof -
  have parts: "ref_parts ''docs/evidence-baseline.md'' = [''docs'', ''evidence-baseline.md'']" by code_simp
  obtain full where l: "lstatRepoRelative root repoRoot ''docs/evidence-baseline.md'' ''docs/evidence-baseline.md'' = LstatFound full Regular"
    using assms lstatRepoRelative_no_findings [of root repoRoot "''docs/evidence-baseline.md''" "''docs/evidence-baseline.md''"]
    by (auto simp: checkRepo_def split: lstat_result.splits if_splits)
  obtain rows fs where p: "parseBaselineIndex root quote (baseline_path repoRoot) = Inr (rows, fs)"
    "check_references root quote range_order repoRoot (fst (baseline_path repoRoot)) rows fs = Inr []"
    using assms by (auto simp: checkRepo_def l split: sum.splits)
  obtain bundles docs allBundles where
    c: "check_rows root repoRoot (fst (baseline_path repoRoot)) rows = Inr ([], bundles, docs)" "fs = []"
      "checkSummaryDocsManifest root quote repoRoot (sortedKeys docs) = []"
      "discoverEvidenceBundles root repoRoot = Inr (allBundles, [])"
      "\<forall>b \<in> set (range_order (remdups (bundles @ allBundles))). checkBundle root repoRoot b = []"
    using p(2) by (auto simp: check_references_def Let_def split: sum.splits)
  show thesis
    using that [of rows bundles allBundles] lstat_ok [OF l] p(1) c check_rows_ok [OF c(1)]
    by (simp add: parts manifest_ok)
qed


end
