(* ===== verification/Evidence_Write.thy ===== *)
theory Evidence_Write
  imports Evidence_Repo
begin

text \<open>
  Rewriting the manifest of summary documents through a temporary file, and the command line of the
  evidence checker (\<^verbatim>\<open>tools/evidencebaseline/main.go\<close>).
\<close>

section \<open>Writing the manifest\<close>

text \<open>The directory entries of a tree change by putting a name in its place, and removing one.\<close>

fun put_entry :: "string \<Rightarrow> node \<Rightarrow> (string \<times> errno option \<times> node) list \<Rightarrow> (string \<times> errno option \<times> node) list" where
  "put_entry name n [] = [(name, None, n)]"
| "put_entry name n (e # es) =
     (if fst e = name then (name, None, n) # es
      else if name < fst e then (name, None, n) # e # es
      else e # put_entry name n es)"

definition remove_entry :: "string \<Rightarrow> (string \<times> errno option \<times> node) list \<Rightarrow> (string \<times> errno option \<times> node) list" where
  "remove_entry name es = filter (\<lambda>e. fst e \<noteq> name) es"

text \<open>The change is made to the directory a location leads to, links of the root followed.\<close>

fun at_root :: "(node \<Rightarrow> node) \<Rightarrow> node \<Rightarrow> node" where
  "at_root f (Link (Inr n)) = Link (Inr (at_root f n))"
| "at_root f n = f n"

definition in_docs :: "((string \<times> errno option \<times> node) list \<Rightarrow> (string \<times> errno option \<times> node) list) \<Rightarrow> node \<Rightarrow> node" where
  "in_docs f =
     at_root (\<lambda>n. case n of
        Dir r es \<Rightarrow> Dir r (map (\<lambda>(m, e, d). (m, e, if m = ''docs'' then (case d of Dir r' es' \<Rightarrow> Dir r' (f es') | _ \<Rightarrow> d) else d)) es)
      | _ \<Rightarrow> n)"

definition summaryDocsManifestWritePath :: "node \<Rightarrow> string \<Rightarrow> gerror + ospath" where
  "summaryDocsManifestWritePath root repoRoot =
     (case lstatRepoRelative root repoRoot summaryDocsManifestRef summaryDocsManifestRef of
        LstatFindings pathFindings \<Rightarrow> Inl (ErrorString (finding_msg (pathFindings ! 0)))
      | LstatError full err \<Rightarrow> if is_not_exist err then Inr full else Inl err
      | LstatFound full info \<Rightarrow>
          if info = Symlink then Inl (ErrorString ''summary-doc manifest must not be a symlink'')
          else if info \<noteq> Regular then Inl (ErrorString ''summary-doc manifest must be a regular file'')
          else Inr full)"

text \<open>
  How the system calls of one write turn out: the random part of the temporary file's name, what the
  write left in the file and whether it failed, and the errors of the other calls.
\<close>

record write_calls =
  call_create :: "gerror + string"
  call_write :: "(string \<times> gerror) option"
  call_chmod :: "gerror option"
  call_close :: "gerror option"
  call_rename :: "gerror option"
  call_remove :: "gerror option"

definition tmp_name :: "string \<Rightarrow> string" where
  "tmp_name r = ''.evidence-baseline-summary-docs-'' @ r @ ''.tmp''"

definition manifest_name :: string where
  "manifest_name = ''evidence-baseline-summary-docs.txt''"

text \<open>
  The calls after the temporary file exists, with the deferred removal. The result is the error and the
  tree afterwards; the file's mode is not part of the tree.
\<close>

definition finish_write :: "write_calls \<Rightarrow> string \<Rightarrow> string \<Rightarrow> node \<Rightarrow> gerror option \<times> node" where
  "finish_write calls tmp content root =
     (let cleanup = (\<lambda>t. case call_remove calls of None \<Rightarrow> in_docs (remove_entry tmp) t | Some _ \<Rightarrow> t)
      in case call_write calls of
           Some (partial, err) \<Rightarrow> (Some err, cleanup (in_docs (put_entry tmp (File (Inr partial))) root))
         | None \<Rightarrow>
             let written = in_docs (put_entry tmp (File (Inr content))) root
             in case call_chmod calls of
                  Some err \<Rightarrow> (Some err, cleanup written)
                | None \<Rightarrow>
                    (case call_close calls of
                       Some err \<Rightarrow> (Some err, cleanup written)
                     | None \<Rightarrow>
                         (case call_rename calls of
                            Some err \<Rightarrow> (Some err, cleanup written)
                          | None \<Rightarrow>
                              (None, in_docs (put_entry manifest_name (File (Inr content)) \<circ> remove_entry tmp) written))))"

definition writeSummaryDocsManifest ::
    "write_calls \<Rightarrow> node \<Rightarrow> string \<Rightarrow> string list \<Rightarrow> gerror option \<times> node" where
  "writeSummaryDocsManifest calls root repoRoot refs =
     (let content = manifest_content refs
      in case summaryDocsManifestWritePath root repoRoot of
           Inl err \<Rightarrow> (Some err, root)
         | Inr path \<Rightarrow>
             (case call_create calls of
                Inl err \<Rightarrow> (Some err, root)
              | Inr r \<Rightarrow>
                  finish_write calls (tmp_name r) content
                    (in_docs (put_entry (tmp_name r) (File (Inr []))) root)))"

section \<open>The command\<close>

record flags =
  flag_repo_root :: string
  flag_list :: bool
  flag_write :: bool

record outcome =
  exit_code :: nat
  std_out :: "string list"
  std_err :: "string list"
  tree_after :: node

definition failed_msg :: "string \<Rightarrow> string" where
  "failed_msg s = ''evidence baseline checker failed: '' @ s"

definition print_finding :: "finding \<Rightarrow> string" where
  "print_finding f = finding_path f @ '': '' @ finding_msg f"

definition exit_failed :: "node \<Rightarrow> string \<Rightarrow> outcome" where
  "exit_failed root s = \<lparr>exit_code = 2, std_out = [], std_err = [failed_msg s], tree_after = root\<rparr>"

definition exit_findings :: "node \<Rightarrow> finding list \<Rightarrow> outcome" where
  "exit_findings root fs =
     \<lparr>exit_code = 1, std_out = [], std_err = map print_finding (sortFindings fs), tree_after = root\<rparr>"

definition exit_ok :: "node \<Rightarrow> string list \<Rightarrow> outcome" where
  "exit_ok root out_lines = \<lparr>exit_code = 0, std_out = out_lines, std_err = [], tree_after = root\<rparr>"

definition evidence_main ::
    "(string list \<Rightarrow> string) \<Rightarrow> (string list \<Rightarrow> string list) \<Rightarrow> write_calls \<Rightarrow> flags \<Rightarrow> node \<Rightarrow> outcome" where
  "evidence_main quote range_order calls fl root =
     (let repoRoot = flag_repo_root fl
      in if flag_list fl \<and> flag_write fl
         then exit_failed root ''--list-summary-docs and --write-summary-docs are mutually exclusive''
         else if flag_list fl \<or> flag_write fl then
           (case summaryDocsFromBaseline root quote repoRoot of
              Inl err \<Rightarrow> exit_failed root (error_text err)
            | Inr (refs, findings) \<Rightarrow>
                if findings \<noteq> [] then exit_findings root findings
                else if flag_write fl then
                  (case writeSummaryDocsManifest calls root repoRoot refs of
                     (Some err, root') \<Rightarrow> exit_failed root' (error_text err)
                   | (None, root') \<Rightarrow> exit_ok root' [])
                else exit_ok root refs)
         else
           (case checkRepo root quote range_order repoRoot of
              Inl err \<Rightarrow> exit_failed root (error_text err)
            | Inr findings \<Rightarrow>
                if findings \<noteq> [] then exit_findings root findings
                else exit_ok root [''evidence baseline checker passed'']))"

section \<open>Changed directories\<close>

lemma map_of_put_entry: "map_of (put_entry name n es) = (map_of es)(name \<mapsto> (None, n))"
  by (induction es) (auto simp: fun_eq_iff)

lemma map_of_remove_entry: "map_of (remove_entry name es) = (map_of es)(name := None)"
  by (induction es) (auto simp: fun_eq_iff remove_entry_def)

lemmas map_of_entries = map_of_put_entry map_of_remove_entry

definition change_docs :: "((string \<times> errno option \<times> node) list \<Rightarrow> (string \<times> errno option \<times> node) list) \<Rightarrow> node \<Rightarrow> node" where
  "change_docs f d = (case d of Dir r es \<Rightarrow> Dir r (f es) | _ \<Rightarrow> d)"

lemma map_of_change:
  "map_of (map (\<lambda>(m, e, d). (m, e, if m = k then g d else d)) es) x =
     map_option (\<lambda>(e, d). (e, if x = k then g d else d)) (map_of es x)"
  by (induction es) auto

lemma resolve_not_link: "resolve n = Inr m \<Longrightarrow> kind_of m \<noteq> Symlink"
  by (induction n rule: resolve.induct) auto

lemma resolve_in_docs:
  "resolve (in_docs f root) = (case resolve root of
     Inr (Dir r es) \<Rightarrow> Inr (Dir r (map (\<lambda>(m, e, d). (m, e, if m = ''docs'' then change_docs f d else d)) es))
   | x \<Rightarrow> x)"
  unfolding in_docs_def change_docs_def by (induction root rule: resolve.induct) (auto split: node.split)

lemma find_other: "d \<noteq> ''docs'' \<Longrightarrow> find_node (in_docs f root) (d # ps) = find_node root (d # ps)"
  by (auto simp: resolve_in_docs map_of_change split: sum.split node.split option.split)

lemma find_docs:
  assumes "find_node root [''docs''] = Inr (Dir r es)"
  shows "find_node (in_docs f root) (''docs'' # ps) = find_node (Dir r (f es)) ps"
    "find_node root (''docs'' # ps) = find_node (Dir r es) ps"
proof -
  obtain r0 es0 where "resolve root = Inr (Dir r0 es0)" "map_of es0 ''docs'' = Some (None, Dir r es)"
    using assms by (auto split: sum.splits node.splits option.splits)
  then show "find_node (in_docs f root) (''docs'' # ps) = find_node (Dir r (f es)) ps"
    "find_node root (''docs'' # ps) = find_node (Dir r es) ps"
    by (simp_all add: resolve_in_docs map_of_change change_docs_def)
qed

lemma docs_in_docs:
  "find_node root [''docs''] = Inr (Dir r es) \<Longrightarrow> find_node (in_docs f root) [''docs''] = Inr (Dir r (f es))"
  using find_docs(1) [of root r es f "[]"] by simp

section \<open>What a write leaves\<close>

text \<open>
  The tree after a write, on the entries of \<^verbatim>\<open>docs\<close>: nothing changes but the temporary file and, when the
  write succeeds, the manifest.
\<close>

definition written_entries ::
    "write_calls \<Rightarrow> string \<Rightarrow> (string \<times> errno option \<times> node) list \<Rightarrow> gerror option \<times> (string \<times> errno option \<times> node) list" where
  "written_entries calls content es =
     (case call_create calls of
        Inl err \<Rightarrow> (Some err, es)
      | Inr r \<Rightarrow>
          let tmp = tmp_name r;
              cleanup = (\<lambda>es. case call_remove calls of None \<Rightarrow> remove_entry tmp es | Some _ \<Rightarrow> es);
              created = put_entry tmp (File (Inr [])) es;
              written = put_entry tmp (File (Inr content)) created
          in case call_write calls of
               Some (partial, err) \<Rightarrow> (Some err, cleanup (put_entry tmp (File (Inr partial)) created))
             | None \<Rightarrow>
                 (case call_chmod calls of
                    Some err \<Rightarrow> (Some err, cleanup written)
                  | None \<Rightarrow>
                      (case call_close calls of
                         Some err \<Rightarrow> (Some err, cleanup written)
                       | None \<Rightarrow>
                           (case call_rename calls of
                              Some err \<Rightarrow> (Some err, cleanup written)
                            | None \<Rightarrow> (None, put_entry manifest_name (File (Inr content)) (remove_entry tmp written))))))"

lemma manifest_parts: "ref_parts summaryDocsManifestRef = [''docs'', manifest_name]" "safeRepoRelativeRef summaryDocsManifestRef"
  by code_simp+

lemma manifest_name_neq [simp]: "tmp_name r \<noteq> manifest_name" "manifest_name \<noteq> tmp_name r"
  "tmp_name r \<noteq> ''evidence-baseline.md''" "manifest_name \<noteq> ''evidence-baseline.md''"
  by (simp_all add: tmp_name_def manifest_name_def)

lemma written_entries_lookup:
  assumes "written_entries calls content es = (err, es')"
  shows "map_of es' manifest_name = (if err = None then Some (None, File (Inr content)) else map_of es manifest_name)"
    "name \<noteq> manifest_name \<Longrightarrow> (\<And>r. call_create calls = Inr r \<Longrightarrow> name \<noteq> tmp_name r) \<Longrightarrow> map_of es' name = map_of es name"
    "call_create calls = Inr r \<Longrightarrow> call_remove calls = None \<Longrightarrow> map_of es' (tmp_name r) = None"
  using assms
  by (auto simp: written_entries_def Let_def map_of_entries split: sum.splits option.splits prod.splits)

lemma write_path_docs:
  assumes "summaryDocsManifestWritePath root repoRoot = Inr p"
  obtains r es where "find_node root [''docs''] = Inr (Dir r es)"
proof -
  let ?l = "lstatRepoRelative root repoRoot summaryDocsManifestRef summaryDocsManifestRef"
  have "node_kind root [''docs''] = Some Folder"
  proof (cases ?l)
    case (LstatFound full k)
    then show ?thesis
      by (simp add: lstatRepoRelative_found manifest_parts passes_dirs_Cons)
  next
    case (LstatError full err)
    then have "is_not_exist err"
      using assms by (simp add: summaryDocsManifestWritePath_def split: if_splits)
    then show ?thesis
      using LstatError manifest_parts node_kind_os_Lstat [of root "sub (repoRoot, []) ''docs''"]
      by (simp add: lstatRepoRelative_def Let_def split: sum.splits if_splits flip: ref_parts_def)
  qed (use assms in \<open>simp add: summaryDocsManifestWritePath_def\<close>)
  with that show thesis
    by (auto simp: node_kind_def split: sum.splits)
qed

lemma finish_write_entries:
  assumes docs: "find_node root [''docs''] = Inr (Dir r es)" and c: "call_create calls = Inr rnd"
    and run: "finish_write calls (tmp_name rnd) content (in_docs (put_entry (tmp_name rnd) (File (Inr []))) root) = (err, root')"
  shows "\<exists>es'. written_entries calls content es = (err, es') \<and>
    (\<forall>ps. find_node root' (''docs'' # ps) = find_node (Dir r es') ps) \<and>
    (\<forall>d ps. d \<noteq> ''docs'' \<longrightarrow> find_node root' (d # ps) = find_node root (d # ps))"
proof -
  define W where "W = finish_write calls (tmp_name rnd) content (in_docs (put_entry (tmp_name rnd) (File (Inr []))) root)"
  note find = find_docs(1) [OF docs_in_docs [OF docs_in_docs [OF docs]]] find_docs(1) [OF docs_in_docs [OF docs]]
  have "fst (written_entries calls content es) = fst W \<and>
      (\<forall>ps. find_node (snd W) (''docs'' # ps) = find_node (Dir r (snd (written_entries calls content es))) ps) \<and>
      (\<forall>d ps. d \<noteq> ''docs'' \<longrightarrow> find_node (snd W) (d # ps) = find_node root (d # ps))"
    by (simp add: W_def finish_write_def written_entries_def c Let_def find find_other
        del: find_node.simps split: option.split)
  then show ?thesis
    using run by (auto simp: W_def [symmetric] intro!: exI [of _ "snd (written_entries calls content es)"] simp: prod_eq_iff simp del: find_node.simps)
qed

lemma write_entries:
  assumes "writeSummaryDocsManifest calls root repoRoot refs = (err, root')"
  shows "err \<noteq> None \<and> root' = root \<or>
    (\<exists>r es es'. find_node root [''docs''] = Inr (Dir r es) \<and>
       written_entries calls (manifest_content refs) es = (err, es') \<and>
       (\<forall>ps. find_node root' (''docs'' # ps) = find_node (Dir r es') ps) \<and>
       (\<forall>d ps. d \<noteq> ''docs'' \<longrightarrow> find_node root' (d # ps) = find_node root (d # ps)))"
proof (cases "summaryDocsManifestWritePath root repoRoot")
  case (Inr p)
  obtain r es where docs: "find_node root [''docs''] = Inr (Dir r es)"
    using Inr by (rule write_path_docs)
  show ?thesis
  proof (cases "call_create calls")
    case (Inr rnd)
    then show ?thesis
      using finish_write_entries [OF docs Inr] assms docs \<open>summaryDocsManifestWritePath root repoRoot = Inr p\<close>
      by (simp add: writeSummaryDocsManifest_def Let_def del: find_node.simps)
  qed (use assms Inr in \<open>auto simp: writeSummaryDocsManifest_def Let_def\<close>)
qed (use assms in \<open>auto simp: writeSummaryDocsManifest_def Let_def\<close>)

lemma find_entry: "find_node (Dir r es) (name # ps) =
    (case map_of es name of None \<Rightarrow> Inl ENOENT | Some (Some e, _) \<Rightarrow> Inl e | Some (None, n) \<Rightarrow> find_node n ps)"
  by simp

lemma write_manifest:
  assumes run: "writeSummaryDocsManifest calls root repoRoot refs = (err, root')"
  shows "find_node root' [''docs'', manifest_name] =
    (if err = None then Inr (File (Inr (manifest_content refs))) else find_node root [''docs'', manifest_name])"
  using write_entries [OF run]
  by (elim disjE exE conjE) (simp_all add: find_docs(2) find_entry written_entries_lookup(1) del: find_node.simps(2), auto)

lemma write_others:
  assumes run: "writeSummaryDocsManifest calls root repoRoot refs = (err, root')"
    and other: "d \<noteq> ''docs'' \<or> name \<noteq> manifest_name \<and> (\<forall>r. call_create calls = Inr r \<longrightarrow> name \<noteq> tmp_name r)"
  shows "find_node root' (d # name # ps) = find_node root (d # name # ps)"
  using write_entries [OF run]
proof (elim disjE exE conjE)
  fix r es es'
  assume w: "find_node root [''docs''] = Inr (Dir r es)" "written_entries calls (manifest_content refs) es = (err, es')"
    "\<forall>ps. find_node root' (''docs'' # ps) = find_node (Dir r es') ps"
    "\<forall>d ps. d \<noteq> ''docs'' \<longrightarrow> find_node root' (d # ps) = find_node root (d # ps)"
  show ?thesis
  proof (cases "d = ''docs''")
    case True
    then have "map_of es' name = map_of es name"
      using other written_entries_lookup(2) [OF w(2)] by auto
    then show ?thesis
      using w(3) by (simp add: True find_docs(2) [OF w(1)] find_entry del: find_node.simps(2))
  qed (use w(4) in simp)
qed simp

lemma write_tmp:
  assumes run: "writeSummaryDocsManifest calls root repoRoot refs = (err, root')"
    and tmp: "call_create calls = Inr r" "call_remove calls = None" "find_node root [''docs'', tmp_name r] = Inl ENOENT"
  shows "find_node root' [''docs'', tmp_name r] = Inl ENOENT"
  using write_entries [OF run] tmp
  by (elim disjE exE conjE) (simp_all add: find_entry written_entries_lookup(3) del: find_node.simps(2))

text \<open>
  C26: rewriting the manifest is atomic. Whatever system calls fail, the manifest afterwards holds the complete
  new text if no error is returned, and is untouched otherwise; no other file changes but the temporary one;
  and the temporary file is gone unless its removal failed.
\<close>

theorem write_atomic:
  assumes "writeSummaryDocsManifest calls root repoRoot refs = (err, root')"
  shows "find_node root' [''docs'', manifest_name] =
      (case err of
         None \<Rightarrow> Inr (File (Inr (manifest_content refs)))
       | Some _ \<Rightarrow> find_node root [''docs'', manifest_name]) \<and>
    (\<forall>d name ps. d \<noteq> ''docs'' \<or> name \<noteq> manifest_name \<and> (\<forall>r. call_create calls = Inr r \<longrightarrow> name \<noteq> tmp_name r) \<longrightarrow>
       find_node root' (d # name # ps) = find_node root (d # name # ps)) \<and>
    (\<forall>r. call_create calls = Inr r \<and> call_remove calls = None \<and> find_node root [''docs'', tmp_name r] = Inl ENOENT \<longrightarrow>
       find_node root' [''docs'', tmp_name r] = Inl ENOENT)"
  using write_manifest [OF assms] write_others [OF assms] write_tmp [OF assms]
  by (auto split: option.split simp del: find_node.simps(2))

section \<open>Writing, then checking\<close>

lemma summary_rows_docs:
  "fst (summary_rows b rows) = concat (map (row_docs b) rows)"
  by (induction rows) (simp_all add: Let_def case_prod_beta row_docs_def row_at_def)

lemma summaryDocs_manifest_refs:
  assumes "summaryDocsFromBaseline root quote repoRoot = Inr (refs, fs)"
  shows "\<forall>ref \<in> set refs. manifest_ref ref"
proof -
  obtain rows fs' where p: "parseBaselineIndex root quote (baseline_path repoRoot) = Inr (rows, fs')"
    "refs = sortedKeys (concat (map (row_docs (fst (baseline_path repoRoot))) rows))"
    using assms by (auto simp: summaryDocsFromBaseline_def Let_def case_prod_beta summary_rows_docs split: sum.splits)
  then show ?thesis
    using summary_ref_manifest parsed_cell [OF p(1)] by (auto simp: sortedKeys_def row_docs_def)
qed

lemma manifest_readable:
  assumes "node_kind root [''docs''] = Some Folder"
    and "find_node root [''docs'', manifest_name] = Inr (File (Inr (manifest_content refs)))"
    and "\<forall>ref \<in> set refs. manifest_ref ref"
  shows "readSummaryDocsManifest root repoRoot = Inr (refs, [])"
proof -
  have "node_kind root [''docs'', manifest_name] = Some Regular"
    using assms(2) by (simp add: node_kind_def del: find_node.simps)
  then obtain full where l: "lstatRepoRelative root repoRoot summaryDocsManifestRef summaryDocsManifestRef = LstatFound full Regular"
    using assms(1) by (simp add: lstatRepoRelative_found manifest_parts passes_dirs_Cons)
  then have "snd full = [''docs'', manifest_name]"
    by (auto simp: lstatRepoRelative_found manifest_parts)
  then have "os_ReadFile root full = Inr (manifest_content refs)"
    using assms(2) by (simp add: os_ReadFile_def read_node_def del: find_node.simps)
  then show ?thesis
    using assms(3) by (simp add: readSummaryDocsManifest_def l parse_manifest_content)
qed

lemma write_keeps_baseline:
  assumes "writeSummaryDocsManifest calls root repoRoot refs = (err, root')"
  shows "summaryDocsFromBaseline root' quote repoRoot = summaryDocsFromBaseline root quote repoRoot"
proof -
  have "find_node root' [''docs'', ''evidence-baseline.md''] = find_node root [''docs'', ''evidence-baseline.md'']"
    using manifest_name_neq by (intro write_others [OF assms]) metis
  then have "os_ReadFile root' (baseline_path repoRoot) = os_ReadFile root (baseline_path repoRoot)"
    by (simp only: os_ReadFile_def baseline_path_def snd_conv fst_conv)
  then show ?thesis
    by (simp add: summaryDocsFromBaseline_def parseBaselineIndex_def)
qed

lemma write_readable:
  assumes run: "writeSummaryDocsManifest calls root repoRoot refs = (None, root')"
    and refs: "summaryDocsFromBaseline root quote repoRoot = Inr (refs, fs)"
  shows "readSummaryDocsManifest root' repoRoot = Inr (refs, [])"
proof (rule manifest_readable)
  obtain r es' where "\<forall>ps. find_node root' (''docs'' # ps) = find_node (Dir r es') ps"
    using write_entries [OF run] by blast
  from this [rule_format, of "[]"] show "node_kind root' [''docs''] = Some Folder"
    by (simp add: node_kind_def del: find_node.simps(2))
qed (use write_manifest [OF run] summaryDocs_manifest_refs [OF refs] in auto)

lemma main_write_ok:
  assumes "flag_write fl" "exit_code (evidence_main quote range_order calls fl root) = 0"
  obtains refs where "summaryDocsFromBaseline root quote (flag_repo_root fl) = Inr (refs, [])"
    "writeSummaryDocsManifest calls root (flag_repo_root fl) refs = (None, tree_after (evidence_main quote range_order calls fl root))"
  using assms
  by (auto simp: evidence_main_def Let_def exit_failed_def exit_findings_def exit_ok_def
      split: if_splits sum.splits prod.splits option.splits)

text \<open>
  C25: a rewritten manifest passes its check. After \<^verbatim>\<open>--write-summary-docs\<close> exits with 0, the documents the
  Baseline Index names are the ones it named before, and the check of the manifest against them finds
  nothing: every reference survives being written to a line and read back.
\<close>

theorem write_then_check:
  assumes "flag_write fl" "exit_code (evidence_main quote range_order calls fl root) = 0"
  shows "\<exists>refs. summaryDocsFromBaseline root quote (flag_repo_root fl) = Inr (refs, []) \<and>
    summaryDocsFromBaseline (tree_after (evidence_main quote range_order calls fl root)) quote (flag_repo_root fl) = Inr (refs, []) \<and>
    checkSummaryDocsManifest (tree_after (evidence_main quote range_order calls fl root)) quote (flag_repo_root fl) refs = []"
proof -
  obtain refs where "summaryDocsFromBaseline root quote (flag_repo_root fl) = Inr (refs, [])"
    "writeSummaryDocsManifest calls root (flag_repo_root fl) refs = (None, tree_after (evidence_main quote range_order calls fl root))"
    using assms by (rule main_write_ok)
  then show ?thesis
    using write_keeps_baseline write_readable by (auto simp: manifest_ok)
qed

end
