(* ===== verification/Evidence_Example.thy ===== *)
theory Evidence_Example
  imports Evidence_Write
begin

text \<open>
  A small repository the evidence checker accepts: one bundle with one file, one row in the Baseline Index,
  one summary document. Its checksum list is written with the digest as a term, which is never evaluated.
\<close>

section \<open>A repository that is accepted\<close>

definition example_table :: "string list" where
  "example_table =
     [''| Evidence lane | Pinned baseline | Raw artifacts | Summary docs | Freshness rule |'',
      ''|---|---|---|---|---|'',
      ''| l | p | '' @ [CHR 0x60] @ ''docs/evidence/b1/'' @ [CHR 0x60] @ '' | '' @ [CHR 0x60] @ ''docs/s.md'' @ [CHR 0x60] @ '' | f |'']"

definition example_row :: baselineRow where
  "example_row = \<lparr>lane = ''l'', rawCell = [CHR 0x60] @ ''docs/evidence/b1/'' @ [CHR 0x60],
                  summaryCell = [CHR 0x60] @ ''docs/s.md'' @ [CHR 0x60]\<rparr>"

definition example_baseline :: string where
  "example_baseline = concat (map (\<lambda>l. l @ [CHR 0x0A]) (''## Baseline Index'' # example_table))"

definition example_sums :: string where
  "example_sums = named_by [''a.txt''] ''x'' @ [CHR 0x0A]"

definition example_bundle :: "string \<Rightarrow> node" where
  "example_bundle sums = Dir None
     [(''README.md'', None, File (Inr ''r'')), (''SHA256SUMS'', None, File (Inr sums)), (''a.txt'', None, File (Inr ''x''))]"

definition example_repo :: "string \<Rightarrow> node" where
  "example_repo sums = Dir None
     [(''docs'', None, Dir None
        [(''evidence'', None, Dir None [(''b1'', None, example_bundle sums)]),
         (''evidence-baseline-summary-docs.txt'', None, File (Inr (manifest_content [''docs/s.md'']))),
         (''evidence-baseline.md'', None, File (Inr example_baseline)),
         (''s.md'', None, File (Inr ''s''))])]"

lemma example_baseline_parse:
  "parseBaselineIndex (example_repo sums) quote (baseline_path ''r'') = Inr ([example_row], [])"
proof -
  have "os_ReadFile (example_repo sums) (baseline_path ''r'') = Inr example_baseline"
    by (simp add: os_ReadFile_def baseline_path_def example_repo_def read_node_def)
  moreover have "scan_lines example_baseline = (''## Baseline Index'' # example_table, False)"
    unfolding example_baseline_def
    by (rule scan_written_lines) (simp add: example_table_def line_ok_def maxScanTokenSize_def dropCR_def)
  moreover have "table_lines False (''## Baseline Index'' # example_table) = (example_table, False)"
    by code_simp
  moreover have "splitTableRow (hd example_table) = wantHeader"
    "validTableSeparator (splitTableRow (example_table ! 1)) (length wantHeader)"
    "baseline_rows p [] (drop 2 example_table) = ([example_row], [])" for p
    by code_simp+
  ultimately show ?thesis
    by (simp add: parseBaselineIndex_def baseline_table_def example_table_def)
qed

lemma example_refs:
  "summaryRefs (summaryCell example_row) at = ([''docs/s.md''], [])"
  "evidenceRefs (rawCell example_row) at = ([''docs/evidence/b1/''], [])"
  by code_simp+

lemma example_parts:
  "ref_parts ''docs/s.md'' = [''docs'', ''s.md'']" "safeRepoRelativeRef ''docs/s.md''"
  "ref_parts ''docs/evidence/b1/'' = [''docs'', ''evidence'', ''b1'']" "safeRepoRelativeRef ''docs/evidence/b1/''"
  "ref_parts ''docs/evidence/b1'' = [''docs'', ''evidence'', ''b1'']" "safeRepoRelativeRef ''docs/evidence/b1''"
  "ref_parts ''docs/evidence'' = [''docs'', ''evidence'']" "safeRepoRelativeRef ''docs/evidence''"
  "ref_parts ''docs/evidence-baseline.md'' = [''docs'', ''evidence-baseline.md'']" "safeRepoRelativeRef ''docs/evidence-baseline.md''"
  "ref_parts summaryDocsManifestRef = [''docs'', ''evidence-baseline-summary-docs.txt'']" "safeRepoRelativeRef summaryDocsManifestRef"
  "evidenceBundleForRef ''docs/evidence/b1/'' Folder = ''docs/evidence/b1''"
  by code_simp+

abbreviation example_path :: "string list \<Rightarrow> ospath" where
  "example_path parts \<equiv> foldl sub (''r'', []) parts"

lemma example_lstat:
  "lstatRepoRelative (example_repo sums) ''r'' ''docs/s.md'' at = LstatFound (example_path [''docs'', ''s.md'']) Regular"
  "lstatRepoRelative (example_repo sums) ''r'' ''docs/evidence/b1/'' at = LstatFound (example_path [''docs'', ''evidence'', ''b1'']) Folder"
  "lstatRepoRelative (example_repo sums) ''r'' ''docs/evidence/b1'' at = LstatFound (example_path [''docs'', ''evidence'', ''b1'']) Folder"
  "lstatRepoRelative (example_repo sums) ''r'' ''docs/evidence'' at = LstatFound (example_path [''docs'', ''evidence'']) Folder"
  "lstatRepoRelative (example_repo sums) ''r'' ''docs/evidence-baseline.md'' at = LstatFound (example_path [''docs'', ''evidence-baseline.md'']) Regular"
  "lstatRepoRelative (example_repo sums) ''r'' summaryDocsManifestRef at = LstatFound (example_path [''docs'', ''evidence-baseline-summary-docs.txt'']) Regular"
  by (simp_all add: lstatRepoRelative_found example_parts passes_dirs_Cons node_kind_def example_repo_def example_bundle_def)

lemma example_manifest:
  "readSummaryDocsManifest (example_repo sums) ''r'' = Inr ([''docs/s.md''], [])"
proof -
  have "manifest_ref ''docs/s.md''"
    using summary_ref_manifest [of "''docs/s.md''" "summaryCell example_row" "[]"]
    by (simp add: example_refs) (simp add: example_row_def maxScanTokenSize_def)
  then show ?thesis
    by (simp add: readSummaryDocsManifest_def example_lstat os_ReadFile_def read_node_def parse_manifest_content)
       (simp add: example_repo_def read_node_def parse_manifest_content)
qed

lemma example_discover: "discoverEvidenceBundles (example_repo sums) ''r'' = Inr ([''docs/evidence/b1''], [])"
  by (simp add: discoverEvidenceBundles_def example_lstat os_ReadDir_def)
     (simp add: example_repo_def example_bundle_def HasPrefix_def)

definition example_entry :: checksumEntry where
  "example_entry = \<lparr>entry_hash = sha256_hex ''x'', entry_path = ''a.txt''\<rparr>"

lemma example_line: "named_by [''a.txt''] ''x'' = print_entry example_entry"
  by (simp add: named_by_def rel_of_def print_entry_def example_entry_def)

lemma example_line_trimmed: "TrimSpace (print_entry example_entry) = print_entry example_entry"
proof (rule TrimSpace_id)
  have disj: "hd ` set spaces \<inter> set hex_digits = {}" by code_simp
  obtain c t where ct: "sha256_hex ''x'' = c # t" "c \<in> set hex_digits"
    using length_sha256_hex [of "''x''"] set_sha256_hex [of "''x''"] by (cases "sha256_hex ''x''") auto
  then have "print_entry example_entry = c # t @ ''  a.txt''"
    by (simp add: print_entry_def example_entry_def)
  then show "no_start spaces (print_entry example_entry)"
    using no_start_Cons [of c spaces] disj ct(2) by auto
  have "CHR ''t'' \<notin> hd ` set (map rev spaces)" by code_simp
  then show "no_start (map rev spaces) (rev (print_entry example_entry))"
    using no_start_Cons [of "CHR ''t''" "map rev spaces"] by (simp add: print_entry_def example_entry_def)
qed

lemma example_parse_sums:
  assumes "os_ReadFile root path = Inr example_sums"
  shows "parseSHA256SUMS root path = Inr ([example_entry], [])"
proof -
  have safe: "safeBundleRelativePath ''a.txt''" by code_simp
  have "CHR 0x0A \<notin> set hex_digits" by code_simp
  then have "CHR 0x0A \<notin> set (sha256_hex ''x'')" using set_sha256_hex by blast
  then have "line_ok (print_entry example_entry)"
    using dropCR_trimmed [OF example_line_trimmed]
    by (simp add: line_ok_def print_entry_def example_entry_def maxScanTokenSize_def)
  then have "scan_lines example_sums = ([print_entry example_entry], False)"
    using scan_written_lines [of "[print_entry example_entry]"] by (simp add: example_sums_def example_line)
  moreover have "print_entry example_entry \<noteq> []"
    by (simp add: print_entry_def)
  moreover have "valid_entry example_entry"
    using safe by (simp add: valid_entry_def example_entry_def sha256Hex_digest ContainsAny_def HasPrefix_def)
  ultimately show ?thesis
    using assms unfolding parse_sums_iff by (simp add: example_line_trimmed)
qed

lemma example_contents:
  assumes loc: "snd bp = [''docs'', ''evidence'', ''b1'']"
  defines "root \<equiv> example_repo example_sums"
  shows "validateBundleControlFile root bp b ''README.md'' = ([], True)"
    "validateBundleControlFile root bp b ''SHA256SUMS'' = ([], True)"
    "validateOptionalBundleControlFile root bp b ''SHA256SUMS.sig'' = []"
    "parseSHA256SUMS root (sub bp ''SHA256SUMS'') = Inr ([example_entry], [])"
    "check_contents root bp b [example_entry] = []"
proof -
  have n: "find_node root (snd bp) = Inr (example_bundle example_sums)"
    by (simp add: root_def loc example_repo_def)
  have at: "find_node root (snd bp @ ps) = find_node (example_bundle example_sums) ps" for ps
    by (simp only: find_node_append n sum.case)
  have stat: "os_Lstat root (sub bp name) = (case find_node (example_bundle example_sums) [name] of
      Inl e \<Rightarrow> Inl (PathError ''lstat'' (fst (sub bp name)) e) | Inr n \<Rightarrow> Inr (kind_of n))" for name
    by (simp only: os_Lstat_def snd_sub at)
  have read: "os_ReadFile root (sub bp name) = (case find_node (example_bundle example_sums) [name] of
      Inl e \<Rightarrow> Inl (PathError ''open'' (fst (sub bp name)) e) | Inr n \<Rightarrow> read_node (fst (sub bp name)) n)" for name
    by (simp only: os_ReadFile_def snd_sub at)
  show "validateBundleControlFile root bp b ''README.md'' = ([], True)"
    "validateBundleControlFile root bp b ''SHA256SUMS'' = ([], True)"
    "validateOptionalBundleControlFile root bp b ''SHA256SUMS.sig'' = []"
    by (simp_all add: validateBundleControlFile_def validateOptionalBundleControlFile_def stat example_bundle_def)
  show "parseSHA256SUMS root (sub bp ''SHA256SUMS'') = Inr ([example_entry], [])"
    by (rule example_parse_sums) (simp add: read example_bundle_def read_node_def)
  have "split_on CHR ''/'' ''a.txt'' = [''a.txt'']" by code_simp
  then have "lstatChecksumEntry root bp b ''a.txt'' = Inr (sub bp ''a.txt'', Regular)"
    by (simp add: lstatChecksumEntry_def stat example_bundle_def)
  then have "verifySHA256Entry root bp b example_entry = []"
    by (simp add: verifySHA256Entry_def example_entry_def read) (simp add: example_bundle_def read_node_def)
  moreover have "bundleRawFiles root bp b = Inr ([''a.txt''], [])"
    unfolding bundleRawFiles_def WalkDir_def n
    by (simp add: example_bundle_def raw_entry_def ignoredBundleEntry_def)
  ultimately show "check_contents root bp b [example_entry] = []"
    by (simp add: check_contents_def) (simp add: example_entry_def)
qed

lemma example_checkBundle: "checkBundle (example_repo example_sums) ''r'' ''docs/evidence/b1'' = []"
proof -
  obtain bp where "lstatRepoRelative (example_repo example_sums) ''r'' ''docs/evidence/b1'' ''docs/evidence/b1'' = LstatFound bp Folder"
    "snd bp = [''docs'', ''evidence'', ''b1'']"
    using example_lstat(3) by simp
  then show ?thesis
    by (simp add: checkBundle_def example_contents)
qed

lemma example_accepted: "checkRepo (example_repo example_sums) quote (\<lambda>keys. keys) ''r'' = Inr []"
proof -
  have sorted: "sortedKeys [''docs/s.md''] = [''docs/s.md'']" by (simp add: sortedKeys_def)
  have rows: "check_rows (example_repo example_sums) ''r'' b [example_row] = Inr ([], [''docs/evidence/b1''], [''docs/s.md''])" for b
    by (simp add: example_refs example_lstat example_parts)
  have "check_references (example_repo example_sums) quote (\<lambda>keys. keys) ''r'' b [example_row] [] = Inr []" for b
    unfolding check_references_def rows
    by (simp add: example_discover manifest_ok [THEN iffD2] example_manifest sorted example_checkBundle)
  then show ?thesis
    by (simp add: checkRepo_def example_lstat example_baseline_parse)
qed


section \<open>Writing its manifest\<close>

definition example_calls :: "gerror option \<Rightarrow> write_calls" where
  "example_calls rename = \<lparr>call_create = Inr ''1'', call_write = None, call_chmod = None, call_close = None,
     call_rename = rename, call_remove = None\<rparr>"

definition example_flags :: flags where
  "example_flags = \<lparr>flag_repo_root = ''r'', flag_list = False, flag_write = True\<rparr>"

lemma example_write_path:
  "summaryDocsManifestWritePath (example_repo sums) ''r'' = Inr (example_path [''docs'', ''evidence-baseline-summary-docs.txt''])"
  by (simp add: summaryDocsManifestWritePath_def example_lstat)

lemma example_write: "fst (writeSummaryDocsManifest (example_calls rename) (example_repo sums) ''r'' refs) = rename"
  by (simp add: writeSummaryDocsManifest_def example_write_path example_calls_def finish_write_def Let_def split: option.split)

theorem write_atomic_witness:
  "find_node (snd (writeSummaryDocsManifest (example_calls (Some ErrTooLong)) (example_repo []) ''r'' []))
       [''docs'', manifest_name] = Inr (File (Inr (manifest_content [''docs/s.md''])))"
proof -
  have "writeSummaryDocsManifest (example_calls (Some ErrTooLong)) (example_repo []) ''r'' [] =
      (Some ErrTooLong, snd (writeSummaryDocsManifest (example_calls (Some ErrTooLong)) (example_repo []) ''r'' []))"
    by (simp add: prod_eq_iff example_write)
  from write_atomic [OF this] show ?thesis
    by (simp add: example_repo_def manifest_name_def)
qed

theorem write_then_check_witness:
  "\<exists>refs. checkSummaryDocsManifest (tree_after (evidence_main concat rev (example_calls None) example_flags (example_repo [])))
      concat ''r'' refs = []"
proof -
  have "summaryDocsFromBaseline (example_repo []) concat ''r'' = Inr ([''docs/s.md''], [])"
    by (simp add: summaryDocsFromBaseline_def example_baseline_parse example_refs sortedKeys_def)
  then have "exit_code (evidence_main concat rev (example_calls None) example_flags (example_repo [])) = 0"
    using example_write [of None "[]" "[''docs/s.md'']"]
    by (cases "writeSummaryDocsManifest (example_calls None) (example_repo []) ''r'' [''docs/s.md'']")
       (simp add: evidence_main_def example_flags_def exit_ok_def)
  moreover have "flag_write example_flags" "flag_repo_root example_flags = ''r''"
    by (simp_all add: example_flags_def)
  ultimately show ?thesis
    using write_then_check [of example_flags concat rev "example_calls None" "example_repo []"] by auto
qed

end
