(* ===== verification/Release_Yaml.thy ===== *)
theory Release_Yaml
  imports Evidence_Repo
begin

text \<open>
  The helpers of the release checker on YAML trees (\<^verbatim>\<open>tools/releasepolicy/main.go\<close>). The tree is the
  \<^verbatim>\<open>Node\<close> of \<^verbatim>\<open>gopkg.in/yaml.v3\<close> with the three fields the checker reads: a mapping has its keys and
  values in turn in \<^verbatim>\<open>Content\<close>, a scalar its text in \<^verbatim>\<open>Value\<close>. A nil pointer is \<open>None\<close>.
\<close>

section \<open>Trees\<close>

datatype ykind = DocumentNode | SequenceNode | MappingNode | ScalarNode | AliasNode

datatype ynode = YNode (ykind: ykind) (yvalue: string) (ycontent: "ynode list")

text \<open>The loop \<^verbatim>\<open>for i := 0; i+1 < len(n.Content); i += 2\<close>.\<close>

fun pairs :: "ynode list \<Rightarrow> (ynode \<times> ynode) list" where
  "pairs (k # v # rest) = (k, v) # pairs rest"
| "pairs _ = []"

fun first_value :: "string \<Rightarrow> (ynode \<times> ynode) list \<Rightarrow> ynode option" where
  "first_value key [] = None"
| "first_value key ((k, v) # rest) = (if yvalue k = key then Some v else first_value key rest)"

definition mapping :: "ynode option \<Rightarrow> string \<Rightarrow> ynode option" where
  "mapping n key =
     (case n of
        None \<Rightarrow> None
      | Some n \<Rightarrow> if ykind n \<noteq> MappingNode then None else first_value key (pairs (ycontent n)))"

definition scalarValue :: "ynode option \<Rightarrow> string \<times> bool" where
  "scalarValue n =
     (case n of
        None \<Rightarrow> ([], False)
      | Some n \<Rightarrow> if ykind n \<noteq> ScalarNode then ([], False) else (yvalue n, True))"

definition scalar :: "ynode option \<Rightarrow> string" where
  "scalar n = fst (scalarValue n)"

definition seqStrings :: "ynode option \<Rightarrow> string list" where
  "seqStrings n =
     (case n of
        None \<Rightarrow> []
      | Some n \<Rightarrow> if ykind n \<noteq> SequenceNode then [] else map (\<lambda>item. scalar (Some item)) (ycontent n))"

definition mapKeys :: "ynode option \<Rightarrow> string list" where
  "mapKeys n =
     (case n of
        None \<Rightarrow> []
      | Some n \<Rightarrow> if ykind n \<noteq> MappingNode then [] else sort (map (\<lambda>(k, _). yvalue k) (pairs (ycontent n))))"

definition yamlPath :: "string \<Rightarrow> string \<Rightarrow> string" where
  "yamlPath parent child = (if parent = [] \<or> parent = ''$'' then child else parent @ ''.'' @ child)"

definition index_path :: "string \<Rightarrow> nat \<Rightarrow> string" where
  "index_path p i = p @ ''['' @ decimal i @ '']''"

section \<open>Sets and scripts\<close>

definition sameStringSet :: "string list \<Rightarrow> string list \<Rightarrow> bool" where
  "sameStringSet got want =
     (if length got \<noteq> length want then False
      else list_all (\<lambda>item. item \<in> set want) got \<and> list_all (\<lambda>item. item \<in> set got) want)"

definition scriptLines :: "string \<Rightarrow> string list" where
  "scriptLines run =
     filter (\<lambda>line. \<not> (line = [] \<or> HasPrefix line ''#'')) (map TrimSpace (split_on CHR 0x0A run))"

text \<open>\<^verbatim>\<open>strings.Contains\<close>, \<^verbatim>\<open>strings.Cut\<close> at a byte, \<^verbatim>\<open>strings.ReplaceAll(s, "\r\n", "\n")\<close>\<close>

fun strings_Contains :: "string \<Rightarrow> string \<Rightarrow> bool" where
  "strings_Contains [] t = (t = [])"
| "strings_Contains (c # s) t = (HasPrefix (c # s) t \<or> strings_Contains s t)"

definition Cut :: "string \<Rightarrow> char \<Rightarrow> string \<times> string \<times> bool" where
  "Cut s c = (takeWhile (\<lambda>x. x \<noteq> c) s, drop 1 (dropWhile (\<lambda>x. x \<noteq> c) s), c \<in> set s)"

fun crlf_to_lf :: "string \<Rightarrow> string" where
  "crlf_to_lf (c # d # s) =
     (if c = CHR 0x0D \<and> d = CHR 0x0A then d # crlf_to_lf s else c # crlf_to_lf (d # s))"
| "crlf_to_lf s = s"

text \<open>The regular expression \<^verbatim>\<open>shaRef\<close>\<close>

definition shaRef :: "string \<Rightarrow> bool" where
  "shaRef s \<longleftrightarrow> length s = 40 \<and> list_all (\<lambda>c. c \<in> set ''0123456789abcdef'') s"

section \<open>Parts of a workflow\<close>

definition steps :: "ynode option \<Rightarrow> ynode list" where
  "steps job =
     (case mapping job ''steps'' of
        None \<Rightarrow> []
      | Some n \<Rightarrow> if ykind n \<noteq> SequenceNode then [] else ycontent n)"

definition needs :: "ynode option \<Rightarrow> string list" where
  "needs job =
     (case mapping job ''needs'' of
        None \<Rightarrow> []
      | Some n \<Rightarrow>
          if ykind n = ScalarNode then [yvalue n]
          else if ykind n = SequenceNode then seqStrings (Some n)
          else [])"

definition stepIdentity :: "ynode \<Rightarrow> string" where
  "stepIdentity step =
     (let name = scalar (mapping (Some step) ''name''); uses = scalar (mapping (Some step) ''uses'')
      in if name \<noteq> [] then name
         else if uses \<noteq> [] then ''uses:'' @ fst (Cut uses CHR ''@'')
         else ''unnamed'')"

text \<open>
  The values of a key in the steps of every job, with the path of the step, sorted by path. Two steps
  have the same path only when two jobs have the same name, and duplicate keys are reported first.
\<close>

definition step_refs :: "string \<Rightarrow> ynode option \<Rightarrow> (string \<times> string) list" where
  "step_refs key jobs =
     sort_key fst (concat (map (\<lambda>jobName.
         concat (map (\<lambda>(idx, step).
             let value = scalar (mapping (Some step) key)
             in if value \<noteq> [] then [(index_path (''jobs.'' @ jobName @ ''.steps'') idx, value)] else [])
           (enumerate 0 (steps (mapping jobs jobName)))))
       (mapKeys jobs)))"

definition actionUses :: "ynode option \<Rightarrow> (string \<times> string) list" where
  "actionUses jobs = step_refs ''uses'' jobs"

definition runSteps :: "ynode option \<Rightarrow> (string \<times> string) list" where
  "runSteps jobs = step_refs ''run'' jobs"

end
