(* ===== verification/Release_Check.thy ===== *)
theory Release_Check
  imports Release_Yaml Release_Policy
begin

text \<open>
  The release checker (\<^verbatim>\<open>tools/releasepolicy/main.go\<close>): the release workflow against the accepted policy, the
  signing keys, the helper scripts and the configuration of the bill of materials. Each method that appends
  to the checker's findings is a function that returns the findings it appends.
\<close>

section \<open>The checker\<close>

text \<open>
  The path and the policy of a \<^verbatim>\<open>checker\<close>, and \<^verbatim>\<open>fmt\<close>'s verb \<^verbatim>\<open>%q\<close> on strings and on lists of strings, which
  only messages use.
\<close>

record checker =
  c_path :: string
  c_policy :: releasePolicy
  fmt_q :: "string \<Rightarrow> string"
  fmt_qs :: "string list \<Rightarrow> string"

definition fail :: "checker \<Rightarrow> string \<Rightarrow> string \<Rightarrow> finding list" where
  "fail c nodePath msg = [finding_at (c_path c @ '':'' @ nodePath) msg]"

fun checkDuplicateKeys :: "checker \<Rightarrow> string \<Rightarrow> ynode \<Rightarrow> finding list"
and duplicate_pairs :: "checker \<Rightarrow> string \<Rightarrow> string list \<Rightarrow> ynode list \<Rightarrow> finding list"
and duplicate_items :: "checker \<Rightarrow> string \<Rightarrow> nat \<Rightarrow> ynode list \<Rightarrow> finding list"
where
  "checkDuplicateKeys c nodePath (YNode k v content) =
     (if k = MappingNode then duplicate_pairs c nodePath [] content
      else if k = SequenceNode then duplicate_items c nodePath 0 content
      else [])"
| "duplicate_pairs c nodePath seen (key # value # rest) =
     (let valuePath = yamlPath nodePath (yvalue key)
      in (if ykind key = ScalarNode \<and> yvalue key \<in> set seen then fail c valuePath ''duplicate YAML key'' else []) @
         checkDuplicateKeys c valuePath value @
         duplicate_pairs c nodePath (if ykind key = ScalarNode then yvalue key # seen else seen) rest)"
| "duplicate_pairs c nodePath seen _ = []"
| "duplicate_items c nodePath idx [] = []"
| "duplicate_items c nodePath idx (item # rest) =
     checkDuplicateKeys c (index_path nodePath idx) item @ duplicate_items c nodePath (Suc idx) rest"

section \<open>Expectations\<close>

definition expectExactScalar :: "checker \<Rightarrow> string \<Rightarrow> ynode option \<Rightarrow> string \<Rightarrow> finding list" where
  "expectExactScalar c nodePath n want =
     (let (got, ok) = scalarValue n
      in if n \<noteq> None \<and> \<not> ok then fail c nodePath ''must be a scalar''
         else if got \<noteq> want then fail c nodePath (''got '' @ fmt_q c got @ '', want '' @ fmt_q c want)
         else [])"

definition expectScalars :: "checker \<Rightarrow> string \<Rightarrow> ynode option \<Rightarrow> smap \<Rightarrow> finding list \<times> bool" where
  "expectScalars c nodePath n want =
     (case n of
        None \<Rightarrow> (fail c nodePath ''missing mapping'', False)
      | Some m \<Rightarrow>
          if ykind m \<noteq> MappingNode then (fail c nodePath ''must be a mapping'', False)
          else (concat (map (\<lambda>(key, expected).
                    expectExactScalar c (nodePath @ ''.'' @ key) (mapping n key) expected) want), True))"

definition expectExactScalars :: "checker \<Rightarrow> string \<Rightarrow> ynode option \<Rightarrow> smap \<Rightarrow> finding list" where
  "expectExactScalars c nodePath n want =
     (let (findings, ok) = expectScalars c nodePath n want
      in if \<not> ok then findings
         else findings @
           concat (map (\<lambda>key. if map_of want key = None then fail c (nodePath @ ''.'' @ key) ''unexpected key'' else [])
             (mapKeys n)))"

definition expectOptionalExactScalar :: "checker \<Rightarrow> string \<Rightarrow> ynode option \<Rightarrow> string \<Rightarrow> finding list" where
  "expectOptionalExactScalar c nodePath n want =
     (if want = [] then (if n \<noteq> None then fail c nodePath ''unexpected value'' else [])
      else
        let (got, ok) = scalarValue n
        in if n \<noteq> None \<and> \<not> ok then fail c nodePath ''must be a scalar''
           else if got \<noteq> want then fail c nodePath (''got '' @ fmt_q c got @ '', want '' @ fmt_q c want)
           else [])"

definition expectOptionalExactScalars :: "checker \<Rightarrow> string \<Rightarrow> ynode option \<Rightarrow> smap option \<Rightarrow> finding list" where
  "expectOptionalExactScalars c nodePath n want =
     (case want of
        None \<Rightarrow> if n \<noteq> None then fail c nodePath ''unexpected mapping'' else []
      | Some want \<Rightarrow> expectExactScalars c nodePath n want)"

definition expectOnlyKeys :: "checker \<Rightarrow> string \<Rightarrow> ynode option \<Rightarrow> string list \<Rightarrow> finding list" where
  "expectOnlyKeys c nodePath n want =
     (if (case n of None \<Rightarrow> True | Some m \<Rightarrow> ykind m \<noteq> MappingNode) then fail c nodePath ''missing mapping''
      else concat (map (\<lambda>key. if key \<notin> set want then fail c (nodePath @ ''.'' @ key) ''unexpected key'' else []) (mapKeys n)))"

fun sequence_items :: "checker \<Rightarrow> string \<Rightarrow> nat \<Rightarrow> ynode list \<Rightarrow> string list \<times> finding list" where
  "sequence_items c nodePath idx [] = ([], [])"
| "sequence_items c nodePath idx (item # rest) =
     (let (value, ok) = scalarValue (Some item); (got, findings) = sequence_items c nodePath (Suc idx) rest
      in if \<not> ok then (got, fail c (index_path nodePath idx) ''must be a scalar'' @ findings)
         else (value # got, findings))"

definition expectExactStringSequence :: "checker \<Rightarrow> string \<Rightarrow> ynode option \<Rightarrow> string list \<Rightarrow> finding list" where
  "expectExactStringSequence c nodePath n want =
     (case n of
        None \<Rightarrow> fail c nodePath ''missing sequence''
      | Some m \<Rightarrow>
          if ykind m \<noteq> SequenceNode then fail c nodePath ''must be a sequence''
          else
            let (got, findings) = sequence_items c nodePath 0 (ycontent m)
            in findings @
               (if \<not> sameStringSlice got want
                then fail c nodePath (''sequence must exactly match accepted release policy: got '' @ fmt_qs c got @
                       '', want '' @ fmt_qs c want)
                else []))"

definition requireExactScriptLines :: "checker \<Rightarrow> string \<Rightarrow> string \<Rightarrow> string list \<Rightarrow> finding list" where
  "requireExactScriptLines c nodePath run want =
     (if sameStringSlice (scriptLines run) want then []
      else fail c nodePath (''script lines must exactly match accepted release policy: got '' @ fmt_qs c (scriptLines run) @
             '', want '' @ fmt_qs c want))"

section \<open>The workflow\<close>

definition policyPath :: string where
  "policyPath = ''tools/releasepolicy/policy.go''"

fun concept_findings :: "(string \<times> string) list \<Rightarrow> releaseJobPolicy list \<Rightarrow> finding list" where
  "concept_findings seenConcepts [] = []"
| "concept_findings seenConcepts (job # jobs) =
     (let nodePath = policyPath @ '':accepted-release-policy.jobs.'' @ jp_name job
      in if jp_concept job = []
         then finding_at nodePath ''accepted release policy job must declare a policy concept'' # concept_findings seenConcepts jobs
         else
           (case map_of seenConcepts (jp_concept job) of
              Some prev \<Rightarrow> finding_at nodePath (''policy concept duplicates job '' @ prev) # concept_findings seenConcepts jobs
            | None \<Rightarrow> concept_findings ((jp_concept job, jp_name job) # seenConcepts) jobs))"

fun config_findings :: "string list \<Rightarrow> releaseConfigPolicy list \<Rightarrow> finding list" where
  "config_findings seenConfigs [] = []"
| "config_findings seenConfigs (config # configs) =
     (let nodePath = policyPath @ '':accepted-release-policy.required-configs.'' @ cp_path config
      in if cp_path config = []
         then finding_at nodePath ''accepted release policy required config path is empty'' # config_findings seenConfigs configs
         else if cp_path config \<in> set seenConfigs
         then finding_at nodePath ''accepted release policy required config path is duplicated'' # config_findings seenConfigs configs
         else (if cp_sourceName config = []
               then [finding_at nodePath ''accepted release policy required config source name is empty''] else []) @
              config_findings (cp_path config # seenConfigs) configs)"

definition checkAcceptedReleasePolicyCatalogue :: "releasePolicy \<Rightarrow> finding list" where
  "checkAcceptedReleasePolicyCatalogue policy =
     concept_findings [] (rp_jobs policy) @ config_findings [] (rp_requiredConfigs policy)"

definition checkRoot :: "checker \<Rightarrow> ynode \<Rightarrow> finding list" where
  "checkRoot c root =
     (let policy = c_policy c
      in (if ykind root \<noteq> MappingNode then fail c ''$'' ''workflow must be a mapping'' else []) @
         (if \<not> sameStringSet (mapKeys (Some root)) (rp_rootKeys policy)
          then fail c ''$'' ''workflow root keys must exactly match the accepted release workflow'' else []) @
         expectExactScalar c ''name'' (mapping (Some root) ''name'') (rp_workflowName policy) @
         expectExactScalars c ''env'' (mapping (Some root) ''env'') (rp_env policy) @
         expectExactScalars c ''concurrency'' (mapping (Some root) ''concurrency'') (rp_concurrency policy))"

definition checkTriggers :: "checker \<Rightarrow> ynode \<Rightarrow> finding list" where
  "checkTriggers c root =
     (let policy = c_policy c; on_node = mapping (Some root) ''on''
      in if on_node = None then fail c ''on'' ''missing trigger block''
         else
           (if \<not> sameStringSet (mapKeys on_node) (rp_triggerKeys policy)
            then fail c ''on'' ''trigger block must contain only push.tags v* and workflow_dispatch'' else []) @
           (let push = mapping on_node ''push''
            in if push = None then fail c ''on.push'' ''missing push trigger''
               else
                 (if \<not> sameStringSet (mapKeys push) (rp_pushKeys policy)
                  then fail c ''on.push'' ''push trigger must contain only tags'' else []) @
                 (if \<not> sameStringSet (seqStrings (mapping push ''tags'')) (rp_pushTags policy)
                  then fail c ''on.push.tags'' ''push trigger must contain only v* tags'' else [])) @
           (if mapping on_node ''workflow_dispatch'' = None
            then fail c ''on.workflow_dispatch'' ''missing workflow_dispatch trigger'' else []))"

text \<open>Reading an absent key of a Go map gives the empty string.\<close>

definition map_get :: "smap \<Rightarrow> string \<Rightarrow> string" where
  "map_get m key = (case map_of m key of None \<Rightarrow> [] | Some v \<Rightarrow> v)"

definition checkTopPermissions :: "checker \<Rightarrow> ynode \<Rightarrow> finding list" where
  "checkTopPermissions c root =
     (let policy = c_policy c; permissions = mapping (Some root) ''permissions''
      in if permissions = None then fail c ''permissions'' ''missing top-level permissions''
         else
           expectExactScalar c ''permissions.contents'' (mapping permissions ''contents'')
             (map_get (rp_topPermission policy) ''contents'') @
           concat (map (\<lambda>key. if map_of (rp_topPermission policy) key = None
               then fail c (''permissions.'' @ key) ''unexpected top-level permission'' else []) (mapKeys permissions)))"

definition checkJobSet :: "checker \<Rightarrow> ynode option \<Rightarrow> finding list" where
  "checkJobSet c jobs =
     (let want = policy_jobNames (c_policy c)
      in concat (map (\<lambda>name. if mapping jobs name = None then fail c (''jobs.'' @ name) ''missing required job'' else []) want) @
         concat (map (\<lambda>name. if name \<notin> set want then fail c (''jobs.'' @ name) ''unexpected job in release workflow'' else [])
           (mapKeys jobs)))"

section \<open>Jobs and steps\<close>

definition checkAcceptedStep :: "checker \<Rightarrow> string \<Rightarrow> ynode \<Rightarrow> releaseStepPolicy \<Rightarrow> finding list" where
  "checkAcceptedStep c stepPath step_node policy =
     (let step = Some step_node; usesNode = mapping step ''uses''; runNode = mapping step ''run''
      in expectOnlyKeys c stepPath step
           [''name'', ''id'', ''if'', ''uses'', ''run'', ''with'', ''env'', ''shell'', ''continue-on-error''] @
         expectOptionalExactScalar c (stepPath @ ''.name'') (mapping step ''name'') (sp_name policy) @
         expectOptionalExactScalar c (stepPath @ ''.id'') (mapping step ''id'') (sp_id policy) @
         expectOptionalExactScalar c (stepPath @ ''.if'') (mapping step ''if'') (sp_ifCond policy) @
         expectOptionalExactScalar c (stepPath @ ''.shell'') (mapping step ''shell'') (sp_shell policy) @
         expectOptionalExactScalar c (stepPath @ ''.continue-on-error'') (mapping step ''continue-on-error'')
           (sp_continueOnError policy) @
         (if sp_usesPrefix policy = [] then
            (if usesNode \<noteq> None then fail c (stepPath @ ''.uses'') ''unexpected uses'' else [])
          else
            let (uses, ok) = scalarValue usesNode
            in if usesNode = None then fail c (stepPath @ ''.uses'') (''uses must start with '' @ sp_usesPrefix policy)
               else if \<not> ok then fail c (stepPath @ ''.uses'') ''uses must be a scalar''
               else if \<not> HasPrefix uses (sp_usesPrefix policy)
               then fail c (stepPath @ ''.uses'') (''uses must start with '' @ sp_usesPrefix policy)
               else []) @
         (case sp_runLines policy of
            None \<Rightarrow> if runNode \<noteq> None then fail c (stepPath @ ''.run'') ''unexpected run'' else []
          | Some runLines \<Rightarrow>
              let (run, ok) = scalarValue runNode
              in if runNode = None then fail c (stepPath @ ''.run'') ''missing run''
                 else if \<not> ok then fail c (stepPath @ ''.run'') ''run must be a scalar''
                 else requireExactScriptLines c (stepPath @ ''.run'') run runLines) @
         expectOptionalExactScalars c (stepPath @ ''.with'') (mapping step ''with'') (sp_with policy) @
         expectOptionalExactScalars c (stepPath @ ''.env'') (mapping step ''env'') (sp_env policy))"

definition checkAcceptedJobEnvelope :: "checker \<Rightarrow> string \<Rightarrow> ynode option \<Rightarrow> releaseJobPolicy \<Rightarrow> finding list" where
  "checkAcceptedJobEnvelope c jobPath job policy =
     expectOnlyKeys c jobPath job
       [''name'', ''if'', ''needs'', ''runs-on'', ''timeout-minutes'', ''permissions'', ''outputs'', ''steps''] @
     expectExactScalar c (jobPath @ ''.name'') (mapping job ''name'') (jp_displayName policy) @
     expectExactScalar c (jobPath @ ''.runs-on'') (mapping job ''runs-on'') (jp_runsOn policy) @
     expectExactScalar c (jobPath @ ''.timeout-minutes'') (mapping job ''timeout-minutes'') (jp_timeoutMinutes policy) @
     expectExactScalar c (jobPath @ ''.if'') (mapping job ''if'') (jp_ifCond policy)"

definition nil_list :: "'a list option \<Rightarrow> 'a list" where
  "nil_list xs = (case xs of None \<Rightarrow> [] | Some xs \<Rightarrow> xs)"

definition checkAcceptedJobNeeds :: "checker \<Rightarrow> string \<Rightarrow> ynode option \<Rightarrow> releaseJobPolicy \<Rightarrow> finding list" where
  "checkAcceptedJobNeeds c jobPath job policy =
     (if jp_needs policy = None \<and> mapping job ''needs'' \<noteq> None
      then fail c (jobPath @ ''.needs'') ''job must not declare needs''
      else if \<not> sameStringSet (needs job) (nil_list (jp_needs policy))
      then fail c (jobPath @ ''.needs'') (''needs must exactly match: '' @ join_with '', '' (nil_list (jp_needs policy)))
      else [])"

definition checkAcceptedJobPermissions :: "checker \<Rightarrow> string \<Rightarrow> ynode option \<Rightarrow> releaseJobPolicy \<Rightarrow> finding list" where
  "checkAcceptedJobPermissions c jobPath job policy =
     (let permissions = mapping job ''permissions''
      in case jp_permissions policy of
           None \<Rightarrow>
             if permissions \<noteq> None
             then fail c (jobPath @ ''.permissions'')
                    ''job must inherit top-level contents: read and must not declare permissions''
             else []
         | Some want \<Rightarrow> expectExactScalars c (jobPath @ ''.permissions'') permissions want)"

definition checkAcceptedJobOutputs :: "checker \<Rightarrow> string \<Rightarrow> ynode option \<Rightarrow> releaseJobPolicy \<Rightarrow> finding list" where
  "checkAcceptedJobOutputs c jobPath job policy =
     (let outputs = mapping job ''outputs''
      in case jp_outputs policy of
           None \<Rightarrow> if outputs \<noteq> None then fail c (jobPath @ ''.outputs'') ''job must not declare outputs'' else []
         | Some want \<Rightarrow> expectExactScalars c (jobPath @ ''.outputs'') outputs want)"

text \<open>The loop over the step policies stops when there is no step left.\<close>

fun check_steps :: "checker \<Rightarrow> string \<Rightarrow> nat \<Rightarrow> ynode list \<Rightarrow> releaseStepPolicy list \<Rightarrow> finding list" where
  "check_steps c jobPath idx (step # rest) (policy # policies) =
     checkAcceptedStep c (index_path (jobPath @ ''.steps'') idx) step policy @
     check_steps c jobPath (Suc idx) rest policies"
| "check_steps c jobPath idx _ _ = []"

definition checkAcceptedJobSteps :: "checker \<Rightarrow> string \<Rightarrow> ynode option \<Rightarrow> releaseJobPolicy \<Rightarrow> finding list" where
  "checkAcceptedJobSteps c jobPath job policy =
     (let jobSteps = steps job;
          gotStepIdentities = map stepIdentity jobSteps;
          wantStepIdentities = job_stepIdentities policy
      in if \<not> sameStringSlice gotStepIdentities wantStepIdentities
         then fail c (jobPath @ ''.steps'') (''steps must exactly match accepted release policy: got '' @
                fmt_qs c gotStepIdentities @ '', want '' @ fmt_qs c wantStepIdentities)
         else check_steps c jobPath 0 jobSteps (jp_steps policy))"

definition checkAcceptedJob :: "checker \<Rightarrow> string \<Rightarrow> ynode option \<Rightarrow> releaseJobPolicy \<Rightarrow> finding list" where
  "checkAcceptedJob c jobPath job policy =
     checkAcceptedJobEnvelope c jobPath job policy @
     checkAcceptedJobNeeds c jobPath job policy @
     checkAcceptedJobPermissions c jobPath job policy @
     checkAcceptedJobOutputs c jobPath job policy @
     checkAcceptedJobSteps c jobPath job policy"

definition checkAcceptedJobs :: "checker \<Rightarrow> ynode option \<Rightarrow> finding list" where
  "checkAcceptedJobs c jobs =
     concat (map (\<lambda>policy.
         let job = mapping jobs (jp_name policy)
         in if job = None then [] else checkAcceptedJob c (''jobs.'' @ jp_name policy) job policy)
       (rp_jobs (c_policy c)))"

definition checkActionPins :: "checker \<Rightarrow> ynode option \<Rightarrow> finding list" where
  "checkActionPins c jobs =
     concat (map (\<lambda>(path, uses).
         let (action, version, ok) = Cut uses CHR ''@''
         in if \<not> ok \<or> action = [] \<or> \<not> shaRef version
            then fail c (path @ ''.uses'') ''action must be pinned by 40-character SHA'' else [])
       (actionUses jobs))"

definition checkCheckoutCredentials :: "checker \<Rightarrow> ynode option \<Rightarrow> finding list" where
  "checkCheckoutCredentials c jobs =
     concat (map (\<lambda>jobName.
         if policy_job (c_policy c) jobName \<noteq> None then []
         else concat (map (\<lambda>(idx, step).
             if \<not> HasPrefix (scalar (mapping (Some step) ''uses'')) ''actions/checkout@'' then []
             else expectExactScalars c (index_path (''jobs.'' @ jobName @ ''.steps'') idx @ ''.with'')
                    (mapping (Some step) ''with'') [(''persist-credentials'', ''false'')])
           (enumerate 0 (steps (mapping jobs jobName)))))
       (mapKeys jobs))"

definition checkNoRunExpressions :: "checker \<Rightarrow> ynode option \<Rightarrow> finding list" where
  "checkNoRunExpressions c jobs =
     concat (map (\<lambda>(path, run).
         if strings_Contains run ''${{''
         then fail c (path @ ''.run'')
                ''run steps must not interpolate GitHub expression contexts; pass values through env''
         else [])
       (runSteps jobs))"

definition check_body :: "checker \<Rightarrow> ynode \<Rightarrow> finding list" where
  "check_body c root =
     checkRoot c root @ checkTriggers c root @ checkTopPermissions c root @
     (let jobs = mapping (Some root) ''jobs''
      in if jobs = None then fail c ''jobs'' ''missing jobs''
         else checkJobSet c jobs @ checkAcceptedJobs c jobs @ checkActionPins c jobs @
              checkCheckoutCredentials c jobs @ checkNoRunExpressions c jobs)"

definition checkWorkflowAgainstPolicy :: "checker \<Rightarrow> ynode \<Rightarrow> finding list" where
  "checkWorkflowAgainstPolicy c root =
     (let catalogue = checkAcceptedReleasePolicyCatalogue (c_policy c);
          duplicates = checkDuplicateKeys c ''$'' root
      in if catalogue \<noteq> [] then catalogue
         else if duplicates \<noteq> [] then duplicates
         else check_body c root)"

end
