(* ===== verification/Release_Repo.thy ===== *)
theory Release_Repo
  imports Release_Check
begin

text \<open>
  The files the release checker reads besides the workflow, and its command
  (\<^verbatim>\<open>tools/releasepolicy/main.go\<close>). \<^verbatim>\<open>yaml.Unmarshal\<close> into a \<^verbatim>\<open>yaml.Node\<close> is a parameter (the text of its error,
  or the document), and so is whether a file has an execute bit.
\<close>

section \<open>Reading\<close>

record outside =
  yaml_Unmarshal :: "string \<Rightarrow> string + ynode"
  exec_bit :: "string list \<Rightarrow> bool"
  out_q :: "string \<Rightarrow> string"
  out_qs :: "string list \<Rightarrow> string"

definition repo_path :: "string \<Rightarrow> string \<Rightarrow> ospath" where
  "repo_path repoRoot ref = (filepath_Join [repoRoot, ref], split_on CHR ''/'' ref)"

definition loadYAML :: "outside \<Rightarrow> node \<Rightarrow> ospath \<Rightarrow> gerror + ynode" where
  "loadYAML out root path =
     (case os_ReadFile root path of
        Inl err \<Rightarrow> Inl err
      | Inr content \<Rightarrow>
          (case yaml_Unmarshal out content of
             Inl e \<Rightarrow> Inl (ErrorString (fst path @ '': '' @ e))
           | Inr doc \<Rightarrow>
               if length (ycontent doc) \<noteq> 1
               then Inl (ErrorString (fst path @ '': expected one YAML document''))
               else Inr (ycontent doc ! 0)))"

definition os_Stat :: "node \<Rightarrow> ospath \<Rightarrow> gerror + kind" where
  "os_Stat root p =
     (case find_node root (snd p) of
        Inl e \<Rightarrow> Inl (PathError ''stat'' (fst p) e)
      | Inr n \<Rightarrow>
          (case resolve n of
             Inl e \<Rightarrow> Inl (PathError ''stat'' (fst p) e)
           | Inr n \<Rightarrow> Inr (kind_of n)))"

section \<open>Keys, scripts, configuration\<close>

definition checkAllowedSigners :: "node \<Rightarrow> string \<Rightarrow> finding list" where
  "checkAllowedSigners root repoRoot =
     (let path = repo_path repoRoot ''.github/allowed_signers''
      in case os_ReadFile root path of
           Inl err \<Rightarrow> [finding_at (fst path) (error_text err)]
         | Inr content \<Rightarrow>
             if crlf_to_lf content \<noteq> rp_expectedSigners acceptedReleasePolicy
             then [finding_at (fst path) ''allowed_signers must exactly match the accepted maintainer signing keys'']
             else [])"

definition check_script :: "outside \<Rightarrow> node \<Rightarrow> string \<Rightarrow> string \<Rightarrow> finding list" where
  "check_script out root repoRoot path =
     (let full = repo_path repoRoot path
      in case os_Stat root full of
           Inl err \<Rightarrow>
             if is_not_exist err then [finding_at (fst full) ''missing required release helper'']
             else [finding_at (fst full) (error_text err)]
         | Inr info \<Rightarrow>
             if info = Folder then [finding_at (fst full) ''expected file, got directory'']
             else if \<not> exec_bit out (snd full) then [finding_at (fst full) ''required release helper must be executable'']
             else [])"

definition checkRequiredScripts :: "outside \<Rightarrow> node \<Rightarrow> string \<Rightarrow> finding list" where
  "checkRequiredScripts out root repoRoot =
     concat (map (check_script out root repoRoot) (rp_requiredScripts acceptedReleasePolicy))"

text \<open>The checker of a configuration file has no policy.\<close>

definition no_policy :: releasePolicy where
  "no_policy = \<lparr>rp_workflowName = [], rp_rootKeys = [], rp_env = [], rp_concurrency = [], rp_triggerKeys = [], rp_pushKeys = [],
     rp_pushTags = [], rp_topPermission = [], rp_jobs = [], rp_requiredScripts = [], rp_requiredConfigs = [], rp_expectedSigners = []\<rparr>"

definition new_checker :: "outside \<Rightarrow> string \<Rightarrow> releasePolicy \<Rightarrow> checker" where
  "new_checker out path policy = \<lparr>c_path = path, c_policy = policy, fmt_q = out_q out, fmt_qs = out_qs out\<rparr>"

definition checkSyftReleaseConfig :: "outside \<Rightarrow> string \<Rightarrow> ynode \<Rightarrow> releaseConfigPolicy \<Rightarrow> finding list" where
  "checkSyftReleaseConfig out path root policy =
     (let c = new_checker out path no_policy; duplicates = checkDuplicateKeys c ''$'' root
      in if duplicates \<noteq> [] then duplicates
         else if ykind root \<noteq> MappingNode then fail c ''$'' ''release config must be a mapping''
         else
           expectOnlyKeys c ''$'' (Some root) [''source'', ''exclude''] @
           expectExactScalars c ''source'' (mapping (Some root) ''source'') [(''name'', cp_sourceName policy)] @
           expectExactStringSequence c ''exclude'' (mapping (Some root) ''exclude'') (cp_excludes policy))"

definition check_config :: "outside \<Rightarrow> node \<Rightarrow> string \<Rightarrow> releaseConfigPolicy \<Rightarrow> finding list" where
  "check_config out root repoRoot config =
     (let full = repo_path repoRoot (cp_path config)
      in case os_Lstat root full of
           Inl err \<Rightarrow>
             if is_not_exist err then [finding_at (fst full) ''missing required release config'']
             else [finding_at (fst full) (error_text err)]
         | Inr info \<Rightarrow>
             if info = Symlink then [finding_at (fst full) ''required release config must not be a symlink'']
             else if info = Folder then [finding_at (fst full) ''expected file, got directory'']
             else if info \<noteq> Regular then [finding_at (fst full) ''required release config must be a regular file'']
             else
               (case loadYAML out root full of
                  Inl err \<Rightarrow> [finding_at (fst full) (error_text err)]
                | Inr doc \<Rightarrow> checkSyftReleaseConfig out (fst full) doc config))"

definition checkRequiredConfigs :: "outside \<Rightarrow> node \<Rightarrow> string \<Rightarrow> finding list" where
  "checkRequiredConfigs out root repoRoot =
     concat (map (check_config out root repoRoot) (rp_requiredConfigs acceptedReleasePolicy))"

section \<open>The repository and the command\<close>

definition checkWorkflow :: "outside \<Rightarrow> string \<Rightarrow> ynode \<Rightarrow> finding list" where
  "checkWorkflow out path root = checkWorkflowAgainstPolicy (new_checker out path acceptedReleasePolicy) root"

definition releaseCheckRepo :: "outside \<Rightarrow> node \<Rightarrow> string \<Rightarrow> gerror + finding list" where
  "releaseCheckRepo out root repoRoot =
     (let workflowPath = repo_path repoRoot ''.github/workflows/release.yml''
      in case loadYAML out root workflowPath of
           Inl err \<Rightarrow> Inl err
         | Inr workflow \<Rightarrow>
             Inr (checkWorkflow out (fst workflowPath) workflow @
                  checkAllowedSigners root repoRoot @
                  checkRequiredScripts out root repoRoot @
                  checkRequiredConfigs out root repoRoot))"

record release_outcome =
  release_exit :: nat
  release_stdout :: "string list"
  release_stderr :: "string list"

definition release_main :: "outside \<Rightarrow> node \<Rightarrow> string \<Rightarrow> release_outcome" where
  "release_main out root repoRoot =
     (case releaseCheckRepo out root repoRoot of
        Inl err \<Rightarrow>
          \<lparr>release_exit = 2, release_stdout = [], release_stderr = [''release policy checker failed: '' @ error_text err]\<rparr>
      | Inr findings \<Rightarrow>
          if findings \<noteq> [] then
            \<lparr>release_exit = 1, release_stdout = [],
             release_stderr = map (\<lambda>f. finding_path f @ '': '' @ finding_msg f) (sortFindings findings)\<rparr>
          else \<lparr>release_exit = 0, release_stdout = [''release policy checker passed''], release_stderr = []\<rparr>)"

end
