(* ===== verification/Release_Accept.thy ===== *)
theory Release_Accept
  imports Release_Repo
begin

text \<open>
  What a workflow without findings is: each expectation of the checker as a property of the tree, and
  what follows for the workflow GitHub runs.
\<close>

section \<open>Expectations as properties\<close>

lemma fail_nonempty [simp]: "fail c p m \<noteq> []"
  by (simp add: fail_def)

lemma no_findings [simp]: "concat (map f xs) = [] \<longleftrightarrow> (\<forall>x \<in> set xs. f x = [])"
  by simp

declare concat_eq_Nil_conv [simp del]

text \<open>A text that may be absent when it is empty.\<close>

definition holds_text :: "ynode option \<Rightarrow> string \<Rightarrow> bool" where
  "holds_text n want \<longleftrightarrow>
     (case n of None \<Rightarrow> want = [] | Some m \<Rightarrow> ykind m = ScalarNode \<and> yvalue m = want)"

lemma expectExactScalar_ok: "expectExactScalar c p n want = [] \<longleftrightarrow> holds_text n want"
  by (auto simp: expectExactScalar_def scalarValue_def holds_text_def split: option.split)

lemma expectOptionalExactScalar_ok:
  "expectOptionalExactScalar c p n want = [] \<longleftrightarrow> (if want = [] then n = None else holds_text n want)"
  by (auto simp: expectOptionalExactScalar_def scalarValue_def holds_text_def split: option.split)

definition is_mapping :: "ynode option \<Rightarrow> bool" where
  "is_mapping n \<longleftrightarrow> (\<exists>m. n = Some m \<and> ykind m = MappingNode)"

definition exact_map :: "ynode option \<Rightarrow> smap \<Rightarrow> bool" where
  "exact_map n want \<longleftrightarrow> is_mapping n \<and> (\<forall>(key, v) \<in> set want. holds_text (mapping n key) v) \<and>
     set (mapKeys n) \<subseteq> fst ` set want"

lemma expectExactScalars_ok: "expectExactScalars c p n want = [] \<longleftrightarrow> exact_map n want"
  by (auto simp: expectExactScalars_def expectScalars_def exact_map_def is_mapping_def expectExactScalar_ok
      map_of_eq_None_iff Let_def split: option.splits)

lemma expectOptionalExactScalars_ok:
  "expectOptionalExactScalars c p n want = [] \<longleftrightarrow> (case want of None \<Rightarrow> n = None | Some w \<Rightarrow> exact_map n w)"
  by (simp add: expectOptionalExactScalars_def expectExactScalars_ok split: option.split)

lemma expectOnlyKeys_ok: "expectOnlyKeys c p n want = [] \<longleftrightarrow> is_mapping n \<and> set (mapKeys n) \<subseteq> set want"
  by (auto simp: expectOnlyKeys_def is_mapping_def split: option.splits)

lemma sameStringSet_set: "sameStringSet got want \<Longrightarrow> set got = set want"
  by (auto simp: sameStringSet_def list_all_iff split: if_splits)

lemmas expectations = expectExactScalar_ok expectOptionalExactScalar_ok expectExactScalars_ok
  expectOptionalExactScalars_ok expectOnlyKeys_ok

section \<open>Jobs and steps that match\<close>

definition script_matches :: "ynode option \<Rightarrow> string list option \<Rightarrow> bool" where
  "script_matches n lines \<longleftrightarrow>
     (case lines of
        None \<Rightarrow> n = None
      | Some ls \<Rightarrow> \<exists>m. n = Some m \<and> ykind m = ScalarNode \<and> scriptLines (yvalue m) = ls)"

definition uses_matches :: "ynode option \<Rightarrow> string \<Rightarrow> bool" where
  "uses_matches n pre \<longleftrightarrow>
     (if pre = [] then n = None else \<exists>m. n = Some m \<and> ykind m = ScalarNode \<and> HasPrefix (yvalue m) pre)"

definition optional_text :: "ynode option \<Rightarrow> string \<Rightarrow> bool" where
  "optional_text n want \<longleftrightarrow> (if want = [] then n = None else holds_text n want)"

definition optional_map :: "ynode option \<Rightarrow> smap option \<Rightarrow> bool" where
  "optional_map n want \<longleftrightarrow> (case want of None \<Rightarrow> n = None | Some w \<Rightarrow> exact_map n w)"

definition step_matches :: "ynode \<Rightarrow> releaseStepPolicy \<Rightarrow> bool" where
  "step_matches step p \<longleftrightarrow>
     (let get = mapping (Some step) in
      is_mapping (Some step) \<and>
      set (mapKeys (Some step)) \<subseteq> {''name'', ''id'', ''if'', ''uses'', ''run'', ''with'', ''env'', ''shell'', ''continue-on-error''} \<and>
      optional_text (get ''name'') (sp_name p) \<and> optional_text (get ''id'') (sp_id p) \<and>
      optional_text (get ''if'') (sp_ifCond p) \<and> optional_text (get ''shell'') (sp_shell p) \<and>
      optional_text (get ''continue-on-error'') (sp_continueOnError p) \<and>
      uses_matches (get ''uses'') (sp_usesPrefix p) \<and> script_matches (get ''run'') (sp_runLines p) \<and>
      optional_map (get ''with'') (sp_with p) \<and> optional_map (get ''env'') (sp_env p))"

lemma checkAcceptedStep_ok: "checkAcceptedStep c p step policy = [] \<longleftrightarrow> step_matches step policy"
proof -
  have "(if sp_usesPrefix policy = [] then if n \<noteq> None then fail c (p @ ''.uses'') ''unexpected uses'' else []
      else let (uses, ok) = scalarValue n
        in if n = None then fail c (p @ ''.uses'') (''uses must start with '' @ sp_usesPrefix policy)
           else if \<not> ok then fail c (p @ ''.uses'') ''uses must be a scalar''
           else if \<not> HasPrefix uses (sp_usesPrefix policy) then fail c (p @ ''.uses'') (''uses must start with '' @ sp_usesPrefix policy)
           else []) = [] \<longleftrightarrow> uses_matches n (sp_usesPrefix policy)" for n
    by (auto simp: uses_matches_def scalarValue_def split: option.splits)
  moreover have "(case sp_runLines policy of
        None \<Rightarrow> if n \<noteq> None then fail c (p @ ''.run'') ''unexpected run'' else []
      | Some runLines \<Rightarrow> let (run, ok) = scalarValue n
          in if n = None then fail c (p @ ''.run'') ''missing run''
             else if \<not> ok then fail c (p @ ''.run'') ''run must be a scalar''
             else requireExactScriptLines c (p @ ''.run'') run runLines) = [] \<longleftrightarrow> script_matches n (sp_runLines policy)" for n
    by (auto simp: script_matches_def scalarValue_def requireExactScriptLines_def split: option.splits)
  ultimately show ?thesis
    unfolding checkAcceptedStep_def Let_def append_is_Nil_conv
    by (simp add: expectations step_matches_def optional_text_def optional_map_def Let_def)
qed

lemma check_steps_ok:
  "length ss = length ps \<Longrightarrow> check_steps c p idx ss ps = [] \<longleftrightarrow> list_all2 step_matches ss ps"
  by (induction ss ps arbitrary: idx rule: list_induct2) (simp_all add: checkAcceptedStep_ok)

definition job_matches :: "ynode option \<Rightarrow> releaseJobPolicy \<Rightarrow> bool" where
  "job_matches job p \<longleftrightarrow>
     is_mapping job \<and>
     set (mapKeys job) \<subseteq> {''name'', ''if'', ''needs'', ''runs-on'', ''timeout-minutes'', ''permissions'', ''outputs'', ''steps''} \<and>
     holds_text (mapping job ''name'') (jp_displayName p) \<and> holds_text (mapping job ''runs-on'') (jp_runsOn p) \<and>
     holds_text (mapping job ''timeout-minutes'') (jp_timeoutMinutes p) \<and> holds_text (mapping job ''if'') (jp_ifCond p) \<and>
     (jp_needs p = None \<longrightarrow> mapping job ''needs'' = None) \<and> set (needs job) = set (nil_list (jp_needs p)) \<and>
     optional_map (mapping job ''permissions'') (jp_permissions p) \<and>
     optional_map (mapping job ''outputs'') (jp_outputs p) \<and>
     map stepIdentity (steps job) = job_stepIdentities p \<and>
     list_all2 step_matches (steps job) (jp_steps p)"

lemma checkAcceptedJob_ok:
  assumes "checkAcceptedJob c p job policy = []"
  shows "job_matches job policy"
proof -
  have parts: "checkAcceptedJobEnvelope c p job policy = []" "checkAcceptedJobNeeds c p job policy = []"
    "checkAcceptedJobPermissions c p job policy = []" "checkAcceptedJobOutputs c p job policy = []"
    "checkAcceptedJobSteps c p job policy = []"
    using assms by (simp_all add: checkAcceptedJob_def)
  have "optional_map (mapping job ''permissions'') (jp_permissions policy)" "optional_map (mapping job ''outputs'') (jp_outputs policy)"
    using parts(3,4) by (auto simp: checkAcceptedJobPermissions_def checkAcceptedJobOutputs_def optional_map_def expectations
        Let_def split: option.splits if_splits)
  moreover have ids: "map stepIdentity (steps job) = job_stepIdentities policy" "check_steps c p 0 (steps job) (jp_steps policy) = []"
    using parts(5) by (auto simp: checkAcceptedJobSteps_def Let_def split: if_splits)
  moreover have "list_all2 step_matches (steps job) (jp_steps policy)"
    using ids(2) map_eq_imp_length_eq [OF ids(1) [unfolded job_stepIdentities_def]] by (simp add: check_steps_ok)
  moreover have "(jp_needs policy = None \<longrightarrow> mapping job ''needs'' = None)" "set (needs job) = set (nil_list (jp_needs policy))"
    using parts(2) by (auto simp: checkAcceptedJobNeeds_def split: if_splits dest: sameStringSet_set)
  ultimately show ?thesis
    using parts(1) by (simp add: job_matches_def checkAcceptedJobEnvelope_def expectations)
qed

section \<open>The whole workflow\<close>

lemma first_value_key: "first_value key ps = Some v \<Longrightarrow> key \<in> (\<lambda>(k, _). yvalue k) ` set ps"
  by (induction ps) (auto split: if_splits)

lemma mapping_key: "mapping n key = Some v \<Longrightarrow> key \<in> set (mapKeys n)"
  by (auto simp: mapping_def mapKeys_def split: option.splits if_splits dest: first_value_key)

definition flow_job :: "ynode \<Rightarrow> string \<Rightarrow> ynode option" where
  "flow_job flow name = mapping (mapping (Some flow) ''jobs'') name"

text \<open>A job waits for the jobs its \<^verbatim>\<open>needs\<close> names; an action is pinned by a commit.\<close>

definition waits_for :: "ynode \<Rightarrow> (string \<times> string) set" where
  "waits_for flow = {(a, b). b \<in> set (needs (flow_job flow a))}"

definition grants :: "ynode option \<Rightarrow> string \<Rightarrow> string \<Rightarrow> bool" where
  "grants job permission level \<longleftrightarrow> scalar (mapping (mapping job ''permissions'') permission) = level"

definition pinned :: "string \<Rightarrow> bool" where
  "pinned uses \<longleftrightarrow> (\<exists>action sha. uses = action @ ''@'' @ sha \<and> action \<noteq> [] \<and> shaRef sha)"

lemma Cut_pinned: "Cut uses CHR ''@'' = (action, version, True) \<Longrightarrow> action \<noteq> [] \<Longrightarrow> shaRef version \<Longrightarrow> pinned uses"
proof -
  assume cut: "Cut uses CHR ''@'' = (action, version, True)" "action \<noteq> []" "shaRef version"
  obtain rest where "dropWhile (\<lambda>x. x \<noteq> CHR ''@'') uses = CHR ''@'' # rest"
    using cut(1) by (cases "dropWhile (\<lambda>x. x \<noteq> CHR ''@'') uses")
      (auto simp: Cut_def dropWhile_eq_Nil_conv dest: hd_dropWhile [of "\<lambda>x. x \<noteq> CHR ''@''" uses, simplified])
  then have "uses = action @ ''@'' @ version"
    using cut(1) takeWhile_dropWhile_id [of "\<lambda>x. x \<noteq> CHR ''@''" uses] by (auto simp: Cut_def)
  with cut show "pinned uses" by (auto simp: pinned_def)
qed

lemma step_refs_complete:
  assumes "name \<in> set (mapKeys jobs)" "step \<in> set (steps (mapping jobs name))" "scalar (mapping (Some step) key) \<noteq> []"
  shows "\<exists>path. (path, scalar (mapping (Some step) key)) \<in> set (step_refs key jobs)"
proof -
  obtain i where "i < length (steps (mapping jobs name))" "steps (mapping jobs name) ! i = step"
    using assms(2) by (auto simp: in_set_conv_nth)
  then have "(i, step) \<in> set (enumerate 0 (steps (mapping jobs name)))"
    by (simp add: in_set_enumerate_eq)
  then show ?thesis
    using assms(1,3) by (force simp: step_refs_def Let_def)
qed

lemma workflow_ok:
  assumes "checkWorkflowAgainstPolicy c flow = []"
  shows "check_body c flow = []"
  using assms by (simp add: checkWorkflowAgainstPolicy_def Let_def split: if_splits)

lemma workflow_jobs_ok:
  assumes "check_body c flow = []"
  shows "set (mapKeys (mapping (Some flow) ''jobs'')) = set (policy_jobNames (c_policy c))"
    "p \<in> set (rp_jobs (c_policy c)) \<Longrightarrow> job_matches (flow_job flow (jp_name p)) p"
    "step \<in> set (steps (flow_job flow name)) \<Longrightarrow> scalar (mapping (Some step) ''uses'') \<noteq> [] \<Longrightarrow>
       pinned (scalar (mapping (Some step) ''uses''))"
    "step \<in> set (steps (flow_job flow name)) \<Longrightarrow> \<not> strings_Contains (scalar (mapping (Some step) ''run'')) ''${{''"
proof -
  let ?jobs = "mapping (Some flow) ''jobs''"
  have jobs: "checkJobSet c ?jobs = []" "checkAcceptedJobs c ?jobs = []" "checkActionPins c ?jobs = []" "checkNoRunExpressions c ?jobs = []"
    using assms by (auto simp: check_body_def Let_def split: if_splits)
  have set1: "name \<in> set (policy_jobNames (c_policy c)) \<Longrightarrow> mapping ?jobs name \<noteq> None"
    and set2: "name \<in> set (mapKeys ?jobs) \<Longrightarrow> name \<in> set (policy_jobNames (c_policy c))" for name
    using jobs(1) by (auto simp: checkJobSet_def Let_def split: if_splits)
  then show "set (mapKeys ?jobs) = set (policy_jobNames (c_policy c))"
    using mapping_key by fast
  show "job_matches (flow_job flow (jp_name p)) p" if "p \<in> set (rp_jobs (c_policy c))"
  proof -
    have "mapping ?jobs (jp_name p) \<noteq> None"
      using set1 that by (auto simp: policy_jobNames_def)
    then have "checkAcceptedJob c (''jobs.'' @ jp_name p) (mapping ?jobs (jp_name p)) p = []"
      using jobs(2) that by (auto simp: checkAcceptedJobs_def Let_def)
    then show ?thesis unfolding flow_job_def by (rule checkAcceptedJob_ok)
  qed
  have name: "name \<in> set (mapKeys ?jobs)" if "step \<in> set (steps (flow_job flow name))" for step name
    using that mapping_key by (cases "mapping ?jobs name") (auto simp: flow_job_def steps_def mapping_def)
  show "pinned (scalar (mapping (Some step) ''uses''))"
    if s: "step \<in> set (steps (flow_job flow name))" and u: "scalar (mapping (Some step) ''uses'') \<noteq> []"
  proof -
    obtain path where "(path, scalar (mapping (Some step) ''uses'')) \<in> set (actionUses ?jobs)"
      using step_refs_complete [OF name [OF s] _ u] s unfolding flow_job_def actionUses_def by blast
    then show ?thesis
      using jobs(3) by (fastforce simp: checkActionPins_def case_prod_beta Let_def prod_eq_iff split: if_splits intro: Cut_pinned)
  qed
  show "\<not> strings_Contains (scalar (mapping (Some step) ''run'')) ''${{''" if s: "step \<in> set (steps (flow_job flow name))"
  proof (cases "scalar (mapping (Some step) ''run'') = []")
    case False
    then obtain path where "(path, scalar (mapping (Some step) ''run'')) \<in> set (runSteps ?jobs)"
      using step_refs_complete [OF name [OF s] _ False] s unfolding flow_job_def runSteps_def by blast
    then show ?thesis
      using jobs(4) by (auto simp: checkNoRunExpressions_def split: if_splits)
  qed simp
qed

section \<open>The accepted workflow\<close>

lemma accepted_names:
  "policy_jobNames acceptedReleasePolicy =
     [''unsupported-ref'', ''verify-tag'', ''check'', ''race'', ''vuln'', ''gosec'', ''sbom'', ''sbom-attestation'', ''release'']"
  by code_simp

lemma accepted_jobs:
  "rp_jobs acceptedReleasePolicy =
     [jobUnsupportedRef, jobVerifyTag, jobCheck, jobRace, jobVuln, jobGosec, jobSbom, jobSbomAttestation, jobRelease]"
  by (simp add: acceptedReleasePolicy_def)

lemma accepted_write:
  "list_all (\<lambda>p. jp_name p = ''release'' \<or> (''contents'', ''write'') \<notin> set (nil_list (jp_permissions p))) (rp_jobs acceptedReleasePolicy)"
  by code_simp

lemma accepted_needs:
  "nil_list (jp_needs jobRelease) = [''verify-tag'', ''sbom'', ''sbom-attestation'']" "jp_name jobRelease = ''release''"
  "nil_list (jp_needs jobSbom) = [''verify-tag'', ''check'', ''race'', ''vuln'', ''gosec'']" "jp_name jobSbom = ''sbom''"
  "jp_ifCond jobRelease = tagGuard"
  by code_simp+

lemma accepted_top:
  "rp_topPermission acceptedReleasePolicy = [(''contents'', ''read'')]" "rp_pushTags acceptedReleasePolicy = [''v*'']"
  "rp_triggerKeys acceptedReleasePolicy = [''push'', ''workflow_dispatch'']"
  by (simp_all add: acceptedReleasePolicy_def)

lemma optional_map_write:
  assumes "optional_map n w" "scalar (mapping n key) = v" "v \<noteq> []"
  shows "(key, v) \<in> set (nil_list w)"
proof -
  obtain m where m: "mapping n key = Some m" "ykind m = ScalarNode" "yvalue m = v"
    using assms(2,3) by (auto simp: scalar_def scalarValue_def split: option.splits if_splits)
  then have "n \<noteq> None" by (auto simp: mapping_def split: option.splits)
  then obtain ws where ws: "w = Some ws" "exact_map n ws"
    using assms(1) by (auto simp: optional_map_def split: option.splits)
  moreover have "key \<in> fst ` set ws"
    using mapping_key [OF m(1)] ws(2) by (auto simp: exact_map_def)
  then obtain v' where "(key, v') \<in> set ws" by auto
  moreover have "holds_text (mapping n key) v'"
    using ws(2) \<open>(key, v') \<in> set ws\<close> by (auto simp: exact_map_def)
  ultimately show ?thesis
    using m by (auto simp: holds_text_def nil_list_def)
qed

text \<open>From here on, a workflow without findings for the accepted policy.\<close>

lemma accepted_body:
  assumes "checkWorkflow out path flow = []"
  obtains c where "c_policy c = acceptedReleasePolicy" "check_body c flow = []"
proof -
  have "check_body (new_checker out path acceptedReleasePolicy) flow = []"
    using assms unfolding checkWorkflow_def by (rule workflow_ok)
  then show thesis
    by (rule that [rotated]) (simp add: new_checker_def)
qed

lemma accepted_triggers:
  assumes "checkWorkflow out path flow = []"
  shows "set (mapKeys (mapping (Some flow) ''on'')) = {''push'', ''workflow_dispatch''}"
    "set (seqStrings (mapping (mapping (mapping (Some flow) ''on'') ''push'') ''tags'')) = {''v*''}"
    "set (mapKeys (mapping (Some flow) ''permissions'')) \<subseteq> {''contents''}" "grants (Some flow) ''contents'' ''read''"
proof -
  obtain c where pol: "c_policy c = acceptedReleasePolicy" and body: "check_body c flow = []"
    using assms by (rule accepted_body)
  then have top: "checkTriggers c flow = []" "checkTopPermissions c flow = []"
    by (auto simp: check_body_def)
  show "set (mapKeys (mapping (Some flow) ''on'')) = {''push'', ''workflow_dispatch''}"
    "set (seqStrings (mapping (mapping (mapping (Some flow) ''on'') ''push'') ''tags'')) = {''v*''}"
    using top(1) by (auto simp: checkTriggers_def pol accepted_top Let_def dest!: sameStringSet_set split: if_splits)
  show "set (mapKeys (mapping (Some flow) ''permissions'')) \<subseteq> {''contents''}" "grants (Some flow) ''contents'' ''read''"
    using top(2) by (auto simp: checkTopPermissions_def pol accepted_top Let_def map_get_def expectations holds_text_def
        grants_def scalar_def scalarValue_def split: if_splits option.splits)
qed

lemma accepted_steps:
  assumes "checkWorkflow out path flow = []"
  shows "set (mapKeys (mapping (Some flow) ''jobs'')) = set (policy_jobNames acceptedReleasePolicy)"
    "p \<in> set (rp_jobs acceptedReleasePolicy) \<Longrightarrow> job_matches (flow_job flow (jp_name p)) p"
    "\<forall>name. \<forall>step \<in> set (steps (flow_job flow name)).
       (scalar (mapping (Some step) ''uses'') \<noteq> [] \<longrightarrow> pinned (scalar (mapping (Some step) ''uses''))) \<and>
       \<not> strings_Contains (scalar (mapping (Some step) ''run'')) ''${{''"
proof -
  obtain c where pol: "c_policy c = acceptedReleasePolicy" and body: "check_body c flow = []"
    using assms by (rule accepted_body)
  note jobs = workflow_jobs_ok [OF body, unfolded pol]
  show "set (mapKeys (mapping (Some flow) ''jobs'')) = set (policy_jobNames acceptedReleasePolicy)"
    by (rule jobs(1))
  show "job_matches (flow_job flow (jp_name p)) p" if "p \<in> set (rp_jobs acceptedReleasePolicy)"
    using that by (rule jobs(2))
  show "\<forall>name. \<forall>step \<in> set (steps (flow_job flow name)).
       (scalar (mapping (Some step) ''uses'') \<noteq> [] \<longrightarrow> pinned (scalar (mapping (Some step) ''uses''))) \<and>
       \<not> strings_Contains (scalar (mapping (Some step) ''run'')) ''${{''"
    using jobs(3,4) by (intro allI ballI conjI impI)
qed

lemma accepted_writer:
  assumes ok: "checkWorkflow out path flow = []" and g: "grants (flow_job flow name) ''contents'' ''write''"
  shows "name = ''release''"
proof -
  have "flow_job flow name \<noteq> None"
    using g by (cases "flow_job flow name") (simp_all add: grants_def mapping_def scalar_def scalarValue_def)
  then have "name \<in> set (policy_jobNames acceptedReleasePolicy)"
    using accepted_steps(1) [OF ok] mapping_key unfolding flow_job_def by blast
  then obtain p where p: "p \<in> set (rp_jobs acceptedReleasePolicy)" "jp_name p = name"
    by (auto simp: policy_jobNames_def)
  then have "optional_map (mapping (flow_job flow name) ''permissions'') (jp_permissions p)"
    using accepted_steps(2) [OF ok p(1)] by (auto simp: job_matches_def)
  then have "(''contents'', ''write'') \<in> set (nil_list (jp_permissions p))"
    using g unfolding grants_def by (rule optional_map_write) simp
  then show ?thesis
    using accepted_write p by (auto simp: list_all_iff)
qed

lemma accepted_release:
  assumes ok: "checkWorkflow out path flow = []"
  shows "holds_text (mapping (flow_job flow ''release'') ''if'') tagGuard"
    "\<forall>gate \<in> {''verify-tag'', ''check'', ''race'', ''vuln'', ''gosec'', ''sbom'', ''sbom-attestation''}.
       (''release'', gate) \<in> (waits_for flow)\<^sup>+"
proof -
  have rel: "set (needs (flow_job flow ''release'')) = {''verify-tag'', ''sbom'', ''sbom-attestation''}"
    "set (needs (flow_job flow ''sbom'')) = {''verify-tag'', ''check'', ''race'', ''vuln'', ''gosec''}"
    "holds_text (mapping (flow_job flow ''release'') ''if'') tagGuard"
    using accepted_steps(2) [OF ok, of jobRelease] accepted_steps(2) [OF ok, of jobSbom]
    by (auto simp: accepted_jobs accepted_needs job_matches_def)
  show "holds_text (mapping (flow_job flow ''release'') ''if'') tagGuard"
    by (rule rel(3))
  have direct: "(''release'', x) \<in> (waits_for flow)\<^sup>+" if "x \<in> {''verify-tag'', ''sbom'', ''sbom-attestation''}" for x
    using that rel(1) by (intro r_into_trancl) (simp add: waits_for_def)
  have via: "(''release'', x) \<in> (waits_for flow)\<^sup>+" if "x \<in> {''verify-tag'', ''check'', ''race'', ''vuln'', ''gosec''}" for x
    using that rel(2) by (intro trancl_into_trancl [OF direct [of "''sbom''"]]) (simp_all add: waits_for_def)
  show "\<forall>gate \<in> {''verify-tag'', ''check'', ''race'', ''vuln'', ''gosec'', ''sbom'', ''sbom-attestation''}.
       (''release'', gate) \<in> (waits_for flow)\<^sup>+"
    using direct via by simp
qed


section \<open>A run that passes\<close>

definition config_matches :: "ynode \<Rightarrow> releaseConfigPolicy \<Rightarrow> bool" where
  "config_matches doc p \<longleftrightarrow>
     is_mapping (Some doc) \<and> set (mapKeys (Some doc)) \<subseteq> {''source'', ''exclude''} \<and>
     exact_map (mapping (Some doc) ''source'') [(''name'', cp_sourceName p)] \<and>
     (\<exists>m. mapping (Some doc) ''exclude'' = Some m \<and> ykind m = SequenceNode \<and>
        map (\<lambda>item. (ykind item, yvalue item)) (ycontent m) = map (Pair ScalarNode) (cp_excludes p))"

lemma sequence_items_ok:
  "sequence_items c p i items = (want, []) \<longleftrightarrow> map (\<lambda>item. (ykind item, yvalue item)) items = map (Pair ScalarNode) want"
proof (induction items arbitrary: i want)
  case (Cons item items)
  then show ?case
    by (cases want) (auto simp: scalarValue_def case_prod_beta prod_eq_iff)
qed auto

lemma expectExactStringSequence_ok:
  "expectExactStringSequence c p n want = [] \<longleftrightarrow>
     (\<exists>m. n = Some m \<and> ykind m = SequenceNode \<and>
        map (\<lambda>item. (ykind item, yvalue item)) (ycontent m) = map (Pair ScalarNode) want)"
proof (cases n)
  case (Some m)
  have "expectExactStringSequence c p n want = [] \<longleftrightarrow> ykind m = SequenceNode \<and> sequence_items c p 0 (ycontent m) = (want, [])"
    by (auto simp: expectExactStringSequence_def Some case_prod_beta prod_eq_iff)
  with Some show ?thesis by (auto simp: sequence_items_ok)
qed (simp add: expectExactStringSequence_def)

lemma checkSyftReleaseConfig_ok:
  "checkSyftReleaseConfig out path doc p = [] \<longleftrightarrow>
     checkDuplicateKeys (new_checker out path no_policy) ''$'' doc = [] \<and> config_matches doc p"
  by (auto simp: checkSyftReleaseConfig_def Let_def expectations expectExactStringSequence_ok config_matches_def is_mapping_def)

text \<open>
  C30: when the release checker exits with 0. It does exactly when the workflow can be loaded and has no
  finding; the list of signers is the accepted one, up to line ends; every helper script is a file with an
  execute bit; and every required configuration is a regular file, no link, whose YAML has no duplicate key and
  says exactly what the policy says.
\<close>

theorem release_passes:
  "release_exit (release_main out root repoRoot) = 0 \<longleftrightarrow>
     (\<exists>flow. loadYAML out root (repo_path repoRoot ''.github/workflows/release.yml'') = Inr flow \<and>
        checkWorkflow out (fst (repo_path repoRoot ''.github/workflows/release.yml'')) flow = []) \<and>
     (\<exists>content. os_ReadFile root (repo_path repoRoot ''.github/allowed_signers'') = Inr content \<and>
        crlf_to_lf content = rp_expectedSigners acceptedReleasePolicy) \<and>
     list_all (\<lambda>script. (\<exists>k. os_Stat root (repo_path repoRoot script) = Inr k \<and> k \<noteq> Folder) \<and>
        exec_bit out (split_on CHR ''/'' script)) (rp_requiredScripts acceptedReleasePolicy) \<and>
     list_all (\<lambda>config. os_Lstat root (repo_path repoRoot (cp_path config)) = Inr Regular \<and>
        (\<exists>doc. loadYAML out root (repo_path repoRoot (cp_path config)) = Inr doc \<and>
           checkDuplicateKeys (new_checker out (fst (repo_path repoRoot (cp_path config))) no_policy) ''$'' doc = [] \<and>
           config_matches doc config)) (rp_requiredConfigs acceptedReleasePolicy)"
proof -
  have signers: "checkAllowedSigners root repoRoot = [] \<longleftrightarrow>
      (\<exists>content. os_ReadFile root (repo_path repoRoot ''.github/allowed_signers'') = Inr content \<and>
         crlf_to_lf content = rp_expectedSigners acceptedReleasePolicy)"
    by (auto simp: checkAllowedSigners_def Let_def split: sum.split)
  have script: "check_script out root repoRoot s = [] \<longleftrightarrow>
      (\<exists>k. os_Stat root (repo_path repoRoot s) = Inr k \<and> k \<noteq> Folder) \<and> exec_bit out (split_on CHR ''/'' s)" for s
    by (auto simp: check_script_def Let_def repo_path_def split: sum.split)
  have config: "check_config out root repoRoot p = [] \<longleftrightarrow> os_Lstat root (repo_path repoRoot (cp_path p)) = Inr Regular \<and>
      (\<exists>doc. loadYAML out root (repo_path repoRoot (cp_path p)) = Inr doc \<and>
         checkDuplicateKeys (new_checker out (fst (repo_path repoRoot (cp_path p))) no_policy) ''$'' doc = [] \<and> config_matches doc p)" for p
    by (auto simp: check_config_def Let_def checkSyftReleaseConfig_ok split: sum.split)
  have "release_exit (release_main out root repoRoot) = 0 \<longleftrightarrow> releaseCheckRepo out root repoRoot = Inr []"
    by (auto simp: release_main_def split: sum.split)
  then show ?thesis
    by (auto simp: releaseCheckRepo_def checkRequiredScripts_def checkRequiredConfigs_def signers script config list_all_iff
        Let_def split: sum.splits)
qed

end
