(* ===== verification/Release_Render.thy ===== *)
theory Release_Render
  imports Release_Accept
begin

text \<open>
  The workflow a policy describes, and that the checker accepts it: for every well-formed policy, and for
  the accepted one in particular, there is a workflow without findings.
\<close>

section \<open>The workflow of a policy\<close>

definition ytext :: "string \<Rightarrow> ynode" where
  "ytext s = YNode ScalarNode s []"

definition yseq :: "ynode list \<Rightarrow> ynode" where
  "yseq items = YNode SequenceNode [] items"

definition ymap :: "(string \<times> ynode) list \<Rightarrow> ynode" where
  "ymap kvs = YNode MappingNode [] (concat (map (\<lambda>(k, v). [ytext k, v]) kvs))"

definition ytexts :: "smap \<Rightarrow> ynode" where
  "ytexts m = ymap (map (\<lambda>(k, v). (k, ytext v)) m)"

definition opt_text :: "string \<Rightarrow> string \<Rightarrow> (string \<times> ynode) list" where
  "opt_text key v = (if v = [] then [] else [(key, ytext v)])"

definition opt_map :: "string \<Rightarrow> smap option \<Rightarrow> (string \<times> ynode) list" where
  "opt_map key m = (case m of None \<Rightarrow> [] | Some m \<Rightarrow> [(key, ytexts m)])"

definition script_of :: "string list \<Rightarrow> string" where
  "script_of ls = join_with [CHR 0x0A] ls"

definition step_of :: "string \<Rightarrow> releaseStepPolicy \<Rightarrow> ynode" where
  "step_of sha p = ymap (
     opt_text ''name'' (sp_name p) @ opt_text ''id'' (sp_id p) @ opt_text ''if'' (sp_ifCond p) @
     opt_text ''shell'' (sp_shell p) @ opt_text ''continue-on-error'' (sp_continueOnError p) @
     (if sp_usesPrefix p = [] then [] else [(''uses'', ytext (sp_usesPrefix p @ sha))]) @
     (case sp_runLines p of None \<Rightarrow> [] | Some ls \<Rightarrow> [(''run'', ytext (script_of ls))]) @
     opt_map ''with'' (sp_with p) @ opt_map ''env'' (sp_env p))"

definition job_of :: "string \<Rightarrow> releaseJobPolicy \<Rightarrow> ynode" where
  "job_of sha p = ymap (
     opt_text ''name'' (jp_displayName p) @ opt_text ''if'' (jp_ifCond p) @
     (case jp_needs p of None \<Rightarrow> [] | Some ns \<Rightarrow> [(''needs'', yseq (map ytext ns))]) @
     opt_text ''runs-on'' (jp_runsOn p) @ opt_text ''timeout-minutes'' (jp_timeoutMinutes p) @
     opt_map ''permissions'' (jp_permissions p) @ opt_map ''outputs'' (jp_outputs p) @
     [(''steps'', yseq (map (step_of sha) (jp_steps p)))])"

definition workflow_of :: "string \<Rightarrow> releasePolicy \<Rightarrow> ynode" where
  "workflow_of sha p = ymap
     [(''name'', ytext (rp_workflowName p)),
      (''on'', ymap [(''push'', ymap [(''tags'', yseq (map ytext (rp_pushTags p)))]), (''workflow_dispatch'', ytext [])]),
      (''permissions'', ytexts (rp_topPermission p)), (''env'', ytexts (rp_env p)), (''concurrency'', ytexts (rp_concurrency p)),
      (''jobs'', ymap (map (\<lambda>j. (jp_name j, job_of sha j)) (rp_jobs p)))]"

section \<open>Well-formed policies\<close>

definition smap_ok :: "smap option \<Rightarrow> bool" where
  "smap_ok m \<longleftrightarrow> (case m of None \<Rightarrow> True | Some m \<Rightarrow> distinct (map fst m))"

definition line_trimmed :: "string \<Rightarrow> bool" where
  "line_trimmed l \<longleftrightarrow> l \<noteq> [] \<and> \<not> HasPrefix l ''#'' \<and> CHR 0x0A \<notin> set l \<and> TrimSpace l = l"

definition script_ok :: "string list option \<Rightarrow> bool" where
  "script_ok ls \<longleftrightarrow> (case ls of None \<Rightarrow> True
     | Some ls \<Rightarrow> list_all (\<lambda>l. line_trimmed l \<and> \<not> strings_Contains l ''${{'') ls)"

text \<open>The prefix of an action is its name and the sign that separates the version.\<close>

definition prefix_ok :: "string \<Rightarrow> bool" where
  "prefix_ok pre \<longleftrightarrow> pre = [] \<or> butlast pre \<noteq> [] \<and> last pre = CHR ''@'' \<and> CHR ''@'' \<notin> set (butlast pre)"

definition identity_ok :: "releaseStepPolicy \<Rightarrow> bool" where
  "identity_ok p \<longleftrightarrow>
     sp_identity p = (if sp_name p \<noteq> [] then sp_name p
                      else if sp_usesPrefix p \<noteq> [] then ''uses:'' @ butlast (sp_usesPrefix p) else ''unnamed'')"

definition step_ok :: "releaseStepPolicy \<Rightarrow> bool" where
  "step_ok p \<longleftrightarrow> identity_ok p \<and> prefix_ok (sp_usesPrefix p) \<and> script_ok (sp_runLines p) \<and>
     smap_ok (sp_with p) \<and> smap_ok (sp_env p)"

definition job_ok :: "releaseJobPolicy \<Rightarrow> bool" where
  "job_ok p \<longleftrightarrow> smap_ok (jp_permissions p) \<and> smap_ok (jp_outputs p) \<and> list_all step_ok (jp_steps p)"

definition policy_ok :: "releasePolicy \<Rightarrow> bool" where
  "policy_ok p \<longleftrightarrow>
     checkAcceptedReleasePolicyCatalogue p = [] \<and>
     sameStringSet (rp_rootKeys p) [''name'', ''on'', ''permissions'', ''env'', ''concurrency'', ''jobs''] \<and>
     sameStringSet (rp_triggerKeys p) [''push'', ''workflow_dispatch''] \<and> rp_pushKeys p = [''tags''] \<and>
     map fst (rp_topPermission p) = [''contents''] \<and>
     distinct (map fst (rp_env p)) \<and> distinct (map fst (rp_concurrency p)) \<and>
     distinct (policy_jobNames p) \<and> list_all job_ok (rp_jobs p)"

lemma accepted_job_ok:
  "job_ok jobUnsupportedRef" "job_ok jobVerifyTag" "job_ok jobCheck" "job_ok jobRace" "job_ok jobVuln" "job_ok jobGosec"
  "job_ok jobSbom" "job_ok jobSbomAttestation"
  by code_simp+

lemma accepted_release_ok: "job_ok jobRelease"
  by code_simp

lemma accepted_catalogue: "checkAcceptedReleasePolicyCatalogue acceptedReleasePolicy = []"
  by code_simp

lemma policy_ok_accepted: "policy_ok acceptedReleasePolicy"
  unfolding policy_ok_def accepted_jobs accepted_names
  by (simp add: accepted_catalogue accepted_job_ok accepted_release_ok)
     (simp add: acceptedReleasePolicy_def sameStringSet_def)

section \<open>Reading what was rendered\<close>

lemma pairs_ymap: "pairs (concat (map (\<lambda>(k, v). [ytext k, v]) kvs)) = map (\<lambda>(k, v). (ytext k, v)) kvs"
  by (induction kvs) auto

lemma yvalue_ytext [simp]: "yvalue (ytext s) = s" "ykind (ytext s) = ScalarNode"
  by (simp_all add: ytext_def)

lemma ykind_render [simp]: "ykind (ymap kvs) = MappingNode" "ykind (ytexts m) = MappingNode" "ykind (yseq xs) = SequenceNode"
  "ycontent (yseq xs) = xs"
  by (simp_all add: ymap_def ytexts_def yseq_def)

lemma mapping_ymap [simp]: "mapping (Some (ymap kvs)) key = map_of kvs key"
proof -
  have "first_value key (map (\<lambda>(k, v). (ytext k, v)) kvs) = map_of kvs key"
    by (induction kvs) auto
  then show ?thesis by (simp add: mapping_def ymap_def pairs_ymap)
qed

lemma mapKeys_ymap: "mapKeys (Some (ymap kvs)) = sort (map fst kvs)"
  by (simp add: mapKeys_def ymap_def pairs_ymap comp_def case_prod_beta)

lemma set_mapKeys_ymap [simp]: "set (mapKeys (Some (ymap kvs))) = fst ` set kvs"
  by (simp add: mapKeys_ymap)

lemma is_mapping_ymap [simp]: "is_mapping (Some (ymap kvs))"
  by (simp add: is_mapping_def)

lemma holds_text_ytext [simp]: "holds_text (Some (ytext s)) want \<longleftrightarrow> s = want" "holds_text None want \<longleftrightarrow> want = []"
  by (simp_all add: holds_text_def)

lemma scalar_ytext [simp]: "scalar (Some (ytext s)) = s" "scalar None = []"
  by (simp_all add: scalar_def scalarValue_def)

lemma map_of_ytexts: "map_of (map (\<lambda>(k, v). (k, ytext v)) m) key = map_option ytext (map_of m key)"
  by (induction m) auto

lemma exact_map_ytexts: "distinct (map fst m) \<Longrightarrow> exact_map (Some (ytexts m)) m"
  by (auto simp: exact_map_def ytexts_def map_of_ytexts intro: rev_image_eqI)

lemma map_of_opt_text: "map_of (opt_text key v @ rest) k = (if k = key \<and> v \<noteq> [] then Some (ytext v) else map_of rest k)"
  by (simp add: opt_text_def)

lemma map_of_opt_map:
  "map_of (opt_map key m @ rest) k = (if k = key \<and> m \<noteq> None then map_option ytexts m else map_of rest k)"
  "map_of (opt_map key m) k = (if k = key then map_option ytexts m else None)"
  by (simp_all add: opt_map_def split: option.split)

lemma optional_map_render: "smap_ok m \<Longrightarrow> optional_map (map_option ytexts m) m"
  by (cases m) (simp_all add: optional_map_def smap_ok_def exact_map_ytexts)

lemma keys_opt [simp]: "fst ` set (opt_text key v) \<subseteq> S \<longleftrightarrow> v = [] \<or> key \<in> S" "fst ` set (opt_map key m) \<subseteq> S \<longleftrightarrow> m = None \<or> key \<in> S"
  by (auto simp: opt_text_def) (cases m; auto simp: opt_map_def)+

text \<open>A script is read back as its lines.\<close>

lemma scriptLines_script_of:
  assumes "list_all line_trimmed ls"
  shows "scriptLines (script_of ls) = ls"
proof (cases "ls = []")
  case True
  have "TrimSpace [] = []" by code_simp
  with True show ?thesis by (simp add: scriptLines_def script_of_def)
next
  case False
  then have "split_on CHR 0x0A (script_of ls) = ls"
    using assms unfolding script_of_def by (intro split_join) (auto simp: list_all_iff line_trimmed_def)
  moreover have "map TrimSpace ls = ls" "filter (\<lambda>line. \<not> (line = [] \<or> HasPrefix line ''#'')) ls = ls"
    using assms by (simp_all add: list_all_iff line_trimmed_def map_idI)
  ultimately show ?thesis by (simp add: scriptLines_def)
qed

lemma strings_Contains_iff: "strings_Contains s t \<longleftrightarrow> (\<exists>u v. s = u @ t @ v)"
proof (induction s)
  case (Cons c s)
  then show ?case by (auto simp: HasPrefix_iff) (metis append_Cons append_eq_Cons_conv append.left_neutral)+
qed auto

lemma contains_line:
  assumes "strings_Contains (l @ d # rest) t" "d \<notin> set t"
  shows "strings_Contains l t \<or> strings_Contains rest t"
proof -
  obtain u v where uv: "l @ d # rest = u @ t @ v"
    using assms(1) by (auto simp: strings_Contains_iff)
  then consider w where "l = u @ w" "w @ d # rest = t @ v" | w where "u = l @ w" "d # rest = w @ t @ v"
    by (auto simp: append_eq_append_conv2)
  then show ?thesis
  proof cases
    case 1
    then consider w' where "w = t @ w'" | w' where "t = w @ w'" "d # rest = w' @ v"
      by (auto simp: append_eq_append_conv2)
    then show ?thesis
    proof cases
      case 2
      then have "w' = []" using assms(2) by (cases w') auto
      with 1 2 have "l = u @ t @ []" by simp
      then show ?thesis unfolding strings_Contains_iff by blast
    qed (use 1 in \<open>auto simp: strings_Contains_iff\<close>)
  next
    case 2
    show ?thesis
    proof (cases w)
      case Nil
      then have "t = []" using 2 assms(2) by (cases t) auto
      then show ?thesis by (auto simp: strings_Contains_iff)
    qed (use 2 in \<open>auto simp: strings_Contains_iff\<close>)
  qed
qed

lemma script_free:
  "list_all (\<lambda>l. \<not> strings_Contains l t) ls \<Longrightarrow> CHR 0x0A \<notin> set t \<Longrightarrow> t \<noteq> [] \<Longrightarrow>
     \<not> strings_Contains (script_of ls) t"
proof (induction ls)
  case (Cons l ls)
  then show ?case
    using contains_line [of l "CHR 0x0A" "script_of ls" t] by (cases ls) (auto simp: script_of_def)
qed (simp add: script_of_def)

section \<open>The rendered workflow is accepted\<close>

lemma step_of_get:
  "mapping (Some (step_of sha p)) ''name'' = (if sp_name p = [] then None else Some (ytext (sp_name p)))"
  "mapping (Some (step_of sha p)) ''id'' = (if sp_id p = [] then None else Some (ytext (sp_id p)))"
  "mapping (Some (step_of sha p)) ''if'' = (if sp_ifCond p = [] then None else Some (ytext (sp_ifCond p)))"
  "mapping (Some (step_of sha p)) ''shell'' = (if sp_shell p = [] then None else Some (ytext (sp_shell p)))"
  "mapping (Some (step_of sha p)) ''continue-on-error'' =
     (if sp_continueOnError p = [] then None else Some (ytext (sp_continueOnError p)))"
  "mapping (Some (step_of sha p)) ''uses'' = (if sp_usesPrefix p = [] then None else Some (ytext (sp_usesPrefix p @ sha)))"
  "mapping (Some (step_of sha p)) ''run'' = map_option (\<lambda>ls. ytext (script_of ls)) (sp_runLines p)"
  "mapping (Some (step_of sha p)) ''with'' = map_option ytexts (sp_with p)"
  "mapping (Some (step_of sha p)) ''env'' = map_option ytexts (sp_env p)"
  by (simp_all add: step_of_def map_of_opt_text map_of_opt_map del: map_of_append split: option.split)

lemma optional_text_render: "optional_text (if v = [] then None else Some (ytext v)) v"
  by (simp add: optional_text_def)

lemma is_mapping_step_of [simp]: "is_mapping (Some (step_of sha p))"
  by (simp add: step_of_def)

lemma keys_step_of: "set (mapKeys (Some (step_of sha p))) \<subseteq>
    {''name'', ''id'', ''if'', ''uses'', ''run'', ''with'', ''env'', ''shell'', ''continue-on-error''}"
  by (cases "sp_runLines p") (simp_all add: step_of_def image_Un)

lemma step_of_matches:
  assumes "step_ok p"
  shows "step_matches (step_of sha p) p"
proof -
  have "uses_matches (mapping (Some (step_of sha p)) ''uses'') (sp_usesPrefix p)"
    by (simp add: uses_matches_def step_of_get)
  moreover have "script_matches (mapping (Some (step_of sha p)) ''run'') (sp_runLines p)"
    using assms by (auto simp: script_matches_def step_of_get step_ok_def script_ok_def list_all_iff
        intro!: scriptLines_script_of split: option.splits)
  ultimately show ?thesis
    using assms keys_step_of [of sha p]
    by (simp add: step_matches_def step_ok_def step_of_get(1-5,8,9) optional_text_render optional_map_render Let_def)
qed

lemma prefix_split:
  assumes "prefix_ok pre" "pre \<noteq> []"
  obtains action where "pre = action @ ''@''" "action \<noteq> []" "CHR ''@'' \<notin> set action" "butlast pre = action"
  using assms append_butlast_last_id [of pre] by (metis prefix_ok_def)

lemma Cut_action: "CHR ''@'' \<notin> set action \<Longrightarrow> Cut ((action @ ''@'') @ sha) CHR ''@'' = (action, sha, True)"
proof -
  assume a: "CHR ''@'' \<notin> set action"
  have "takeWhile (\<lambda>x. x \<noteq> CHR ''@'') (action @ CHR ''@'' # sha) = action"
    "dropWhile (\<lambda>x. x \<noteq> CHR ''@'') (action @ CHR ''@'' # sha) = CHR ''@'' # sha"
    using a by (induction action) auto
  then show ?thesis by (simp add: Cut_def)
qed

lemma stepIdentity_step_of:
  assumes "step_ok p"
  shows "stepIdentity (step_of sha p) = sp_identity p"
proof (cases "sp_usesPrefix p = []")
  case True
  then show ?thesis
    using assms by (simp add: stepIdentity_def step_of_get step_ok_def identity_ok_def Let_def)
next
  case False
  have "prefix_ok (sp_usesPrefix p)" using assms by (simp add: step_ok_def)
  from prefix_split [OF this False] have cut: "fst (Cut (sp_usesPrefix p @ sha) CHR ''@'') = butlast (sp_usesPrefix p)"
    using Cut_action by (metis fst_conv)
  show ?thesis
    using assms False by (simp add: stepIdentity_def step_of_get step_ok_def identity_ok_def Let_def cut)
qed

lemma job_of_get:
  "mapping (Some (job_of sha p)) ''name'' = (if jp_displayName p = [] then None else Some (ytext (jp_displayName p)))"
  "mapping (Some (job_of sha p)) ''if'' = (if jp_ifCond p = [] then None else Some (ytext (jp_ifCond p)))"
  "mapping (Some (job_of sha p)) ''runs-on'' = (if jp_runsOn p = [] then None else Some (ytext (jp_runsOn p)))"
  "mapping (Some (job_of sha p)) ''timeout-minutes'' =
     (if jp_timeoutMinutes p = [] then None else Some (ytext (jp_timeoutMinutes p)))"
  "mapping (Some (job_of sha p)) ''needs'' = map_option (\<lambda>ns. yseq (map ytext ns)) (jp_needs p)"
  "mapping (Some (job_of sha p)) ''permissions'' = map_option ytexts (jp_permissions p)"
  "mapping (Some (job_of sha p)) ''outputs'' = map_option ytexts (jp_outputs p)"
  "mapping (Some (job_of sha p)) ''steps'' = Some (yseq (map (step_of sha) (jp_steps p)))"
  by (simp_all add: job_of_def map_of_opt_text map_of_opt_map del: map_of_append split: option.split)

lemma steps_job_of: "steps (Some (job_of sha p)) = map (step_of sha) (jp_steps p)"
  by (simp add: steps_def job_of_get)

lemma keys_job_of: "set (mapKeys (Some (job_of sha p))) \<subseteq>
    {''name'', ''if'', ''needs'', ''runs-on'', ''timeout-minutes'', ''permissions'', ''outputs'', ''steps''}"
  by (cases "jp_needs p") (simp_all add: job_of_def image_Un)

lemma sameStringSet_refl [simp]: "sameStringSet xs xs"
  by (simp add: sameStringSet_def list_all_iff)

lemma seqStrings_render [simp]: "seqStrings (Some (yseq (map ytext xs))) = xs"
  by (simp add: seqStrings_def comp_def)

lemma checkAcceptedJob_render:
  assumes "job_ok p"
  shows "checkAcceptedJob c path (Some (job_of sha p)) p = []"
proof -
  have ids: "map (\<lambda>s. stepIdentity (step_of sha s)) (jp_steps p) = job_stepIdentities p"
    using assms by (auto simp: job_stepIdentities_def job_ok_def list_all_iff stepIdentity_step_of)
  have "list_all2 step_matches (map (step_of sha) (jp_steps p)) (jp_steps p)"
    using assms by (auto simp: job_ok_def list_all_iff list_all2_conv_all_nth intro: step_of_matches)
  then have "checkAcceptedJobSteps c path (Some (job_of sha p)) p = []"
    using ids by (simp add: checkAcceptedJobSteps_def steps_job_of Let_def comp_def check_steps_ok)
  moreover have "checkAcceptedJobNeeds c path (Some (job_of sha p)) p = []"
    by (cases "jp_needs p") (simp_all add: checkAcceptedJobNeeds_def needs_def job_of_get nil_list_def)
  moreover have "checkAcceptedJobPermissions c path (Some (job_of sha p)) p = []"
    "checkAcceptedJobOutputs c path (Some (job_of sha p)) p = []"
    using assms by (auto simp: checkAcceptedJobPermissions_def checkAcceptedJobOutputs_def job_of_get job_ok_def smap_ok_def
        expectations exact_map_ytexts Let_def split: option.splits)
  moreover have "checkAcceptedJobEnvelope c path (Some (job_of sha p)) p = []"
    using keys_job_of [of sha p] by (simp add: checkAcceptedJobEnvelope_def expectations job_of_get) (simp add: job_of_def)
  ultimately show ?thesis by (simp add: checkAcceptedJob_def)
qed

text \<open>No key is rendered twice.\<close>

definition no_duplicates :: "ynode \<Rightarrow> bool" where
  "no_duplicates n \<longleftrightarrow> (\<forall>c path. checkDuplicateKeys c path n = [])"

lemma no_duplicates_ytext [simp]: "no_duplicates (ytext s)"
  by (simp add: no_duplicates_def ytext_def)

lemma no_duplicates_yseq: "\<forall>x \<in> set xs. no_duplicates x \<Longrightarrow> no_duplicates (yseq xs)"
proof -
  have "\<forall>x \<in> set xs. no_duplicates x \<Longrightarrow> duplicate_items c path i xs = []" for c path i
    by (induction xs arbitrary: i) (simp_all add: no_duplicates_def)
  then show "\<forall>x \<in> set xs. no_duplicates x \<Longrightarrow> ?thesis"
    by (simp add: no_duplicates_def yseq_def)
qed

lemma no_duplicates_ymap:
  assumes "distinct (map fst kvs)" "\<forall>(k, v) \<in> set kvs. no_duplicates v"
  shows "no_duplicates (ymap kvs)"
proof -
  have "set seen \<inter> fst ` set kvs = {} \<Longrightarrow> duplicate_pairs c path seen (concat (map (\<lambda>(k, v). [ytext k, v]) kvs)) = []" for c path seen
    using assms
  proof (induction kvs arbitrary: seen)
    case (Cons kv kvs)
    obtain k v where kv: "kv = (k, v)" by fastforce
    have "duplicate_pairs c path (k # seen) (concat (map (\<lambda>(k, v). [ytext k, v]) kvs)) = []"
      using Cons.prems by (intro Cons.IH) (auto simp: kv)
    then show ?case
      using Cons.prems by (simp add: kv no_duplicates_def Let_def)
  qed simp
  then show ?thesis by (simp add: no_duplicates_def ymap_def)
qed

lemma no_duplicates_ytexts: "distinct (map fst m) \<Longrightarrow> no_duplicates (ytexts m)"
  unfolding ytexts_def by (rule no_duplicates_ymap) (auto simp: comp_def case_prod_beta)

lemma opt_keys [simp]:
  "k \<in> fst ` set (opt_text key v) \<longleftrightarrow> v \<noteq> [] \<and> k = key" "k \<in> fst ` set (opt_map key m) \<longleftrightarrow> m \<noteq> None \<and> k = key"
  "fst ` set (opt_text key v) \<inter> S = {} \<longleftrightarrow> v = [] \<or> key \<notin> S" "fst ` set (opt_map key m) \<inter> S = {} \<longleftrightarrow> m = None \<or> key \<notin> S"
  "distinct (map fst (opt_text key v))" "distinct (map fst (opt_map key m))"
  by (auto simp: opt_text_def opt_map_def split: option.splits)

lemma opt_values:
  "(k, n) \<in> set (opt_text key v) \<Longrightarrow> no_duplicates n" "(k, n) \<in> set (opt_map key m) \<Longrightarrow> smap_ok m \<Longrightarrow> no_duplicates n"
  by (auto simp: opt_text_def opt_map_def smap_ok_def no_duplicates_ytexts split: if_splits option.splits)

lemma no_duplicates_step_of:
  assumes "step_ok p"
  shows "no_duplicates (step_of sha p)"
  unfolding step_of_def
proof (rule no_duplicates_ymap, goal_cases)
  case 1
  show ?case by (cases "sp_runLines p") (simp_all add: image_Un)
next
  case 2
  show ?case
    using assms by (cases "sp_runLines p") (auto simp: step_ok_def dest: opt_values split: if_splits)
qed

lemma no_duplicates_job_of:
  assumes "job_ok p"
  shows "no_duplicates (job_of sha p)"
  unfolding job_of_def
proof (rule no_duplicates_ymap, goal_cases)
  case 1
  show ?case by (cases "jp_needs p") (simp_all add: image_Un)
next
  case 2
  have "no_duplicates (yseq (map (step_of sha) (jp_steps p)))" "no_duplicates (yseq (map ytext ns))" for ns
    using assms by (auto intro!: no_duplicates_yseq no_duplicates_step_of simp: job_ok_def list_all_iff)
  then show ?case
    using assms by (cases "jp_needs p") (auto simp: job_ok_def dest: opt_values)
qed

lemma no_duplicates_workflow:
  assumes "policy_ok p"
  shows "no_duplicates (workflow_of sha p)"
proof -
  have "no_duplicates (ymap (map (\<lambda>j. (jp_name j, job_of sha j)) (rp_jobs p)))"
    using assms by (intro no_duplicates_ymap)
      (auto simp: policy_ok_def policy_jobNames_def comp_def list_all_iff intro: no_duplicates_job_of)
  moreover have "no_duplicates (yseq (map ytext xs))" for xs
    by (rule no_duplicates_yseq) auto
  moreover have "distinct (map fst (rp_topPermission p))"
    using assms by (simp add: policy_ok_def)
  ultimately show ?thesis
    using assms unfolding workflow_of_def
    by (intro no_duplicates_ymap) (auto simp: policy_ok_def intro!: no_duplicates_ytexts no_duplicates_ymap)
qed

lemma step_refs_sound:
  assumes "(path, v) \<in> set (step_refs key jobs)"
  obtains name step where "name \<in> set (mapKeys jobs)" "step \<in> set (steps (mapping jobs name))"
    "v = scalar (mapping (Some step) key)" "v \<noteq> []"
proof -
  obtain name i step where n: "name \<in> set (mapKeys jobs)" "(i, step) \<in> set (enumerate 0 (steps (mapping jobs name)))"
    "v = scalar (mapping (Some step) key)" "v \<noteq> []"
    using assms by (auto simp: step_refs_def Let_def split: if_splits)
  then have "step \<in> set (steps (mapping jobs name))"
    by (auto simp: in_set_enumerate_eq)
  with n that show thesis by blast
qed

lemma sameStringSet_sort: "sameStringSet want ks \<Longrightarrow> sameStringSet (sort ks) want"
  by (auto simp: sameStringSet_def list_all_iff split: if_splits)

text \<open>The jobs of the rendered workflow.\<close>

abbreviation rendered_jobs :: "string \<Rightarrow> releasePolicy \<Rightarrow> ynode option" where
  "rendered_jobs sha p \<equiv> Some (ymap (map (\<lambda>j. (jp_name j, job_of sha j)) (rp_jobs p)))"

lemma rendered_job:
  assumes "distinct (policy_jobNames p)" "j \<in> set (rp_jobs p)"
  shows "mapping (rendered_jobs sha p) (jp_name j) = Some (job_of sha j)"
proof -
  have "distinct (map fst (map (\<lambda>j. (jp_name j, job_of sha j)) (rp_jobs p)))"
    using assms(1) by (simp add: policy_jobNames_def comp_def)
  then show ?thesis
    using assms(2) by (auto intro: map_of_is_SomeI)
qed

lemma set_rendered_jobs [simp]: "set (mapKeys (rendered_jobs sha p)) = set (policy_jobNames p)"
  by (auto simp: policy_jobNames_def image_image)

lemma rendered_ref:
  assumes p: "policy_ok p" and r: "(path, v) \<in> set (step_refs key (rendered_jobs sha p))"
  obtains s where "step_ok s" "v = scalar (mapping (Some (step_of sha s)) key)" "v \<noteq> []"
  using r
proof (rule step_refs_sound)
  fix name step
  assume n: "name \<in> set (mapKeys (rendered_jobs sha p))" "step \<in> set (steps (mapping (rendered_jobs sha p) name))"
    "v = scalar (mapping (Some step) key)" "v \<noteq> []"
  obtain j where j: "j \<in> set (rp_jobs p)" "name = jp_name j"
    using n(1) unfolding set_rendered_jobs by (auto simp: policy_jobNames_def)
  have "distinct (policy_jobNames p)" "job_ok j"
    using p j(1) by (auto simp: policy_ok_def list_all_iff)
  then obtain s where "s \<in> set (jp_steps j)" "step = step_of sha s"
    using n(2) unfolding j(2) rendered_job [OF \<open>distinct (policy_jobNames p)\<close> j(1)] by (auto simp: steps_job_of)
  with \<open>job_ok j\<close> n that show thesis by (auto simp: job_ok_def list_all_iff)
qed

lemma checkActionPins_render:
  assumes "policy_ok p" "shaRef sha"
  shows "checkActionPins c (rendered_jobs sha p) = []"
proof -
  have "\<exists>action. Cut v CHR ''@'' = (action, sha, True) \<and> action \<noteq> []" if r: "(path, v) \<in> set (actionUses (rendered_jobs sha p))" for path v
  proof -
    obtain s where s: "step_ok s" "v = scalar (mapping (Some (step_of sha s)) ''uses'')" "v \<noteq> []"
      using rendered_ref [OF assms(1) r [unfolded actionUses_def]] by blast
    then have ne: "sp_usesPrefix s \<noteq> []" "v = sp_usesPrefix s @ sha" "prefix_ok (sp_usesPrefix s)"
      by (auto simp: step_of_get step_ok_def split: if_splits)
    then obtain action where "sp_usesPrefix s = action @ ''@''" "action \<noteq> []" "CHR ''@'' \<notin> set action"
      using prefix_split by blast
    then show ?thesis using Cut_action [of action sha] ne(2) by auto
  qed
  then show ?thesis
    using assms(2) by (fastforce simp: checkActionPins_def Let_def)
qed

lemma checkNoRunExpressions_render:
  assumes "policy_ok p"
  shows "checkNoRunExpressions c (rendered_jobs sha p) = []"
proof -
  have "\<not> strings_Contains v ''${{''" if r: "(path, v) \<in> set (runSteps (rendered_jobs sha p))" for path v
  proof -
    obtain s where s: "step_ok s" "v = scalar (mapping (Some (step_of sha s)) ''run'')" "v \<noteq> []"
      using rendered_ref [OF assms r [unfolded runSteps_def]] by blast
    then obtain ls where "sp_runLines s = Some ls" "v = script_of ls"
      by (cases "sp_runLines s") (auto simp: step_of_get)
    then show ?thesis
      using s(1) script_free [of "''${{''" ls] by (auto simp: step_ok_def script_ok_def list_all_iff)
  qed
  then show ?thesis
    by (auto simp: checkNoRunExpressions_def)
qed

lemma checkAcceptedJobs_render:
  assumes "policy_ok (c_policy c)"
  shows "checkAcceptedJobs c (rendered_jobs sha (c_policy c)) = []" "checkJobSet c (rendered_jobs sha (c_policy c)) = []"
    "checkCheckoutCredentials c (rendered_jobs sha (c_policy c)) = []"
proof -
  have d: "distinct (policy_jobNames (c_policy c))" and ok: "\<forall>j \<in> set (rp_jobs (c_policy c)). job_ok j"
    using assms by (auto simp: policy_ok_def list_all_iff)
  show "checkAcceptedJobs c (rendered_jobs sha (c_policy c)) = []"
    using ok by (simp add: checkAcceptedJobs_def rendered_job [OF d] checkAcceptedJob_render Let_def del: mapping_ymap)
  have "mapping (rendered_jobs sha (c_policy c)) name \<noteq> None" if "name \<in> set (policy_jobNames (c_policy c))" for name
  proof -
    obtain j where "j \<in> set (rp_jobs (c_policy c))" "name = jp_name j"
      using \<open>name \<in> set (policy_jobNames (c_policy c))\<close> by (auto simp: policy_jobNames_def)
    then show ?thesis using rendered_job [OF d] by simp
  qed
  then show "checkJobSet c (rendered_jobs sha (c_policy c)) = []"
    unfolding checkJobSet_def Let_def append_is_Nil_conv no_findings set_rendered_jobs by auto
  have "policy_job (c_policy c) name \<noteq> None" if "name \<in> set (policy_jobNames (c_policy c))" for name
    using that by (auto simp: policy_job_def policy_jobNames_def find_None_iff)
  then show "checkCheckoutCredentials c (rendered_jobs sha (c_policy c)) = []"
    unfolding checkCheckoutCredentials_def no_findings set_rendered_jobs by simp
qed

lemma check_body_render:
  assumes p: "policy_ok (c_policy c)" and sha: "shaRef sha"
  shows "check_body c (workflow_of sha (c_policy c)) = []"
proof -
  let ?p = "c_policy c" and ?flow = "workflow_of sha (c_policy c)"
  have jobs: "mapping (Some ?flow) ''jobs'' = rendered_jobs sha ?p"
    by (simp add: workflow_of_def)
  have "checkRoot c ?flow = []"
    using p unfolding checkRoot_def workflow_of_def
    by (simp add: expectations exact_map_ytexts policy_ok_def mapKeys_ymap Let_def sameStringSet_sort del: sort_key_simps)
  moreover have "checkTriggers c ?flow = []"
    using p by (simp add: checkTriggers_def workflow_of_def mapKeys_ymap policy_ok_def sameStringSet_sort Let_def del: sort_key_simps)
  moreover obtain v where v: "rp_topPermission ?p = [(''contents'', v)]"
    using p by (auto simp: policy_ok_def)
  then have "checkTopPermissions c ?flow = []"
    using exact_map_ytexts [of "rp_topPermission ?p"]
    by (simp add: checkTopPermissions_def workflow_of_def expectations map_get_def ytexts_def Let_def)
  ultimately show ?thesis
    using checkAcceptedJobs_render [OF p] checkActionPins_render [OF p sha] checkNoRunExpressions_render [OF p]
    by (simp add: check_body_def jobs Let_def)
qed

lemma rendered_no_findings:
  assumes p: "policy_ok (c_policy c)" and sha: "shaRef sha"
  shows "checkWorkflowAgainstPolicy c (workflow_of sha (c_policy c)) = []"
proof -
  have "checkDuplicateKeys c ''$'' (workflow_of sha (c_policy c)) = []"
    using no_duplicates_workflow [OF p] by (auto simp: no_duplicates_def)
  then show ?thesis
    using p check_body_render [OF p sha] by (simp add: checkWorkflowAgainstPolicy_def policy_ok_def)
qed

text \<open>
  C31: the checker accepts the workflow a policy describes. For every well-formed policy and every commit
  for the actions, the workflow rendered from the policy has no finding. The accepted policy is well-formed, so the checker's rules can be met.
\<close>

theorem rendered_workflow_accepted:
  "policy_ok acceptedReleasePolicy \<and>
   (policy_ok (c_policy c) \<and> shaRef sha \<longrightarrow> checkWorkflowAgainstPolicy c (workflow_of sha (c_policy c)) = [])"
  using policy_ok_accepted rendered_no_findings by blast

definition example_sha :: string where
  "example_sha = replicate 40 CHR ''0''"

definition example_outside :: outside where
  "example_outside = \<lparr>yaml_Unmarshal = (\<lambda>_. Inr (yseq [workflow_of example_sha acceptedReleasePolicy])), exec_bit = (\<lambda>_. True),
     out_q = (\<lambda>s. s), out_qs = concat\<rparr>"

lemma shaRef_example: "shaRef example_sha"
  by code_simp

theorem rendered_workflow_accepted_witness:
  "checkWorkflow example_outside ''release.yml'' (workflow_of example_sha acceptedReleasePolicy) = []"
  using rendered_workflow_accepted [of "new_checker example_outside ''release.yml'' acceptedReleasePolicy" example_sha] shaRef_example
  by (simp add: checkWorkflow_def new_checker_def)

lemma example_accepted_flow: "checkWorkflow example_outside ''release.yml'' (workflow_of example_sha acceptedReleasePolicy) = []"
  unfolding checkWorkflow_def
  using rendered_no_findings [of "new_checker example_outside ''release.yml'' acceptedReleasePolicy" example_sha] shaRef_example policy_ok_accepted
  by (simp add: new_checker_def)


end
